(* ===== verification/Net_Prelude.thy ===== *)
theory Net_Prelude
  imports Main "HOL-Library.Word" "HOL-Library.AList"
begin

unbundle bit_operations_syntax

section \<open>Prelude\<close>

text \<open>
  What the components of the development share: the names of the model's basic types, the
  Linux error numbers the sources mention, the lemma collections, and the generic facts on
  association lists (the model of \<^verbatim>\<open>std::unordered_map\<close> where the code iterates over the map),
  on sums over them and on optional minima that carry the component proofs.
\<close>

subsection \<open>Types\<close>

text \<open>
  \<^item> \<open>byte\<close> is \<^verbatim>\<open>std::byte\<close>; a \<^verbatim>\<open>std::span\<close> or \<^verbatim>\<open>std::vector\<close> of bytes is a list.
  \<^item> \<open>time\<close> is a \<^verbatim>\<open>steady_clock::time_point\<close>: nanoseconds since the clock's epoch.
  \<^item> \<open>ms\<close> is \<^verbatim>\<open>std::chrono::milliseconds\<close>.
  \<^item> \<open>co_handle\<close> is \<^verbatim>\<open>std::coroutine_handle<>\<close>: the address of a coroutine frame, \<open>0\<close> for the null
    handle; \<^verbatim>\<open>handle_key\<close> is the identity on it.
\<close>

type_synonym byte = "8 word"
type_synonym time = int
type_synonym ms = int
type_synonym co_handle = nat

abbreviation (input) null_handle :: co_handle where
  "null_handle \<equiv> 0"

text \<open>A millisecond is this many steady-clock ticks (nanoseconds).\<close>

abbreviation (input) ns_per_ms :: int where
  "ns_per_ms \<equiv> 1000000"

abbreviation (input) int_max :: int where
  "int_max \<equiv> 2147483647"

subsection \<open>Error numbers (Linux)\<close>

abbreviation (input) ENOENT :: int where "ENOENT \<equiv> 2"
abbreviation (input) EINTR :: int where "EINTR \<equiv> 4"
abbreviation (input) EBADF :: int where "EBADF \<equiv> 9"
abbreviation (input) EAGAIN :: int where "EAGAIN \<equiv> 11"
abbreviation (input) EWOULDBLOCK :: int where "EWOULDBLOCK \<equiv> 11"
abbreviation (input) ENOMEM :: int where "ENOMEM \<equiv> 12"
abbreviation (input) EBUSY :: int where "EBUSY \<equiv> 16"
abbreviation (input) EINVAL :: int where "EINVAL \<equiv> 22"
abbreviation (input) EPIPE :: int where "EPIPE \<equiv> 32"
abbreviation (input) EDEADLK :: int where "EDEADLK \<equiv> 35"
abbreviation (input) ETIME :: int where "ETIME \<equiv> 62"
abbreviation (input) ECONNRESET :: int where "ECONNRESET \<equiv> 104"
abbreviation (input) ETIMEDOUT :: int where "ETIMEDOUT \<equiv> 110"
abbreviation (input) EHOSTUNREACH :: int where "EHOSTUNREACH \<equiv> 113"
abbreviation (input) EINPROGRESS :: int where "EINPROGRESS \<equiv> 115"
abbreviation (input) ECANCELED :: int where "ECANCELED \<equiv> 125"

subsection \<open>Lemma collections\<close>

text \<open>
  \<open>net_defs\<close> collects the definitions of operations that proofs unfold together,
  \<open>net_inv\<close> the facts that an operation keeps an invariant.
\<close>

named_theorems net_defs
named_theorems net_inv

subsection \<open>Optional minima\<close>

text \<open>
  The earliest of the deadlines seen so far; \<open>None\<close> when there is none. It models the pair
  of a \<^verbatim>\<open>next_deadline\<close> initialised to \<^verbatim>\<open>time_point::max()\<close> and a \<^verbatim>\<open>has_next_deadline\<close> flag.
\<close>

definition min_opt :: "'a::linorder option \<Rightarrow> 'a option \<Rightarrow> 'a option" where
  "min_opt a b = (case a of None \<Rightarrow> b
     | Some x \<Rightarrow> (case b of None \<Rightarrow> Some x | Some y \<Rightarrow> Some (min x y)))"

text \<open>An optional lower bound of an optional value: \<open>None\<close> bounds only \<open>None\<close>.\<close>

definition le_opt :: "'a::linorder option \<Rightarrow> 'a option \<Rightarrow> bool" where
  "le_opt a b = (case b of None \<Rightarrow> True
     | Some y \<Rightarrow> (case a of None \<Rightarrow> False | Some x \<Rightarrow> x \<le> y))"

lemma min_opt_simps [simp]:
  "min_opt None b = b" "min_opt a None = a" "min_opt (Some x) (Some y) = Some (min x y)"
  by (simp_all add: min_opt_def split: option.splits)

lemma min_opt_assoc: "min_opt (min_opt a b) c = min_opt a (min_opt b c)"
  by (simp add: min_opt_def min.assoc split: option.splits)

lemma le_opt_simps [simp]:
  "le_opt a None" "\<not> le_opt None (Some y)" "le_opt (Some x) (Some y) = (x \<le> y)" "le_opt a a"
  by (simp_all add: le_opt_def split: option.splits)

lemma le_opt_trans: "le_opt a b \<Longrightarrow> le_opt b c \<Longrightarrow> le_opt a c"
  by (auto simp: le_opt_def split: option.splits)

lemma le_opt_min_opt [simp]: "le_opt (min_opt a b) a" "le_opt (min_opt a b) b"
  by (auto simp: le_opt_def min_opt_def split: option.splits)

lemma le_opt_min_optI: "le_opt a b \<or> le_opt a' b \<Longrightarrow> le_opt (min_opt a a') b"
  by (metis le_opt_min_opt le_opt_trans)

subsection \<open>Association lists\<close>

text \<open>The sum of a measure over the entries of an association list.\<close>

definition alist_sum :: "('v \<Rightarrow> nat) \<Rightarrow> ('k \<times> 'v) list \<Rightarrow> nat" where
  "alist_sum g ws = sum_list (map (g \<circ> snd) ws)"

lemma alist_sum_simps [simp]:
  "alist_sum g [] = 0"
  "alist_sum g ((k, v) # ws) = g v + alist_sum g ws"
  "alist_sum g (xs @ ys) = alist_sum g xs + alist_sum g ys"
  by (simp_all add: alist_sum_def)

lemma alist_sum_update_new:
  "map_of ws k = None \<Longrightarrow> alist_sum g (AList.update k v ws) = alist_sum g ws + g v"
  by (induction ws) (auto split: if_splits)

lemma alist_sum_update_old:
  "map_of ws k = Some v0 \<Longrightarrow> alist_sum g (AList.update k v ws) + g v0 = alist_sum g ws + g v"
  by (induction ws) (auto split: if_splits)

lemma alist_delete_absent: "map_of ws k = None \<Longrightarrow> AList.delete k ws = ws"
  by (induction ws) (auto split: if_splits)

lemma alist_sum_delete:
  "distinct (map fst ws) \<Longrightarrow> map_of ws k = Some v0 \<Longrightarrow>
     alist_sum g (AList.delete k ws) + g v0 = alist_sum g ws"
proof (induction ws)
  case Nil
  then show ?case by simp
next
  case (Cons p ws)
  obtain k' v' where p: "p = (k', v')" by (cases p)
  show ?case
  proof (cases "k' = k")
    case True
    with Cons.prems p have "map_of ws k = None"
      by (simp add: map_of_eq_None_iff)
    with True Cons.prems p show ?thesis by (simp add: alist_delete_absent)
  next
    case False
    with Cons p show ?thesis by simp
  qed
qed

lemma alist_sum_ge: "map_of ws k = Some v \<Longrightarrow> g v \<le> alist_sum g ws"
  by (induction ws) (auto split: if_splits)

lemma set_update_cases:
  "x \<in> set (AList.update k v ws) \<Longrightarrow> x = (k, v) \<or> x \<in> set ws"
  by (induction ws) (auto split: if_splits)

lemma set_update_distinct:
  "distinct (map fst ws) \<Longrightarrow>
     set (AList.update k v ws) = insert (k, v) {p \<in> set ws. fst p \<noteq> k}"
proof (induction ws)
  case Nil
  then show ?case by simp
next
  case (Cons p ws)
  then show ?case by (cases p) (auto simp: rev_image_eqI)
qed

lemma set_delete_subset: "set (AList.delete k ws) \<subseteq> set ws"
  by (induction ws) auto

lemma set_delete_eq: "set (AList.delete k ws) = {p \<in> set ws. fst p \<noteq> k}"
  by (induction ws) auto

lemma keys_update_present:
  "map_of ws k = Some v0 \<Longrightarrow> map fst (AList.update k v ws) = map fst ws"
  by (induction ws) (auto split: if_splits)

lemma distinct_keys_delete:
  "distinct (map fst ws) \<Longrightarrow> distinct (map fst (AList.delete k ws))"
  by (rule distinct_delete)

lemma alist_update_append:
  "map_of xs k = None \<Longrightarrow> AList.update k v (xs @ ys) = xs @ AList.update k v ys"
  by (induction xs) (auto split: if_splits)

lemma map_of_distinct_mem:
  "distinct (map fst ws) \<Longrightarrow> ((k, v) \<in> set ws) = (map_of ws k = Some v)"
  by simp

text \<open>A sum whose every term is at most a constant is bounded by the number of keys.\<close>

lemma alist_sum_bound: "(\<And>v. g v \<le> c) \<Longrightarrow> alist_sum g ws \<le> c * length ws"
proof (induction ws)
  case Nil
  then show ?case by simp
next
  case (Cons p ws)
  then show ?case
    using add_mono[of "g (snd p)" c "alist_sum g ws" "c * length ws"]
    by (cases p) auto
qed

lemma length_le_card_keys:
  assumes "distinct (map fst ws)" "fst ` set ws \<subseteq> A" "finite A"
  shows "length ws \<le> card A"
proof -
  have "length ws = card (fst ` set ws)"
    using assms(1) by (metis distinct_card length_map list.set_map)
  also have "\<dots> \<le> card A"
    using assms(2,3) by (rule card_mono[rotated])
  finally show ?thesis .
qed

end
