(* ===== verification/Posix.thy ===== *)
theory Posix
  imports Net_Prelude
begin

section \<open>The boundary to the operating system\<close>

text \<open>
  libsimplenet is a layer over Linux: every operation is a sequence of calls of code that is
  not part of the repository (the kernel, libc, liburing, the steady clock, a shared atomic
  another thread may write, the console, the event loop seen from inside a suspended coroutine). That code
  is a parameter of the model, the \<^emph>\<open>kernel\<close>: a function that answers a call, given the history
  of all earlier calls and their answers. Nothing is assumed about the answers except in
  theorems that say so, and because an answer may depend on the whole history, every
  deterministic or nondeterministic environment is covered by quantifying over kernels.

  The state threaded through the model, the \<^emph>\<open>world\<close>, is the thread's \<^verbatim>\<open>errno\<close>, that history,
  newest call first, and the two thread-local objects of the library. Properties about effects (which descriptors are open, which bytes were
  accepted by the kernel, in which order) are properties of the history.
\<close>

subsection \<open>Calls and answers\<close>

record sockaddr_in =
  sin_family :: int
  sin_port :: "16 word"  \<comment> \<open>network byte order\<close>
  sin_addr :: "32 word"

datatype sock_kind = SOCK_STREAM | SOCK_DGRAM

datatype sockopt = SO_REUSEADDR | SO_SNDBUF

datatype epoll_op = EPOLL_CTL_ADD | EPOLL_CTL_MOD | EPOLL_CTL_DEL

datatype ext_call =
    Close int
  | Socket sock_kind bool bool  \<comment> \<open>kind, \<^verbatim>\<open>SOCK_CLOEXEC\<close>, \<^verbatim>\<open>SOCK_NONBLOCK\<close>\<close>
  | Connect int sockaddr_in
  | Bind int sockaddr_in
  | Listen int int
  | Accept4 int bool bool  \<comment> \<open>descriptor, \<^verbatim>\<open>SOCK_CLOEXEC\<close>, \<^verbatim>\<open>SOCK_NONBLOCK\<close>\<close>
  | Setsockopt int sockopt int
  | Getsockopt_error int
  | Getsockname int
  | Recv int nat
  | Send int "byte list"  \<comment> \<open>with \<^verbatim>\<open>MSG_NOSIGNAL\<close>\<close>
  | Send_plain int "byte list"  \<comment> \<open>with no flags\<close>
  | Sendto int "byte list" sockaddr_in
  | Recvfrom int nat
  | Shutdown_write int
  | Fcntl_getfl int
  | Fcntl_setfl int int
  | Epoll_create1
  | Epoll_ctl int epoll_op int "(32 word \<times> int) option"
  | Epoll_wait int nat int
  | Eventfd
  | Write_u64 int "64 word"
  | Read_u64 int
  | Timerfd_create
  | Timerfd_settime int int int
  | Clock_now
  | New_ring
  | Uring_queue_init "32 word"
  | Uring_queue_exit
  | Uring_get_sqe
  | Uring_prep_poll_add int "32 word" "64 word"
  | Uring_prep_poll_remove "64 word" "64 word"
  | Uring_submit
  | Uring_wait_cqe
  | Uring_wait_cqe_timeout int int
  | Uring_peek_cqe
  | Uring_cqe_seen
  | Atomic_load_stop
  | Atomic_load_cancel nat
  | Atomic_store_cancel nat
  | Await_ready int bool "ms option"
  | Getaddrinfo string string
  | Failed_load  \<comment> \<open>the benchmarks' shared flag: load, and exchange with true\<close>
  | Failed_exchange
  | Store_message string
  | Load_message
  | Count_accepted
  | Load_accepted
  | Thread_start
  | Thread_join
  | Pipe2
  | Cout string  \<comment> \<open>text written to the two standard streams\<close>
  | Cerr string

text \<open>
  \<open>a_ret\<close> is the call's return value, \<open>a_errno\<close> the value of \<^verbatim>\<open>errno\<close> after it; the other fields
  are what the call writes through its pointer arguments: received bytes, an address, ready
  events, a completion's user data, a number (the clock's reading, \<^verbatim>\<open>SO_ERROR\<close>, a completion's
  result), the two ends of a pipe and whether a returned pointer is non-null.
\<close>

record answer =
  a_ret :: int
  a_errno :: int
  a_data :: "byte list"
  a_addr :: sockaddr_in
  a_events :: "(int \<times> 32 word) list"
  a_user_data :: "64 word"
  a_num :: int
  a_pipe :: "int \<times> int"
  a_ptr :: bool

type_synonym history = "(ext_call \<times> answer) list"
type_synonym kernel = "history \<Rightarrow> ext_call \<Rightarrow> answer"

record world =
  errno :: int
  trace :: history
  cached_events :: nat  \<comment> \<open>size of \<^verbatim>\<open>epoll::reactor::wait\<close>'s thread-local buffer\<close>
  sleep_timer :: "int option"  \<comment> \<open>\<^verbatim>\<open>async_sleep\<close>'s thread-local timer, once created\<close>

definition sys :: "kernel \<Rightarrow> ext_call \<Rightarrow> world \<Rightarrow> answer \<times> world" where
  "sys K c w = (let a = K (trace w) c
     in (a, w\<lparr>errno := a_errno a, trace := (c, a) # trace w\<rparr>))"

text \<open>\<^verbatim>\<open>std::chrono::steady_clock::now()\<close>.\<close>

definition clock_now :: "kernel \<Rightarrow> world \<Rightarrow> time \<times> world" where
  "clock_now K w = (let (a, w1) = sys K Clock_now w in (a_num a, w1))"

text \<open>An answer with every field zero, and the empty world, for concrete kernels.\<close>

definition no_addr :: sockaddr_in where
  "no_addr = \<lparr>sin_family = 0, sin_port = 0, sin_addr = 0\<rparr>"

definition ok_answer :: answer where
  "ok_answer = \<lparr>a_ret = 0, a_errno = 0, a_data = [], a_addr = no_addr, a_events = [],
     a_user_data = 0, a_num = 0, a_pipe = (0, 0), a_ptr = False\<rparr>"

definition init_world :: world where
  "init_world = \<lparr>errno = 0, trace = [], cached_events = 0, sleep_timer = None\<rparr>"

subsection \<open>Reading a history\<close>

text \<open>Descriptors the kernel has handed out, and descriptors that were closed; newest first.\<close>

fun opens :: "ext_call \<Rightarrow> bool" where
  "opens (Socket _ _ _) = True"
| "opens (Accept4 _ _ _) = True"
| "opens Epoll_create1 = True"
| "opens Eventfd = True"
| "opens Timerfd_create = True"
| "opens Pipe2 = True"
| "opens _ = False"

fun opened :: "history \<Rightarrow> int list" where
  "opened [] = []"
| "opened ((c, a) # tr) = (if opens c \<and> 0 \<le> a_ret a
     then (if c = Pipe2 then [snd (a_pipe a), fst (a_pipe a)] else [a_ret a]) @ opened tr else opened tr)"

fun closed :: "history \<Rightarrow> int list" where
  "closed [] = []"
| "closed ((c, a) # tr) = (case c of Close fd \<Rightarrow> fd # closed tr | _ \<Rightarrow> closed tr)"

text \<open>The bytes the kernel accepted on, and delivered from, a descriptor, oldest first.\<close>

fun sent :: "int \<Rightarrow> history \<Rightarrow> byte list" where
  "sent fd [] = []"
| "sent fd ((c, a) # tr) = sent fd tr @
     (case c of
        Send f buf \<Rightarrow> if f = fd then take (nat (a_ret a)) buf else []
      | Send_plain f buf \<Rightarrow> if f = fd then take (nat (a_ret a)) buf else []
      | _ \<Rightarrow> [])"

fun received :: "int \<Rightarrow> history \<Rightarrow> byte list" where
  "received fd [] = []"
| "received fd ((c, a) # tr) = received fd tr @
     (case c of Recv f n \<Rightarrow> if f = fd \<and> 0 \<le> a_ret a then a_data a else [] | _ \<Rightarrow> [])"

text \<open>The readings of the steady clock, newest first.\<close>

fun readings :: "history \<Rightarrow> time list" where
  "readings [] = []"
| "readings ((c, a) # tr) = (case c of Clock_now \<Rightarrow> a_num a # readings tr | _ \<Rightarrow> readings tr)"

subsection \<open>Documented behaviour of the environment\<close>

text \<open>
  The hypotheses some theorems put on a kernel, each a sentence of the calls' documentation:
  \<open>send\<close> reports at most the length it was given, \<open>recv\<close> stores exactly the bytes it reports
  and at most the length it was given, the steady clock never goes back.
\<close>

definition send_bounded :: "kernel \<Rightarrow> bool" where
  "send_bounded K = (\<forall>tr fd buf. a_ret (K tr (Send fd buf)) \<le> int (length buf)
     \<and> a_ret (K tr (Send_plain fd buf)) \<le> int (length buf))"

definition recv_bounded :: "kernel \<Rightarrow> bool" where
  "recv_bounded K = (\<forall>tr fd n. a_ret (K tr (Recv fd n)) \<le> int n \<and>
     (0 \<le> a_ret (K tr (Recv fd n)) \<longrightarrow>
       length (a_data (K tr (Recv fd n))) = nat (a_ret (K tr (Recv fd n)))))"

definition steady_clock :: "kernel \<Rightarrow> bool" where
  "steady_clock K = (\<forall>tr t. t \<in> set (readings tr) \<longrightarrow> t \<le> a_num (K tr Clock_now))"

subsection \<open>Facts\<close>

lemma sys_simps [simp]:
  "fst (sys K c w) = K (trace w) c"
  "trace (snd (sys K c w)) = (c, K (trace w) c) # trace w"
  "errno (snd (sys K c w)) = a_errno (K (trace w) c)"
  "cached_events (snd (sys K c w)) = cached_events w"
  "sleep_timer (snd (sys K c w)) = sleep_timer w"
  by (simp_all add: sys_def Let_def)

lemma sys_eq: "sys K c w = (K (trace w) c,
    w\<lparr>errno := a_errno (K (trace w) c), trace := (c, K (trace w) c) # trace w\<rparr>)"
  by (simp add: sys_def Let_def)

lemma clock_now_eq:
  "clock_now K w = (a_num (K (trace w) Clock_now), snd (sys K Clock_now w))"
  by (simp add: clock_now_def sys_eq)

lemma clock_now_trace [simp]:
  "trace (snd (clock_now K w)) = (Clock_now, K (trace w) Clock_now) # trace w"
  by (simp add: clock_now_eq)

lemma opened_append [simp]: "opened (xs @ ys) = opened xs @ opened ys"
  by (induction xs) auto

lemma closed_append [simp]: "closed (xs @ ys) = closed xs @ closed ys"
  by (induction xs) (auto split: ext_call.split)

lemma sent_append [simp]: "sent fd (xs @ ys) = sent fd ys @ sent fd xs"
  by (induction xs) auto

lemma received_append [simp]: "received fd (xs @ ys) = received fd ys @ received fd xs"
  by (induction xs) auto

text \<open>\<open>extends w w'\<close>: the history only grows; every operation of the model satisfies it.\<close>

definition extends :: "world \<Rightarrow> world \<Rightarrow> bool" where
  "extends w w' = (\<exists>new. trace w' = new @ trace w)"

lemma extends_refl [simp, intro]: "extends w w"
  by (simp add: extends_def)

lemma extends_trans [trans]: "extends w1 w2 \<Longrightarrow> extends w2 w3 \<Longrightarrow> extends w1 w3"
  by (auto simp: extends_def)

lemma extends_sys [simp, intro]: "extends w (snd (sys K c w))"
  by (simp add: extends_def)

end
