(* ===== verification/Core.thy ===== *)
theory Core
  imports Posix "HOL-Library.Multiset"
begin

section \<open>Core: errors, results, owned descriptors\<close>

text \<open>
  The layer \<^verbatim>\<open>core/\<close>: the class \<^verbatim>\<open>error\<close> around \<^verbatim>\<open>std::error_code\<close>, the alias \<^verbatim>\<open>result<T>\<close> for
  \<^verbatim>\<open>std::expected<T, error>\<close> with its helper constructors, and \<^verbatim>\<open>unique_fd\<close>, the move-only owner
  of a file descriptor. A \<^verbatim>\<open>result<T>\<close> is a sum with the error on the left. An operation that
  changes its object returns the changed object; \<^verbatim>\<open>operator=\<close> and \<^verbatim>\<open>swap\<close>, which change two
  objects, return both.
\<close>

subsection \<open>Errors and results\<close>

datatype category = generic_category | system_category

record error =
  code_value :: int
  code_category :: category

type_synonym 'a result = "error + 'a"

definition default_error :: error where
  "default_error = \<lparr>code_value = 0, code_category = system_category\<rparr>"

definition error_of_code :: "int \<Rightarrow> category \<Rightarrow> error" where
  "error_of_code v c = \<lparr>code_value = v, code_category = c\<rparr>"

definition from_errno :: "world \<Rightarrow> error" where
  "from_errno w = error_of_code (errno w) system_category"

definition from_errno_value :: "int \<Rightarrow> error" where
  "from_errno_value v = error_of_code v system_category"

definition error_value :: "error \<Rightarrow> int" where
  "error_value e = code_value e"

definition make_error_from_errno :: "int \<Rightarrow> error" where
  "make_error_from_errno v = from_errno_value v"

definition ok_result :: "'a \<Rightarrow> 'a result" where
  "ok_result v = Inr v"

definition err_result :: "error \<Rightarrow> 'a result" where
  "err_result e = Inl e"

abbreviation errno_error :: "int \<Rightarrow> 'a result" where
  "errno_error v \<equiv> Inl (make_error_from_errno v)"

subsection \<open>unique_fd\<close>

record unique_fd =
  fd :: int

definition empty_fd :: unique_fd where
  "empty_fd = \<lparr>fd = -1\<rparr>"

definition make_fd :: "int \<Rightarrow> unique_fd" where
  "make_fd n = \<lparr>fd = n\<rparr>"

definition fd_get :: "unique_fd \<Rightarrow> int" where
  "fd_get u = fd u"

definition fd_valid :: "unique_fd \<Rightarrow> bool" where
  "fd_valid u = (0 \<le> fd u)"

definition fd_release :: "unique_fd \<Rightarrow> int \<times> unique_fd" where
  "fd_release u = (fd u, u\<lparr>fd := -1\<rparr>)"

definition fd_reset :: "kernel \<Rightarrow> int \<Rightarrow> unique_fd \<Rightarrow> world \<Rightarrow> unique_fd \<times> world" where
  "fd_reset K n u w =
     (if fd u = n then (u, w)
      else let w1 = (if fd_valid u then snd (sys K (Close (fd u)) w) else w)
           in (u\<lparr>fd := n\<rparr>, w1))"

definition fd_destroy :: "kernel \<Rightarrow> unique_fd \<Rightarrow> world \<Rightarrow> world" where
  "fd_destroy K u w = snd (fd_reset K (-1) u w)"

definition fd_move_construct :: "unique_fd \<Rightarrow> unique_fd \<times> unique_fd" where
  "fd_move_construct other = (let (n, other') = fd_release other in (make_fd n, other'))"

text \<open>
  Move assignment of two distinct objects; the self-assignment test of the source compares
  addresses, so \<open>fd_move_assign_self\<close> is the other branch.
\<close>

definition fd_move_assign ::
    "kernel \<Rightarrow> unique_fd \<Rightarrow> unique_fd \<Rightarrow> world \<Rightarrow> unique_fd \<times> unique_fd \<times> world" where
  "fd_move_assign K this other w =
     (let (n, other') = fd_release other; (this', w1) = fd_reset K n this w
      in (this', other', w1))"

definition fd_move_assign_self :: "unique_fd \<Rightarrow> world \<Rightarrow> unique_fd \<times> world" where
  "fd_move_assign_self this w = (this, w)"

definition fd_swap :: "unique_fd \<Rightarrow> unique_fd \<Rightarrow> unique_fd \<times> unique_fd" where
  "fd_swap a b = (a\<lparr>fd := fd b\<rparr>, b\<lparr>fd := fd a\<rparr>)"

definition close_fd :: "kernel \<Rightarrow> int \<Rightarrow> world \<Rightarrow> unit result \<times> world" where
  "close_fd K n w =
     (if n < 0 then (errno_error EBADF, w)
      else let (a, w1) = sys K (Close n) w
           in if a_ret a = 0 then (Inr (), w1) else (Inl (from_errno w1), w1))"

subsection \<open>Programs over owned descriptors\<close>

text \<open>
  What the class lets a program do with its objects, one step at a time. The program also
  holds raw descriptors outside any object: those it opened and has not wrapped yet, and those
  it released. Opening returns a descriptor that is not in use, as the kernel guarantees.
\<close>

record fd_program =
  objs :: "unique_fd list"
  raw :: "int list"

datatype fd_op =
    Fd_open int  \<comment> \<open>the kernel hands out a descriptor\<close>
  | Fd_adopt nat int  \<comment> \<open>\<^verbatim>\<open>x.reset(n)\<close> with a raw descriptor\<close>
  | Fd_move nat nat  \<comment> \<open>\<^verbatim>\<open>x = std::move(y)\<close>\<close>
  | Fd_swap nat nat  \<comment> \<open>\<^verbatim>\<open>x.swap(y)\<close>\<close>
  | Fd_release nat  \<comment> \<open>\<^verbatim>\<open>x.release()\<close>\<close>
  | Fd_destroy nat  \<comment> \<open>the end of \<^verbatim>\<open>x\<close>'s lifetime\<close>

definition live_objs :: "unique_fd list \<Rightarrow> int list" where
  "live_objs us = filter (\<lambda>n. 0 \<le> n) (map fd us)"

definition live :: "fd_program \<Rightarrow> int list" where
  "live p = raw p @ live_objs (objs p)"

fun fd_exec :: "kernel \<Rightarrow> fd_op \<Rightarrow> fd_program \<Rightarrow> world \<Rightarrow> (fd_program \<times> world) option" where
  "fd_exec K (Fd_open n) p w =
     (if 0 \<le> n \<and> n \<notin> set (live p) then Some (p\<lparr>raw := n # raw p\<rparr>, w) else None)"
| "fd_exec K (Fd_adopt i n) p w =
     (if i < length (objs p) \<and> n \<in> set (raw p)
      then let (u, w1) = fd_reset K n (objs p ! i) w
           in Some (p\<lparr>objs := (objs p)[i := u], raw := remove1 n (raw p)\<rparr>, w1)
      else None)"
| "fd_exec K (Fd_move i j) p w =
     (if i < length (objs p) \<and> j < length (objs p)
      then if i = j
           then let (u, w1) = fd_move_assign_self (objs p ! i) w
                in Some (p\<lparr>objs := (objs p)[i := u]\<rparr>, w1)
           else let (u, v, w1) = fd_move_assign K (objs p ! i) (objs p ! j) w
                in Some (p\<lparr>objs := (objs p)[j := v, i := u]\<rparr>, w1)
      else None)"
| "fd_exec K (Fd_swap i j) p w =
     (if i < length (objs p) \<and> j < length (objs p) \<and> i \<noteq> j
      then let (u, v) = fd_swap (objs p ! i) (objs p ! j)
           in Some (p\<lparr>objs := (objs p)[i := u, j := v]\<rparr>, w)
      else None)"
| "fd_exec K (Fd_release i) p w =
     (if i < length (objs p)
      then let (n, u) = fd_release (objs p ! i)
           in Some (p\<lparr>objs := (objs p)[i := u], raw := (if 0 \<le> n then n # raw p else raw p)\<rparr>, w)
      else None)"
| "fd_exec K (Fd_destroy i) p w =
     (if i < length (objs p)
      then Some (p\<lparr>objs := (objs p)[i := empty_fd]\<rparr>, fd_destroy K (objs p ! i) w)
      else None)"

fun fd_run :: "kernel \<Rightarrow> fd_op list \<Rightarrow> fd_program \<Rightarrow> world \<Rightarrow> (fd_program \<times> world) option" where
  "fd_run K [] p w = Some (p, w)"
| "fd_run K (x # xs) p w =
     (case fd_exec K x p w of None \<Rightarrow> None | Some (p1, w1) \<Rightarrow> fd_run K xs p1 w1)"

definition fd_wf :: "fd_program \<Rightarrow> bool" where
  "fd_wf p = (distinct (live p) \<and> (\<forall>n \<in> set (live p). 0 \<le> n))"

fun op_opened :: "fd_op \<Rightarrow> int list" where
  "op_opened (Fd_open n) = [n]"
| "op_opened _ = []"

subsection \<open>Facts\<close>

lemma error_value_simps [simp]:
  "error_value (make_error_from_errno v) = v"
  "error_value (from_errno_value v) = v"
  "error_value (from_errno w) = errno w"
  by (simp_all add: error_value_def make_error_from_errno_def from_errno_value_def from_errno_def
      error_of_code_def)

lemma make_error_inj [simp]:
  "make_error_from_errno a = make_error_from_errno b \<longleftrightarrow> a = b"
  by (metis error_value_simps(1))

lemma unique_fd_simps [simp]:
  "fd (make_fd n) = n" "fd empty_fd = -1" "fd_get u = fd u"
  "fd_valid (make_fd n) = (0 \<le> n)" "\<not> fd_valid empty_fd"
  "fd_release u = (fd u, u\<lparr>fd := -1\<rparr>)"
  by (simp_all add: make_fd_def empty_fd_def fd_get_def fd_valid_def fd_release_def)

lemma fd_destroy_eq:
  "fd_destroy K u w = (if fd_valid u then snd (sys K (Close (fd u)) w) else w)"
  by (auto simp: fd_destroy_def fd_reset_def fd_valid_def Let_def)

subsection \<open>Ownership\<close>

text \<open>What one object owns.\<close>

definition owns :: "unique_fd \<Rightarrow> int multiset" where
  "owns u = (if fd_valid u then {#fd u#} else {#})"

lemma mset_live_update:
  "i < length us \<Longrightarrow>
     mset (live_objs (us[i := u])) + owns (us ! i) = mset (live_objs us) + owns u"
proof (induction us arbitrary: i)
  case Nil
  then show ?case by simp
next
  case (Cons x us)
  show ?case
  proof (cases i)
    case 0
    then show ?thesis by (simp add: live_objs_def owns_def fd_valid_def)
  next
    case (Suc k)
    with Cons.IH[of k] Cons.prems show ?thesis by (simp add: live_objs_def)
  qed
qed

lemma live_objs_mem: "i < length us \<Longrightarrow> 0 \<le> fd (us ! i) \<Longrightarrow> fd (us ! i) \<in> set (live_objs us)"
  by (simp add: live_objs_def)

lemma owns_in_live: "i < length us \<Longrightarrow> owns (us ! i) \<subseteq># mset (live_objs us)"
  by (auto simp: owns_def live_objs_def fd_valid_def)

lemma owns_two_in_live:
  assumes "i < length us" "j < length us" "i \<noteq> j"
  shows "owns (us ! i) + owns (us ! j) \<subseteq># mset (live_objs us)"
proof -
  have "owns (us ! i) \<subseteq># mset (live_objs (us[j := empty_fd]))"
    using owns_in_live[of i "us[j := empty_fd]"] assms by simp
  moreover have "mset (live_objs (us[j := empty_fd])) + owns (us ! j) = mset (live_objs us)"
    using mset_live_update[OF assms(2), of empty_fd] by (simp add: owns_def)
  ultimately show ?thesis
    by (metis subset_mset.add_right_mono)
qed

text \<open>What a reset closes: the descriptor owned before, unless it is the new one.\<close>

lemma fd_reset_closed:
  assumes "fd_reset K n u w = (u', w')"
  shows "fd u' = n" "mset (closed (trace w')) =
    mset (closed (trace w)) + (if fd u = n then {#} else owns u)"
  using assms by (auto simp: fd_reset_def owns_def Let_def split: if_splits)

lemma fd_destroy_closed:
  "mset (closed (trace (fd_destroy K u w))) = mset (closed (trace w)) + owns u"
  by (simp add: fd_destroy_eq owns_def)

lemma distinct_mset_subset:
  assumes "distinct ys" "mset xs \<subseteq># mset ys"
  shows "distinct xs"
  unfolding distinct_count_atmost_1
proof
  fix a
  have le: "count (mset xs) a \<le> count (mset ys) a"
    using assms(2) by (rule mset_subset_eq_count)
  have "count (mset ys) a \<le> 1"
    using assms(1) by (simp add: distinct_count_atmost_1)
  with le have "count (mset xs) a \<le> 1" by simp
  moreover have "a \<in> set xs \<longleftrightarrow> 0 < count (mset xs) a" by simp
  ultimately show "count (mset xs) a = (if a \<in> set xs then 1 else 0)"
    by (simp add: le_antisym Suc_leI)
qed

text \<open>
  One step moves descriptors between the kernel, the raw ones and the objects, and loses none:
  what was live or has just been opened is afterwards live or has been closed.
\<close>

lemma mset_shuffle:
  fixes A Q L N C R :: "'a multiset"
  shows "A + Q = L + N \<Longrightarrow> C + (R + N + L) = C + Q + (R + A)"
  by (simp add: ac_simps)

lemma fd_adopt_ledger:
  assumes "fd_wf p" "fd_exec K (Fd_adopt i n) p w = Some (p', w')"
  shows "mset (closed (trace w)) + mset (live p) = mset (closed (trace w')) + mset (live p')"
proof -
  from assms(2) obtain u where i: "i < length (objs p)" and n: "n \<in> set (raw p)"
    and u: "fd_reset K n (objs p ! i) w = (u, w')"
    and p': "p' = p\<lparr>objs := (objs p)[i := u], raw := remove1 n (raw p)\<rparr>"
    by (auto split: if_splits prod.splits)
  have "0 \<le> n" "n \<notin> set (live_objs (objs p))"
    using assms(1) n by (auto simp: fd_wf_def live_def)
  with live_objs_mem[OF i] have "fd (objs p ! i) \<noteq> n" "0 \<le> n"
    by auto
  then have "owns u = {#n#}" "mset (closed (trace w')) = mset (closed (trace w)) + owns (objs p ! i)"
    using fd_reset_closed[OF u] by (simp_all add: owns_def fd_valid_def)
  moreover have "mset (raw p) = mset (remove1 n (raw p)) + {#n#}"
    using n by simp
  ultimately show ?thesis
    using mset_shuffle[OF mset_live_update[OF i, of u],
        of "mset (closed (trace w))" "mset (remove1 n (raw p))"]
    by (simp add: p' live_def del: mset_remove1)
qed

lemma fd_move_ledger:
  assumes "fd_wf p" "fd_exec K (Fd_move i j) p w = Some (p', w')"
  shows "mset (closed (trace w)) + mset (live p) = mset (closed (trace w')) + mset (live p')"
proof (cases "i = j")
  case True
  with assms(2) show ?thesis by (auto simp: fd_move_assign_self_def live_def split: if_splits)
next
  case False
  let ?v = "(objs p ! j)\<lparr>fd := -1\<rparr>"
  from False assms(2) obtain u where i: "i < length (objs p)" and j: "j < length (objs p)"
    and u: "fd_reset K (fd (objs p ! j)) (objs p ! i) w = (u, w')"
    and p': "p' = p\<lparr>objs := (objs p)[j := ?v, i := u]\<rparr>"
    by (auto simp: fd_move_assign_def split: if_splits prod.splits)
  have "owns (objs p ! i) + owns (objs p ! j) \<subseteq># mset (live_objs (objs p))"
    using i j False by (rule owns_two_in_live)
  moreover have "count (mset (live_objs (objs p))) n \<le> 1" for n
    using assms(1) distinct_count_atmost_1[of "live_objs (objs p)"] by (simp add: fd_wf_def live_def)
  ultimately have "count (owns (objs p ! i) + owns (objs p ! j)) (fd (objs p ! i)) \<le> 1"
    by (meson mset_subset_eq_count order_trans)
  then have "fd (objs p ! i) \<noteq> fd (objs p ! j) \<or> \<not> fd_valid (objs p ! i)"
    by (auto simp: owns_def fd_valid_def split: if_splits)
  moreover have "mset (live_objs (objs p')) + owns (objs p ! i) + owns (objs p ! j)
      = mset (live_objs (objs p)) + owns u"
    using mset_live_update[of i "(objs p)[j := ?v]" u] mset_live_update[OF j, of ?v] i False
    by (simp add: p' owns_def fd_valid_def ac_simps split: if_splits)
  moreover have "owns u = owns (objs p ! j)"
    using fd_reset_closed(1)[OF u] by (simp add: owns_def fd_valid_def)
  ultimately show ?thesis
    using fd_reset_closed(2)[OF u]
    by (auto simp: p' live_def owns_def fd_valid_def split: if_splits)
qed

lemma fd_swap_ledger:
  assumes "fd_exec K (Fd_swap i j) p w = Some (p', w')"
  shows "mset (closed (trace w)) + mset (live p) = mset (closed (trace w')) + mset (live p')"
proof -
  let ?u = "(objs p ! i)\<lparr>fd := fd (objs p ! j)\<rparr>" and ?v = "(objs p ! j)\<lparr>fd := fd (objs p ! i)\<rparr>"
  from assms have i: "i < length (objs p)" and j: "j < length (objs p)" and "i \<noteq> j"
    and p': "p' = p\<lparr>objs := (objs p)[i := ?u, j := ?v]\<rparr>" and w': "w' = w"
    by (auto simp: fd_swap_def split: if_splits)
  have "mset (live_objs (objs p')) + owns (objs p ! i) + owns (objs p ! j)
      = mset (live_objs (objs p)) + owns ?u + owns ?v"
    using mset_live_update[of j "(objs p)[i := ?u]" ?v] mset_live_update[OF i, of ?u] j \<open>i \<noteq> j\<close>
    by (simp add: p' ac_simps)
  then show ?thesis
    by (simp add: p' w' live_def owns_def fd_valid_def split: if_splits)
qed

lemma fd_exec_ledger:
  assumes "fd_wf p" "fd_exec K x p w = Some (p', w')"
  shows "mset (op_opened x) + mset (closed (trace w)) + mset (live p)
    = mset (closed (trace w')) + mset (live p')"
proof (cases x)
  case (Fd_adopt i n)
  with assms fd_adopt_ledger show ?thesis by fastforce
next
  case (Fd_move i j)
  with assms fd_move_ledger show ?thesis by fastforce
next
  case (Fd_swap i j)
  with assms fd_swap_ledger show ?thesis by fastforce
next
  case (Fd_release i)
  with assms show ?thesis
    using mset_live_update[of i "objs p" "(objs p ! i)\<lparr>fd := -1\<rparr>"]
    by (auto simp: live_def owns_def fd_valid_def split: if_splits)
next
  case (Fd_destroy i)
  with assms show ?thesis
    using mset_live_update[of i "objs p" empty_fd]
    by (auto simp: live_def fd_destroy_closed split: if_splits) (simp add: owns_def add_ac)
qed (use assms in \<open>auto simp: live_def split: if_splits\<close>)

lemma fd_reset_extends: "extends w (snd (fd_reset K n u w))"
  by (simp add: fd_reset_def Let_def)

lemma fd_exec_extends: "fd_exec K x p w = Some (p', w') \<Longrightarrow> extends w w'"
  using fd_reset_extends[of w K]
  by (cases x)
    (auto simp: fd_destroy_def fd_move_assign_def fd_move_assign_self_def split: if_splits prod.splits,
      metis snd_conv, metis snd_conv)

lemma fd_exec_wf [net_inv]:
  assumes "fd_wf p" "fd_exec K x p w = Some (p', w')"
  shows "fd_wf p'"
proof -
  have nonneg: "\<forall>n \<in> set (op_opened x). 0 \<le> n" and dist: "distinct (op_opened x @ live p)"
    using assms by (cases x; auto simp: fd_wf_def split: if_splits)+
  obtain new where "closed (trace w') = new @ closed (trace w)"
    using fd_exec_extends[OF assms(2)] by (auto simp: extends_def)
  then have "mset (op_opened x @ live p) = mset new + mset (live p')"
    using fd_exec_ledger[OF assms] by (simp add: ac_simps)
  then have sub: "mset (live p') \<subseteq># mset (op_opened x @ live p)"
    by simp
  show ?thesis
    using distinct_mset_subset[OF dist sub] nonneg assms(1) mset_subset_eqD[OF sub]
    by (auto simp: fd_wf_def)
qed

lemma fd_run_ledger_wf:
  "fd_wf p \<Longrightarrow> fd_run K ops p w = Some (p', w') \<Longrightarrow>
     fd_wf p' \<and> mset (concat (map op_opened ops)) + mset (closed (trace w)) + mset (live p)
       = mset (closed (trace w')) + mset (live p')"
proof (induction ops arbitrary: p w)
  case Nil
  then show ?case by simp
next
  case (Cons x xs)
  from Cons.prems(2) obtain p1 w1 where x: "fd_exec K x p w = Some (p1, w1)"
    and xs: "fd_run K xs p1 w1 = Some (p', w')"
    by (auto split: option.splits)
  have "fd_wf p1" using Cons.prems(1) x by (rule fd_exec_wf)
  note rest = Cons.IH[OF this xs]
  have "mset (concat (map op_opened (x # xs))) + mset (closed (trace w)) + mset (live p)
      = mset (concat (map op_opened xs)) + (mset (op_opened x) + mset (closed (trace w)) + mset (live p))"
    by (simp add: ac_simps)
  also have "\<dots> = mset (concat (map op_opened xs)) + (mset (closed (trace w1)) + mset (live p1))"
    by (simp only: fd_exec_ledger[OF Cons.prems(1) x])
  also have "\<dots> = mset (closed (trace w')) + mset (live p')"
    using rest by (simp add: add.assoc)
  finally show ?case using rest by blast
qed

lemma live_initial: "live \<lparr>objs = replicate n empty_fd, raw = []\<rparr> = []"
  by (simp add: live_def live_objs_def)

lemma fd_wf_initial: "fd_wf \<lparr>objs = replicate n empty_fd, raw = []\<rparr>"
  by (simp add: fd_wf_def live_initial)

text \<open>
  C32. Descriptors are neither leaked nor closed twice. Whatever sequence of constructions,
  resets, moves, self-moves, swaps, releases and destructions a program performs on its
  \<open>unique_fd\<close> objects, and whatever \<open>close\<close> answers: the descriptors the kernel handed out are,
  counted with multiplicity, exactly those closed during the run plus those still held, and no
  descriptor is held twice.
\<close>

theorem fd_run_ledger:
  assumes "fd_run K ops \<lparr>objs = replicate n empty_fd, raw = []\<rparr> w = Some (p, w')"
  shows "mset (concat (map op_opened ops)) + mset (closed (trace w))
      = mset (closed (trace w')) + mset (live p) \<and> distinct (live p)"
  using fd_run_ledger_wf[OF fd_wf_initial assms] by (simp add: fd_wf_def live_initial)

theorem fd_run_ledger_witness:
  "\<exists>p w'. fd_run (\<lambda>_ _. ok_answer)
       [Fd_open 3, Fd_adopt 0 3, Fd_open 4, Fd_adopt 1 4, Fd_move 0 1, Fd_swap 0 1, Fd_destroy 1]
       \<lparr>objs = replicate 2 empty_fd, raw = []\<rparr> init_world = Some (p, w')
     \<and> mset [3, 4] = mset (closed (trace w')) + mset (live p) \<and> distinct (live p)
     \<and> closed (trace w') = [4, 3]"
proof -
  let ?run = "fd_run (\<lambda>_ _. ok_answer)
      [Fd_open 3, Fd_adopt 0 3, Fd_open 4, Fd_adopt 1 4, Fd_move 0 1, Fd_swap 0 1, Fd_destroy 1]
      \<lparr>objs = replicate 2 empty_fd, raw = []\<rparr> init_world"
  have "map_option (\<lambda>(p, w'). closed (trace w')) ?run = Some [4, 3]"
    by code_simp
  then obtain p w' where run: "?run = Some (p, w')" and cl: "closed (trace w') = [4, 3]"
    by auto
  from fd_run_ledger[OF run] run cl show ?thesis by (auto simp: init_world_def)
qed

end
