(* ===== verification/Epoll_Reactor.thy ===== *)
theory Epoll_Reactor
  imports Core
begin

section \<open>The epoll reactor\<close>

text \<open>
  \<^verbatim>\<open>epoll/reactor\<close>: a thin owner of an epoll descriptor. \<open>reactor_wait\<close> returns the list of ready
  events it copies into the caller's span; \<open>event_buffer\<close> is the choice between the thread-local
  buffer and a fresh vector, as capacity of the buffer used and new size of the cached one.
\<close>

abbreviation (input) EPOLLIN :: "32 word" where "EPOLLIN \<equiv> 0x1"
abbreviation (input) EPOLLOUT :: "32 word" where "EPOLLOUT \<equiv> 0x4"
abbreviation (input) EPOLLERR :: "32 word" where "EPOLLERR \<equiv> 0x8"
abbreviation (input) EPOLLHUP :: "32 word" where "EPOLLHUP \<equiv> 0x10"
abbreviation (input) EPOLLRDHUP :: "32 word" where "EPOLLRDHUP \<equiv> 0x2000"
abbreviation (input) EPOLLET :: "32 word" where "EPOLLET \<equiv> 0x80000000"

record ready_event =
  ev_fd :: int
  ev_events :: "32 word"

record epoll_reactor =
  epoll_fd :: unique_fd

definition empty_reactor :: epoll_reactor where
  "empty_reactor = \<lparr>epoll_fd = empty_fd\<rparr>"

definition reactor_valid :: "epoll_reactor \<Rightarrow> bool" where
  "reactor_valid r = fd_valid (epoll_fd r)"

definition reactor_native_handle :: "epoll_reactor \<Rightarrow> int" where
  "reactor_native_handle r = fd_get (epoll_fd r)"

definition reactor_create :: "kernel \<Rightarrow> world \<Rightarrow> epoll_reactor result \<times> world" where
  "reactor_create K w =
     (let (a, w1) = sys K Epoll_create1 w
      in if a_ret a < 0 then (Inl (from_errno w1), w1)
         else (Inr \<lparr>epoll_fd = make_fd (a_ret a)\<rparr>, w1))"

definition reactor_ctl ::
    "kernel \<Rightarrow> epoll_op \<Rightarrow> int \<Rightarrow> 32 word \<Rightarrow> bool \<Rightarrow> epoll_reactor \<Rightarrow> world \<Rightarrow> unit result \<times> world" where
  "reactor_ctl K operation n events has_ev r w =
     (if \<not> reactor_valid r then (errno_error EBADF, w)
      else if n < 0 then (errno_error EBADF, w)
      else
        let (a, w1) = sys K (Epoll_ctl (fd_get (epoll_fd r)) operation n
              (if has_ev then Some (events, n) else None)) w
        in if a_ret a = 0 then (Inr (), w1)
           else if operation = EPOLL_CTL_DEL \<and> errno w1 = ENOENT then (Inr (), w1)
           else (Inl (from_errno w1), w1))"

definition reactor_add ::
    "kernel \<Rightarrow> int \<Rightarrow> 32 word \<Rightarrow> epoll_reactor \<Rightarrow> world \<Rightarrow> unit result \<times> world" where
  "reactor_add K n events r w = reactor_ctl K EPOLL_CTL_ADD n events True r w"

definition reactor_modify ::
    "kernel \<Rightarrow> int \<Rightarrow> 32 word \<Rightarrow> epoll_reactor \<Rightarrow> world \<Rightarrow> unit result \<times> world" where
  "reactor_modify K n events r w = reactor_ctl K EPOLL_CTL_MOD n events True r w"

definition reactor_remove ::
    "kernel \<Rightarrow> int \<Rightarrow> epoll_reactor \<Rightarrow> world \<Rightarrow> unit result \<times> world" where
  "reactor_remove K n r w = reactor_ctl K EPOLL_CTL_DEL n 0 False r w"

abbreviation (input) kMaxCachedEventBatch :: nat where "kMaxCachedEventBatch \<equiv> 1024"

definition event_buffer :: "nat \<Rightarrow> nat \<Rightarrow> nat \<times> nat" where
  "event_buffer cached n =
     (if n \<le> kMaxCachedEventBatch
      then let cached' = (if cached < n then n else cached) in (cached', cached')
      else (n, cached))"

definition epoll_timeout :: "ms \<Rightarrow> int" where
  "epoll_timeout timeout = (if 0 \<le> timeout then min timeout int_max else -1)"

definition reactor_wait ::
    "kernel \<Rightarrow> nat \<Rightarrow> ms \<Rightarrow> epoll_reactor \<Rightarrow> world \<Rightarrow> ready_event list result \<times> world" where
  "reactor_wait K n timeout r w =
     (if \<not> reactor_valid r then (errno_error EBADF, w)
      else if n = 0 then (errno_error EINVAL, w)
      else
        let (capacity, cached') = event_buffer (cached_events w) n;
            (a, w1) = sys K (Epoll_wait (fd_get (epoll_fd r)) n (epoll_timeout timeout))
                        (w\<lparr>cached_events := cached'\<rparr>)
        in if a_ret a < 0
           then if errno w1 = EINTR then (Inr [], w1) else (Inl (from_errno w1), w1)
           else (Inr (map (\<lambda>(f, e). \<lparr>ev_fd = f, ev_events = e\<rparr>)
                   (take (nat (a_ret a)) (a_events a))), w1))"

definition has_event :: "32 word \<Rightarrow> 32 word \<Rightarrow> bool" where
  "has_event event_mask flag = (event_mask AND flag \<noteq> 0)"

subsection \<open>Documented behaviour of \<^verbatim>\<open>epoll_wait\<close>\<close>

text \<open>It stores as many events as it reports, and no more than it was asked for.\<close>

definition epoll_wait_bounded :: "kernel \<Rightarrow> bool" where
  "epoll_wait_bounded K = (\<forall>tr e n t.
     length (a_events (K tr (Epoll_wait e n t))) = nat (a_ret (K tr (Epoll_wait e n t))) \<and>
     a_ret (K tr (Epoll_wait e n t)) \<le> int n)"

subsection \<open>Facts\<close>

lemma event_buffer_capacity: "n \<le> fst (event_buffer cached n)"
  by (simp add: event_buffer_def Let_def)

lemma epoll_timeout_range: "-1 \<le> epoll_timeout t \<and> epoll_timeout t \<le> int_max"
  by (simp add: epoll_timeout_def)

lemma reactor_ctl_extends [simp, intro]: "extends w (snd (reactor_ctl K op n ev h r w))"
  by (simp add: reactor_ctl_def Let_def split_def)

lemma reactor_ops_extends [simp, intro]:
  "extends w (snd (reactor_add K n ev r w))"
  "extends w (snd (reactor_modify K n ev r w))"
  "extends w (snd (reactor_remove K n r w))"
  by (simp_all add: reactor_add_def reactor_modify_def reactor_remove_def)

lemma reactor_wait_extends [simp, intro]: "extends w (snd (reactor_wait K n t r w))"
  by (simp add: reactor_wait_def Let_def split_def extends_def)

text \<open>
  Waiting never writes past the caller's span: with a kernel that stores no more events than
  it was asked for, the number of events returned is at most the size of the span, and the
  buffer handed to the kernel has room for that many.
\<close>

theorem reactor_wait_bounds:
  assumes "epoll_wait_bounded K"
    and "reactor_wait K n timeout r w = (Inr evs, w')"
  shows "length evs \<le> n \<and> n \<le> fst (event_buffer (cached_events w) n) \<and> 0 < n"
  using assms
  by (auto simp: reactor_wait_def epoll_wait_bounded_def Let_def split_def event_buffer_capacity nat_le_iff
      split: if_splits)

theorem reactor_wait_bounds_witness:
  "let K = (\<lambda>_ _. ok_answer\<lparr>a_ret := 1, a_events := [(5, 1)]\<rparr>);
       r = \<lparr>epoll_fd = make_fd 3\<rparr>
   in \<exists>evs w'. reactor_wait (\<lambda>tr c. case c of Epoll_wait _ (Suc _) _ \<Rightarrow> K tr c | _ \<Rightarrow> ok_answer)
         2 10 r init_world = (Inr evs, w') \<and> length evs \<le> 2"
proof -
  let ?K = "\<lambda>tr c. case c of Epoll_wait _ (Suc _) _ \<Rightarrow> ok_answer\<lparr>a_ret := 1, a_events := [(5, 1)]\<rparr>
      | _ \<Rightarrow> ok_answer" and ?r = "\<lparr>epoll_fd = make_fd 3\<rparr>"
  have b: "epoll_wait_bounded ?K"
    by (simp add: epoll_wait_bounded_def ok_answer_def split: nat.split)
  have e: "reactor_wait ?K 2 10 ?r init_world = (Inr [\<lparr>ev_fd = 5, ev_events = 1\<rparr>],
      snd (reactor_wait ?K 2 10 ?r init_world))"
    by (simp add: reactor_wait_def sys_eq reactor_valid_def event_buffer_def epoll_timeout_def
        ok_answer_def init_world_def split: nat.split)
  from reactor_wait_bounds[OF b e] e show ?thesis by (simp only: Let_def) blast
qed

end
