(* ===== verification/Scheduler.thy ===== *)
theory Scheduler
  imports Core
begin

section \<open>The scheduler interface and its specification\<close>

text \<open>
  \<^verbatim>\<open>runtime/task.hpp\<close> declares the class \<^verbatim>\<open>scheduler\<close> with five virtual functions; the two event
  loops implement it and the coroutine operations call it. Here are
  \<^item> the class as a record of functions over the implementation's state \<open>'s\<close> (the loop and the
    world), so that an object is a record value, as a C++ object carries its virtual table;
  \<^item> an abstract specification, \<open>sched_spec\<close>: the registrations by descriptor and direction, the
    coroutines ready to run, the results waiting for them, the number of active root tasks; and
    the steps an implementation may make on it;
  \<^item> the locale \<open>scheduler_impl\<close>, the contract between an implementation and its callers, stated
    against the specification, with what callers rely on proved once inside it. The theories of
    the two loops interpret it.
\<close>

subsection \<open>The interface\<close>

record 's scheduler =
  schedule_fn :: "co_handle \<Rightarrow> 's \<Rightarrow> 's"
  on_task_completed_fn :: "'s \<Rightarrow> 's"
  wait_for_readable_fn :: "int \<Rightarrow> co_handle \<Rightarrow> ms option \<Rightarrow> error \<Rightarrow> 's \<Rightarrow> unit result \<times> 's"
  wait_for_writable_fn :: "int \<Rightarrow> co_handle \<Rightarrow> ms option \<Rightarrow> error \<Rightarrow> 's \<Rightarrow> unit result \<times> 's"
  consume_wait_result_fn :: "co_handle \<Rightarrow> 's \<Rightarrow> unit result \<times> 's"

definition wait_for_fn ::
    "'s scheduler \<Rightarrow> bool \<Rightarrow> int \<Rightarrow> co_handle \<Rightarrow> ms option \<Rightarrow> error \<Rightarrow> 's \<Rightarrow> unit result \<times> 's" where
  "wait_for_fn v rd = (if rd then wait_for_readable_fn v else wait_for_writable_fn v)"

subsection \<open>Coroutines\<close>

text \<open>
  Suspended coroutines are code the library does not contain; \<^verbatim>\<open>handle.resume()\<close>, \<^verbatim>\<open>handle.done()\<close>
  and \<^verbatim>\<open>handle.destroy()\<close> are parameters, collected in a record over a type \<open>'c\<close> of coroutine
  states; resuming one runs it to its next suspension and may change the loop \<open>'l\<close> and the world.
\<close>

record ('c, 'l) coro_env =
  co_done :: "'c \<Rightarrow> co_handle \<Rightarrow> bool"
  co_resume :: "co_handle \<Rightarrow> 'c \<Rightarrow> 'l \<Rightarrow> world \<Rightarrow> 'c \<times> 'l \<times> world"
  co_destroy :: "co_handle \<Rightarrow> 'c \<Rightarrow> 'c"

text \<open>The erase loop of both event loops' \<^verbatim>\<open>cleanup_completed_roots\<close>.\<close>

fun cleanup_roots :: "('c, 'l) coro_env \<Rightarrow> co_handle list \<Rightarrow> 'c \<Rightarrow> co_handle list \<times> 'c" where
  "cleanup_roots E [] c = ([], c)"
| "cleanup_roots E (h # hs) c =
     (if co_done E c h then cleanup_roots E hs (co_destroy E h c)
      else let (hs1, c1) = cleanup_roots E hs c in (h # hs1, c1))"

subsection \<open>The abstract scheduler\<close>

text \<open>
  A registration is the waiting coroutine, its deadline and the error it gets when the deadline
  passes.
\<close>

type_synonym reg_view = "co_handle \<times> time option \<times> error"

record sched_spec =
  sp_regs :: "int \<Rightarrow> bool \<Rightarrow> reg_view option"
  sp_ready :: "co_handle list"
  sp_results :: "co_handle \<rightharpoonup> unit result"
  sp_active :: nat

definition sp_register :: "int \<Rightarrow> bool \<Rightarrow> reg_view option \<Rightarrow> sched_spec \<Rightarrow> sched_spec" where
  "sp_register n rd r a = a\<lparr>sp_regs := (sp_regs a)(n := (sp_regs a n)(rd := r))\<rparr>"

definition sp_schedule :: "co_handle \<Rightarrow> sched_spec \<Rightarrow> sched_spec" where
  "sp_schedule h a = (if h = null_handle then a else a\<lparr>sp_ready := sp_ready a @ [h]\<rparr>)"

definition sp_complete :: "sched_spec \<Rightarrow> sched_spec" where
  "sp_complete a = a\<lparr>sp_active := sp_active a - 1\<rparr>"

definition sp_post :: "co_handle \<Rightarrow> unit result \<Rightarrow> sched_spec \<Rightarrow> sched_spec" where
  "sp_post h r a = sp_schedule h (a\<lparr>sp_results := (sp_results a)(h \<mapsto> r)\<rparr>)"

definition sp_consume :: "co_handle \<Rightarrow> sched_spec \<Rightarrow> unit result \<times> sched_spec" where
  "sp_consume h a =
     (if h = null_handle then (errno_error EINVAL, a)
      else (case sp_results a h of None \<Rightarrow> Inr () | Some r \<Rightarrow> r,
            a\<lparr>sp_results := (sp_results a)(h := None)\<rparr>))"

text \<open>
  The one way a registration ends: its coroutine gets exactly one result and is made ready
  exactly once. \<open>Timed_out\<close> posts the registration's own error, and only a registration with a
  deadline at most \<open>now\<close> can time out; \<open>Became_ready\<close> posts success; \<open>Poll_failed\<close> posts an error of
  the backend.
\<close>

datatype delivery = Timed_out time | Became_ready | Poll_failed error

fun delivery_result :: "delivery \<Rightarrow> reg_view \<Rightarrow> unit result" where
  "delivery_result (Timed_out now) (h, dl, terr) = Inl terr"
| "delivery_result Became_ready v = Inr ()"
| "delivery_result (Poll_failed e) v = Inl e"

fun delivery_allowed :: "delivery \<Rightarrow> reg_view \<Rightarrow> bool" where
  "delivery_allowed (Timed_out now) (h, dl, terr) = (case dl of None \<Rightarrow> False | Some d \<Rightarrow> d \<le> now)"
| "delivery_allowed _ v = True"

inductive deliver :: "delivery \<Rightarrow> sched_spec \<Rightarrow> sched_spec \<Rightarrow> bool" where
  deliver: "sp_regs a n rd = Some v \<Longrightarrow> delivery_allowed k v \<Longrightarrow>
     deliver k a (sp_post (fst v) (delivery_result k v) (sp_register n rd None a))"

text \<open>Any number of deliveries of one kind.\<close>

abbreviation deliveries :: "delivery \<Rightarrow> sched_spec \<Rightarrow> sched_spec \<Rightarrow> bool" where
  "deliveries k \<equiv> (deliver k)\<^sup>*\<^sup>*"

subsection \<open>Facts about the specification\<close>

lemma sp_register_simps [simp]:
  "sp_regs (sp_register n rd r a) = (sp_regs a)(n := (sp_regs a n)(rd := r))"
  "sp_ready (sp_register n rd r a) = sp_ready a" "sp_results (sp_register n rd r a) = sp_results a"
  "sp_active (sp_register n rd r a) = sp_active a"
  by (simp_all add: sp_register_def)

lemma sp_post_simps [simp]:
  "sp_regs (sp_post h r a) = sp_regs a" "sp_active (sp_post h r a) = sp_active a"
  "sp_results (sp_post h r a) = (sp_results a)(h \<mapsto> r)"
  "sp_ready (sp_post h r a) = sp_ready a @ (if h = 0 then [] else [h])"
  by (simp_all add: sp_post_def sp_schedule_def)

text \<open>A registration that no delivery ended is unchanged, and ready coroutines stay ready.\<close>

lemma deliver_frame:
  assumes "deliver k a b"
  shows "(sp_regs b n rd = sp_regs a n rd \<or> sp_regs b n rd = None) \<and> sp_active b = sp_active a
    \<and> (\<exists>hs. sp_ready b = sp_ready a @ hs)"
  using assms by (auto elim!: deliver.cases split: if_splits)

lemma deliveries_frame:
  assumes "deliveries k a b"
  shows "(sp_regs b n rd = sp_regs a n rd \<or> sp_regs b n rd = None) \<and> sp_active b = sp_active a
    \<and> (\<exists>hs. sp_ready b = sp_ready a @ hs)"
  using assms
proof induction
  case base
  then show ?case by simp
next
  case (step b c)
  then show ?case using deliver_frame[OF step.hyps(2), of n rd] by auto
qed

subsection \<open>The contract\<close>

text \<open>
  \<open>abs\<close> is the abstraction function of an implementation, \<open>inv\<close> its invariant, \<open>usable\<close> says that its
  construction succeeded, and \<open>deadline_of\<close> is the deadline the implementation computes for a timeout
  in a state.
\<close>

locale scheduler_impl =
  fixes v :: "'s scheduler"
    and abs :: "'s \<Rightarrow> sched_spec"
    and inv :: "'s \<Rightarrow> bool"
    and usable :: "'s \<Rightarrow> bool"
    and deadline_of :: "'s \<Rightarrow> ms option \<Rightarrow> time option"
  assumes abs_schedule: "abs (schedule_fn v h s) = sp_schedule h (abs s)"
    and abs_complete: "abs (on_task_completed_fn v s) = sp_complete (abs s)"
    and abs_consume: "consume_wait_result_fn v h s = (r, s') \<Longrightarrow> (r, abs s') = sp_consume h (abs s)"
    and wait_bad: "usable s \<Longrightarrow> n < 0 \<or> h = 0 \<Longrightarrow>
      wait_for_fn v rd n h timeout terr s = (errno_error EBADF, s)"
    and wait_elapsed: "usable s \<Longrightarrow> 0 \<le> n \<Longrightarrow> h \<noteq> 0 \<Longrightarrow> t \<le> 0 \<Longrightarrow>
      wait_for_fn v rd n h (Some t) terr s = (r, s') \<Longrightarrow>
      r = Inr () \<and> abs s' = sp_post h (Inl terr) (abs s)"
    and wait_busy: "usable s \<Longrightarrow> inv s \<Longrightarrow> 0 \<le> n \<Longrightarrow> h \<noteq> 0 \<Longrightarrow>
      (\<forall>t. timeout = Some t \<longrightarrow> 0 < t) \<Longrightarrow> sp_regs (abs s) n rd \<noteq> None \<Longrightarrow>
      wait_for_fn v rd n h timeout terr s = (r, s') \<Longrightarrow> r = errno_error EBUSY \<and> abs s' = abs s"
    and wait_free: "usable s \<Longrightarrow> inv s \<Longrightarrow> 0 \<le> n \<Longrightarrow> n \<le> int_max \<Longrightarrow> h \<noteq> 0 \<Longrightarrow>
      (\<forall>t. timeout = Some t \<longrightarrow> 0 < t) \<Longrightarrow> sp_regs (abs s) n rd = None \<Longrightarrow>
      wait_for_fn v rd n h timeout terr s = (r, s') \<Longrightarrow>
      (case r of Inl e \<Rightarrow> abs s' = abs s
       | Inr _ \<Rightarrow> abs s' = sp_register n rd (Some (h, deadline_of s timeout, terr)) (abs s))"
    and inv_schedule: "inv s \<Longrightarrow> inv (schedule_fn v h s)"
    and inv_complete: "inv s \<Longrightarrow> inv (on_task_completed_fn v s)"
    and inv_consume: "inv s \<Longrightarrow> consume_wait_result_fn v h s = (r, s') \<Longrightarrow> inv s'"
    and inv_wait: "inv s \<Longrightarrow> n \<le> int_max \<Longrightarrow> wait_for_fn v rd n h timeout terr s = (r, s') \<Longrightarrow> inv s'"
begin

text \<open>A failed wait changes nothing a caller can see.\<close>

lemma wait_error_abs:
  assumes "usable s" "inv s" "wait_for_fn v rd n h timeout terr s = (Inl e, s')" "n \<le> int_max"
  shows "abs s' = abs s"
proof (cases "n < 0 \<or> h = 0")
  case True
  with wait_bad[OF assms(1) True, of rd timeout terr] assms(3) show ?thesis by simp
next
  case False
  then have nh: "0 \<le> n" "h \<noteq> 0" by auto
  show ?thesis
  proof (cases "\<exists>t. timeout = Some t \<and> t \<le> 0")
    case True
    then obtain t where t: "timeout = Some t" "t \<le> 0" by blast
    with wait_elapsed[OF assms(1) nh t(2), of rd terr "Inl e" s'] assms(3) show ?thesis by simp
  next
    case later: False
    then have pos: "\<forall>t. timeout = Some t \<longrightarrow> 0 < t" by (auto simp: not_le)
    show ?thesis
    proof (cases "sp_regs (abs s) n rd")
      case None
      with wait_free[OF assms(1,2) nh(1) assms(4) nh(2) pos None assms(3)] show ?thesis by simp
    next
      case (Some x)
      with wait_busy[OF assms(1,2) nh pos _ assms(3)] show ?thesis by simp
    qed
  qed
qed

text \<open>A wait whose timeout has already elapsed suspends and then reports the timeout error.\<close>

lemma elapsed_then_consume:
  assumes "usable s" "0 \<le> n" "h \<noteq> 0" "t \<le> 0"
    and "wait_for_fn v rd n h (Some t) terr s = (r, s')"
    and "consume_wait_result_fn v h s' = (r', s'')"
  shows "r = Inr () \<and> h \<in> set (sp_ready (abs s')) \<and> r' = Inl terr \<and> sp_results (abs s'') h = None"
  using wait_elapsed[OF assms(1-5)] abs_consume[OF assms(6)] assms(3)
  by (auto simp: sp_consume_def)

text \<open>
  Two coroutines cannot wait on one direction of one descriptor: the second is refused, and
  the first keeps its place.
\<close>

lemma second_wait_refused:
  assumes s: "usable s" "inv s" "0 \<le> n" "n \<le> int_max" "h1 \<noteq> 0" "h2 \<noteq> 0" "sp_regs (abs s) n rd = None"
    and t1: "\<forall>t. timeout1 = Some t \<longrightarrow> 0 < t" and t2: "\<forall>t. timeout2 = Some t \<longrightarrow> 0 < t"
    and w1: "wait_for_fn v rd n h1 timeout1 terr1 s = (Inr (), s1)" and u1: "usable s1"
    and w2: "wait_for_fn v rd n h2 timeout2 terr2 s1 = (r2, s2)"
  shows "r2 = errno_error EBUSY \<and> sp_regs (abs s2) n rd = Some (h1, deadline_of s timeout1, terr1)"
proof -
  have "abs s1 = sp_register n rd (Some (h1, deadline_of s timeout1, terr1)) (abs s)"
    using wait_free[OF s(1-5) t1 s(7) w1] by simp
  moreover from this have "sp_regs (abs s1) n rd \<noteq> None" by simp
  ultimately show ?thesis
    using wait_busy[OF u1 inv_wait[OF s(2,4) w1] s(3,6) t2 _ w2] by simp
qed

end

end
