(* ===== verification/Event_Loop.thy ===== *)
theory Event_Loop
  imports Epoll_Reactor Scheduler
begin

section \<open>The epoll event loop\<close>

text \<open>
  \<^verbatim>\<open>runtime/event_loop\<close>: the scheduler backed by the epoll reactor. The map \<^verbatim>\<open>waiters_\<close> is an
  association list, because \<^verbatim>\<open>process_expired_waiters\<close> iterates over it in an order the standard
  leaves open; everything proved holds for every order. \<^verbatim>\<open>wait_results_\<close> is a map. The counters
  are of type \<^verbatim>\<open>size_t\<close>; a lemma below bounds them, so they are natural numbers here.

  The coroutines the loop resumes are the parameter \<open>coro_env\<close> of the theory \<open>Scheduler\<close>.
\<close>

subsection \<open>State\<close>

record wait_registration =
  handle :: co_handle
  deadline :: "time option"
  timeout_error :: error

definition no_registration :: wait_registration where
  "no_registration = \<lparr>handle = null_handle, deadline = None,
     timeout_error = make_error_from_errno ETIMEDOUT\<rparr>"

record waiter_slot =
  readable :: wait_registration
  writable :: wait_registration
  registered_mask :: "32 word"

definition new_slot :: waiter_slot where
  "new_slot = \<lparr>readable = no_registration, writable = no_registration, registered_mask = 0\<rparr>"

record event_loop =
  reactor :: epoll_reactor
  init_error :: "error option"
  loop_error :: "error option"
  ready_queue :: "co_handle list"
  waiters :: "(int \<times> waiter_slot) list"
  wait_results :: "co_handle \<rightharpoonup> unit result"
  root_tasks :: "co_handle list"
  pending_waiter_count :: nat
  timed_waiter_count :: nat
  active_task_count :: nat
  next_deadline :: "time option"
  deadline_index_dirty :: bool
  stop_requested :: bool
  wake_fd :: unique_fd

definition fresh_loop :: event_loop where
  "fresh_loop = \<lparr>reactor = empty_reactor, init_error = None, loop_error = None, ready_queue = [],
     waiters = [], wait_results = Map.empty, root_tasks = [], pending_waiter_count = 0,
     timed_waiter_count = 0, active_task_count = 0, next_deadline = None,
     deadline_index_dirty = False, stop_requested = False, wake_fd = empty_fd\<rparr>"

abbreviation (input) kReadReadyMask :: "32 word" where
  "kReadReadyMask \<equiv> EPOLLIN OR EPOLLERR OR EPOLLHUP OR EPOLLRDHUP"
abbreviation (input) kWriteReadyMask :: "32 word" where
  "kWriteReadyMask \<equiv> EPOLLOUT OR EPOLLERR OR EPOLLHUP"
abbreviation (input) kCommonFlags :: "32 word" where
  "kCommonFlags \<equiv> EPOLLET OR EPOLLERR OR EPOLLHUP OR EPOLLRDHUP"

text \<open>The \<^verbatim>\<open>readable\<close> or the \<^verbatim>\<open>writable\<close> registration of a slot, and its assignment.\<close>

definition slot_reg :: "bool \<Rightarrow> waiter_slot \<Rightarrow> wait_registration" where
  "slot_reg rd s = (if rd then readable s else writable s)"

definition set_slot_reg :: "bool \<Rightarrow> wait_registration \<Rightarrow> waiter_slot \<Rightarrow> waiter_slot" where
  "set_slot_reg rd r s = (if rd then s\<lparr>readable := r\<rparr> else s\<lparr>writable := r\<rparr>)"

definition slot_idle :: "waiter_slot \<Rightarrow> bool" where
  "slot_idle s = (handle (readable s) = null_handle \<and> handle (writable s) = null_handle)"

subsection \<open>Construction, scheduling\<close>

definition loop_valid :: "event_loop \<Rightarrow> bool" where
  "loop_valid el = (init_error el = None \<and> reactor_valid (reactor el))"

definition init_failure :: "event_loop \<Rightarrow> error" where
  "init_failure el = (case init_error el of Some e \<Rightarrow> e | None \<Rightarrow> make_error_from_errno EINVAL)"

definition event_loop_construct :: "kernel \<Rightarrow> world \<Rightarrow> event_loop \<times> world" where
  "event_loop_construct K w =
     (case reactor_create K w of
        (Inl e, w1) \<Rightarrow> (fresh_loop\<lparr>init_error := Some e\<rparr>, w1)
      | (Inr r, w1) \<Rightarrow>
          let el1 = fresh_loop\<lparr>reactor := r\<rparr>; (a, w2) = sys K Eventfd w1
          in if a_ret a < 0 then (el1\<lparr>init_error := Some (from_errno w2)\<rparr>, w2)
             else
               let el2 = el1\<lparr>wake_fd := make_fd (a_ret a)\<rparr>;
                   (res, w3) = reactor_add K (fd_get (wake_fd el2)) EPOLLIN (reactor el2) w2
               in (case res of Inl e \<Rightarrow> (el2\<lparr>init_error := Some e\<rparr>, w3) | Inr _ \<Rightarrow> (el2, w3)))"

definition schedule :: "co_handle \<Rightarrow> event_loop \<Rightarrow> event_loop" where
  "schedule h el = (if h = null_handle then el else el\<lparr>ready_queue := ready_queue el @ [h]\<rparr>)"

definition on_task_completed :: "event_loop \<Rightarrow> event_loop" where
  "on_task_completed el =
     (if 0 < active_task_count el then el\<lparr>active_task_count := active_task_count el - 1\<rparr> else el)"

text \<open>
  \<^verbatim>\<open>spawn\<close>: the handle comes from \<^verbatim>\<open>task::release\<close>; \<^verbatim>\<open>set_scheduler\<close> writes the coroutine's promise,
  which is part of the coroutine state.
\<close>

definition spawn :: "co_handle \<Rightarrow> event_loop \<Rightarrow> event_loop" where
  "spawn h el =
     (if h = null_handle then el
      else schedule h (el\<lparr>active_task_count := active_task_count el + 1,
                          root_tasks := root_tasks el @ [h]\<rparr>))"

text \<open>
  The wake-up write of \<^verbatim>\<open>stop\<close>: retried while it is interrupted. The loop may run forever only
  if the kernel interrupts it forever, so it takes fuel; \<open>None\<close> is \<open>still retrying\<close>.
\<close>

fun write_wakeup :: "nat \<Rightarrow> kernel \<Rightarrow> int \<Rightarrow> world \<Rightarrow> world option" where
  "write_wakeup 0 K n w = None"
| "write_wakeup (Suc k) K n w =
     (let (a, w1) = sys K (Write_u64 n 1) w
      in if a_ret a < 0
         then if errno w1 = EINTR then write_wakeup k K n w1 else Some w1
         else Some w1)"

definition stop :: "nat \<Rightarrow> kernel \<Rightarrow> event_loop \<Rightarrow> world \<Rightarrow> (event_loop \<times> world) option" where
  "stop fuel K el w =
     (let el1 = el\<lparr>stop_requested := True\<rparr>
      in if \<not> fd_valid (wake_fd el1) then Some (el1, w)
         else map_option (\<lambda>w1. (el1, w1)) (write_wakeup fuel K (fd_get (wake_fd el1)) w))"

definition consume_wait_result :: "co_handle \<Rightarrow> event_loop \<Rightarrow> unit result \<times> event_loop" where
  "consume_wait_result h el =
     (if h = null_handle then (errno_error EINVAL, el)
      else case wait_results el h of
          None \<Rightarrow> (Inr (), el)
        | Some status \<Rightarrow> (status, el\<lparr>wait_results := (wait_results el)(h := None)\<rparr>))"

subsection \<open>Interest masks\<close>

definition desired_mask :: "waiter_slot \<Rightarrow> 32 word" where
  "desired_mask s =
     (let has_read_waiter = handle (readable s) \<noteq> null_handle;
          has_write_waiter = handle (writable s) \<noteq> null_handle
      in if has_read_waiter \<or> has_write_waiter
         then kCommonFlags OR (if has_read_waiter then EPOLLIN else 0)
                OR (if has_write_waiter then EPOLLOUT else 0)
         else 0)"

definition refresh_interest ::
    "kernel \<Rightarrow> epoll_reactor \<Rightarrow> int \<Rightarrow> waiter_slot \<Rightarrow> world \<Rightarrow> unit result \<times> waiter_slot \<times> world" where
  "refresh_interest K r n s w =
     (let d = desired_mask s
      in if registered_mask s = d then (Inr (), s, w)
         else if registered_mask s = 0 \<and> d \<noteq> 0 then
           (case reactor_add K n d r w of
              (Inl e, w1) \<Rightarrow> (Inl e, s, w1)
            | (Inr _, w1) \<Rightarrow> (Inr (), s\<lparr>registered_mask := d\<rparr>, w1))
         else if registered_mask s \<noteq> 0 \<and> d = 0 then
           (case reactor_remove K n r w of
              (Inl e, w1) \<Rightarrow> (Inl e, s, w1)
            | (Inr _, w1) \<Rightarrow> (Inr (), s\<lparr>registered_mask := 0\<rparr>, w1))
         else
           (case reactor_modify K n d r w of
              (Inl e, w1) \<Rightarrow> (Inl e, s, w1)
            | (Inr _, w1) \<Rightarrow> (Inr (), s\<lparr>registered_mask := d\<rparr>, w1)))"

subsection \<open>Arming a waiter\<close>

text \<open>The registration and the counters as written before \<^verbatim>\<open>refresh_interest\<close> is called.\<close>

definition arm_register ::
    "kernel \<Rightarrow> int \<Rightarrow> co_handle \<Rightarrow> bool \<Rightarrow> ms option \<Rightarrow> error \<Rightarrow> waiter_slot \<Rightarrow> event_loop \<Rightarrow> world
       \<Rightarrow> waiter_slot \<times> event_loop \<times> world" where
  "arm_register K n h rd timeout terr slot el w =
     (case timeout of
        Some t \<Rightarrow>
          let (now, w1) = clock_now K w; d = now + t * ns_per_ms
          in (set_slot_reg rd \<lparr>handle = h, deadline = Some d, timeout_error = terr\<rparr> slot,
              el\<lparr>timed_waiter_count := timed_waiter_count el + 1,
                 next_deadline := (case next_deadline el of
                     None \<Rightarrow> Some d | Some nd \<Rightarrow> if d < nd then Some d else Some nd),
                 deadline_index_dirty := True,
                 pending_waiter_count := pending_waiter_count el + 1\<rparr>, w1)
      | None \<Rightarrow>
          (set_slot_reg rd \<lparr>handle = h, deadline = None, timeout_error = terr\<rparr> slot,
           el\<lparr>deadline_index_dirty := True,
              pending_waiter_count := pending_waiter_count el + 1\<rparr>, w))"

text \<open>The undoing after a failed \<^verbatim>\<open>refresh_interest\<close>.\<close>

definition arm_rollback :: "int \<Rightarrow> bool \<Rightarrow> waiter_slot \<Rightarrow> event_loop \<Rightarrow> event_loop" where
  "arm_rollback n rd slot el =
     (let el1 = (if deadline (slot_reg rd slot) \<noteq> None \<and> 0 < timed_waiter_count el
                 then el\<lparr>timed_waiter_count := timed_waiter_count el - 1\<rparr> else el);
          slot1 = set_slot_reg rd no_registration slot;
          el2 = el1\<lparr>waiters := AList.update n slot1 (waiters el1), deadline_index_dirty := True\<rparr>;
          el3 = (if 0 < pending_waiter_count el2
                 then el2\<lparr>pending_waiter_count := pending_waiter_count el2 - 1\<rparr> else el2)
      in if slot_idle slot1 then el3\<lparr>waiters := AList.delete n (waiters el3)\<rparr> else el3)"

definition arm_waiter ::
    "kernel \<Rightarrow> int \<Rightarrow> co_handle \<Rightarrow> bool \<Rightarrow> ms option \<Rightarrow> error \<Rightarrow> event_loop \<Rightarrow> world
       \<Rightarrow> unit result \<times> event_loop \<times> world" where
  "arm_waiter K n h rd timeout terr el w =
     (if \<not> loop_valid el then (Inl (init_failure el), el, w)
      else if n < 0 \<or> h = null_handle then (errno_error EBADF, el, w)
      else if (case timeout of Some t \<Rightarrow> t \<le> 0 | None \<Rightarrow> False) then
        (Inr (), schedule h (el\<lparr>wait_results := (wait_results el)(h \<mapsto> Inl terr)\<rparr>), w)
      else
        let slot = (case map_of (waiters el) n of Some s \<Rightarrow> s | None \<Rightarrow> new_slot);
            el0 = el\<lparr>waiters := AList.update n slot (waiters el)\<rparr>
        in if handle (slot_reg rd slot) \<noteq> null_handle then (errno_error EBUSY, el0, w)
           else
             let (slot1, el1, w1) = arm_register K n h rd timeout terr slot el0 w
             in (case refresh_interest K (reactor el1) n slot1 w1 of
                   (Inl e, slot2, w2) \<Rightarrow> (Inl e, arm_rollback n rd slot2 el1, w2)
                 | (Inr _, slot2, w2) \<Rightarrow>
                     (Inr (), el1\<lparr>waiters := AList.update n slot2 (waiters el1)\<rparr>, w2)))"

definition wait_for_readable ::
    "kernel \<Rightarrow> int \<Rightarrow> co_handle \<Rightarrow> ms option \<Rightarrow> error \<Rightarrow> event_loop \<Rightarrow> world
       \<Rightarrow> unit result \<times> event_loop \<times> world" where
  "wait_for_readable K n h timeout terr el w = arm_waiter K n h True timeout terr el w"

definition wait_for_writable ::
    "kernel \<Rightarrow> int \<Rightarrow> co_handle \<Rightarrow> ms option \<Rightarrow> error \<Rightarrow> event_loop \<Rightarrow> world
       \<Rightarrow> unit result \<times> event_loop \<times> world" where
  "wait_for_writable K n h timeout terr el w = arm_waiter K n h False timeout terr el w"

subsection \<open>Expiry\<close>

text \<open>The body that the source repeats for the two registrations of a slot.\<close>

definition expired :: "time \<Rightarrow> 'a wait_registration_scheme \<Rightarrow> bool" where
  "expired now r = (handle r \<noteq> null_handle \<and>
     (case deadline r of None \<Rightarrow> False | Some d \<Rightarrow> d \<le> now))"

definition expire_registration ::
    "time \<Rightarrow> bool \<Rightarrow> waiter_slot \<Rightarrow> event_loop \<Rightarrow> bool \<times> waiter_slot \<times> event_loop" where
  "expire_registration now rd slot el =
     (let r = slot_reg rd slot
      in if expired now r then
           let el1 = schedule (handle r)
                 (el\<lparr>wait_results := (wait_results el)(handle r \<mapsto> Inl (timeout_error r))\<rparr>);
               el2 = (if 0 < timed_waiter_count el1
                      then el1\<lparr>timed_waiter_count := timed_waiter_count el1 - 1\<rparr> else el1);
               el3 = (if 0 < pending_waiter_count el2
                      then el2\<lparr>pending_waiter_count := pending_waiter_count el2 - 1\<rparr> else el2)
           in (True, set_slot_reg rd no_registration slot, el3)
         else (False, slot, el))"

definition reg_deadline :: "'a wait_registration_scheme \<Rightarrow> time option" where
  "reg_deadline r = (if handle r \<noteq> null_handle then deadline r else None)"

text \<open>
  The iteration over \<^verbatim>\<open>waiters_\<close>: \<open>kept\<close> are the entries already passed, \<open>nd\<close> the earliest deadline
  seen; the first component tells whether the iteration reached the end.
\<close>

fun expire_scan ::
    "kernel \<Rightarrow> time \<Rightarrow> (int \<times> waiter_slot) list \<Rightarrow> (int \<times> waiter_slot) list \<Rightarrow> time option
       \<Rightarrow> event_loop \<Rightarrow> world \<Rightarrow> bool \<times> time option \<times> event_loop \<times> world" where
  "expire_scan K now [] kept nd el w = (True, nd, el\<lparr>waiters := kept\<rparr>, w)"
| "expire_scan K now ((n, slot) # rest) kept nd el w =
     (let (ch1, slot1, el1) = expire_registration now True slot el;
          (ch2, slot2, el2) = expire_registration now False slot1 el1;
          (res, slot3, w1) = (if ch1 \<or> ch2 then refresh_interest K (reactor el2) n slot2 w
                              else (Inr (), slot2, w))
      in case res of
           Inl e \<Rightarrow> (False, nd, el2\<lparr>loop_error := Some e, stop_requested := True,
                              waiters := kept @ (n, slot3) # rest\<rparr>, w1)
         | Inr _ \<Rightarrow>
             if slot_idle slot3 then expire_scan K now rest kept nd el2 w1
             else expire_scan K now rest (kept @ [(n, slot3)])
                    (min_opt (min_opt nd (reg_deadline (readable slot3)))
                       (reg_deadline (writable slot3))) el2 w1)"

definition process_expired_waiters :: "kernel \<Rightarrow> event_loop \<Rightarrow> world \<Rightarrow> event_loop \<times> world" where
  "process_expired_waiters K el w =
     (if timed_waiter_count el = 0
      then (el\<lparr>next_deadline := None, deadline_index_dirty := False\<rparr>, w)
      else
        let (now, w1) = clock_now K w
        in if \<not> deadline_index_dirty el
              \<and> (case next_deadline el of None \<Rightarrow> False | Some nd \<Rightarrow> now < nd)
           then (el, w1)
           else
             (case expire_scan K now (waiters el) [] None el w1 of
                (False, _, el1, w2) \<Rightarrow> (el1, w2)
              | (True, nd, el1, w2) \<Rightarrow>
                  (el1\<lparr>next_deadline := nd, deadline_index_dirty := False\<rparr>, w2)))"

subsection \<open>Readiness\<close>

text \<open>The wake-up read is retried while interrupted; \<open>None\<close> is \<open>still retrying\<close>.\<close>

fun read_wakeup :: "nat \<Rightarrow> kernel \<Rightarrow> int \<Rightarrow> world \<Rightarrow> world option" where
  "read_wakeup 0 K n w = None"
| "read_wakeup (Suc k) K n w =
     (let (a, w1) = sys K (Read_u64 n) w
      in if a_ret a < 0 \<and> errno w1 = EINTR then read_wakeup k K n w1 else Some w1)"

definition consume_wakeup :: "nat \<Rightarrow> kernel \<Rightarrow> event_loop \<Rightarrow> world \<Rightarrow> world option" where
  "consume_wakeup fuel K el w =
     (if \<not> fd_valid (wake_fd el) then Some w else read_wakeup fuel K (fd_get (wake_fd el)) w)"

definition fire_registration ::
    "bool \<Rightarrow> 32 word \<Rightarrow> waiter_slot \<Rightarrow> event_loop \<Rightarrow> waiter_slot \<times> event_loop" where
  "fire_registration rd evs slot el =
     (let r = slot_reg rd slot
      in if handle r \<noteq> null_handle
            \<and> has_event evs (if rd then kReadReadyMask else kWriteReadyMask) then
           let el1 = schedule (handle r)
                 (el\<lparr>wait_results := (wait_results el)(handle r \<mapsto> Inr ())\<rparr>);
               el2 = (if deadline r \<noteq> None \<and> 0 < timed_waiter_count el1
                      then el1\<lparr>timed_waiter_count := timed_waiter_count el1 - 1,
                               deadline_index_dirty := True\<rparr> else el1);
               el3 = (if 0 < pending_waiter_count el2
                      then el2\<lparr>pending_waiter_count := pending_waiter_count el2 - 1\<rparr> else el2)
           in (set_slot_reg rd no_registration slot, el3)
         else (slot, el))"

definition process_waiter_event :: "kernel \<Rightarrow> ready_event \<Rightarrow> event_loop \<Rightarrow> world \<Rightarrow> event_loop \<times> world" where
  "process_waiter_event K ev el w =
     (case map_of (waiters el) (ev_fd ev) of
        None \<Rightarrow> (el, w)
      | Some slot \<Rightarrow>
          let (slot1, el1) = fire_registration True (ev_events ev) slot el;
              (slot2, el2) = fire_registration False (ev_events ev) slot1 el1
          in (case refresh_interest K (reactor el2) (ev_fd ev) slot2 w of
                (Inl e, slot3, w1) \<Rightarrow>
                  (el2\<lparr>loop_error := Some e, stop_requested := True,
                       waiters := AList.update (ev_fd ev) slot3 (waiters el2)\<rparr>, w1)
              | (Inr _, slot3, w1) \<Rightarrow>
                  (el2\<lparr>waiters := (if slot_idle slot3 then AList.delete (ev_fd ev) (waiters el2)
                                  else AList.update (ev_fd ev) slot3 (waiters el2))\<rparr>, w1)))"

definition process_ready_event ::
    "nat \<Rightarrow> kernel \<Rightarrow> ready_event \<Rightarrow> event_loop \<Rightarrow> world \<Rightarrow> (event_loop \<times> world) option" where
  "process_ready_event fuel K ev el w =
     (if fd_valid (wake_fd el) \<and> ev_fd ev = fd_get (wake_fd el)
      then map_option (\<lambda>w1. (el, w1)) (consume_wakeup fuel K el w)
      else Some (process_waiter_event K ev el w))"

fun process_ready_events ::
    "nat \<Rightarrow> kernel \<Rightarrow> ready_event list \<Rightarrow> event_loop \<Rightarrow> world \<Rightarrow> (event_loop \<times> world) option" where
  "process_ready_events fuel K [] el w = Some (el, w)"
| "process_ready_events fuel K (ev # evs) el w =
     (case process_ready_event fuel K ev el w of
        None \<Rightarrow> None
      | Some (el1, w1) \<Rightarrow>
          if loop_error el1 \<noteq> None then Some (el1, w1)
          else process_ready_events fuel K evs el1 w1)"

subsection \<open>Running\<close>

text \<open>
  \<^verbatim>\<open>stop_requested_.load()\<close>: the flag may have been stored by this thread (a coroutine called
  \<^verbatim>\<open>stop\<close>) or by another one since the last load, which the environment answers.
\<close>

definition load_stop :: "kernel \<Rightarrow> event_loop \<Rightarrow> world \<Rightarrow> bool \<times> event_loop \<times> world" where
  "load_stop K el w =
     (let (a, w1) = sys K Atomic_load_stop w;
          el1 = (if a_ret a \<noteq> 0 then el\<lparr>stop_requested := True\<rparr> else el)
      in (stop_requested el1, el1, w1))"

definition wait_timeout :: "kernel \<Rightarrow> event_loop \<Rightarrow> world \<Rightarrow> ms \<times> world" where
  "wait_timeout K el w =
     (case next_deadline el of
        None \<Rightarrow> (-1, w)
      | Some nd \<Rightarrow>
          let (now, w1) = clock_now K w; remaining = nd - now
          in if remaining \<le> 0 then (0, w1)
             else (min (remaining div ns_per_ms) int_max, w1))"

definition cleanup_completed_roots ::
    "('c, event_loop) coro_env \<Rightarrow> 'c \<Rightarrow> event_loop \<Rightarrow> 'c \<times> event_loop" where
  "cleanup_completed_roots E c el =
     (let (hs, c1) = cleanup_roots E (root_tasks el) c in (c1, el\<lparr>root_tasks := hs\<rparr>))"

definition destroy_all_roots ::
    "('c, event_loop) coro_env \<Rightarrow> 'c \<Rightarrow> event_loop \<Rightarrow> 'c \<times> event_loop" where
  "destroy_all_roots E c el =
     (fold (\<lambda>h c1. if h \<noteq> null_handle then co_destroy E h c1 else c1) (root_tasks el) c,
      el\<lparr>root_tasks := []\<rparr>)"

text \<open>The inner loop over the ready queue, and the outer loop; \<open>None\<close> is \<open>out of fuel\<close>.\<close>

fun drain_ready ::
    "nat \<Rightarrow> kernel \<Rightarrow> ('c, event_loop) coro_env \<Rightarrow> 'c \<Rightarrow> event_loop \<Rightarrow> world
       \<Rightarrow> ('c \<times> event_loop \<times> world) option" where
  "drain_ready 0 K E c el w = None"
| "drain_ready (Suc k) K E c el w =
     (case ready_queue el of
        [] \<Rightarrow> Some (c, el, w)
      | h # q \<Rightarrow>
          let el1 = el\<lparr>ready_queue := q\<rparr>
          in if h = null_handle \<or> co_done E c h then drain_ready k K E c el1 w
             else
               let (c2, el2, w2) = co_resume E h c el1 w;
                   (c3, el3) = cleanup_completed_roots E c2 el2;
                   (el4, w4) = process_expired_waiters K el3 w2;
                   (stopped, el5, w5) = load_stop K el4 w4
               in if stopped \<or> loop_error el5 \<noteq> None then Some (c3, el5, w5)
                  else drain_ready k K E c3 el5 w5)"

datatype loop_exit = Loop_break | Loop_return "unit result"

fun run_loop ::
    "nat \<Rightarrow> kernel \<Rightarrow> ('c, event_loop) coro_env \<Rightarrow> 'c \<Rightarrow> event_loop \<Rightarrow> world
       \<Rightarrow> (loop_exit \<times> 'c \<times> event_loop \<times> world) option" where
  "run_loop 0 K E c el w = None"
| "run_loop (Suc k) K E c el w =
     (let (stop0, el0, w0) = load_stop K el w
      in if stop0 then Some (Loop_break, c, el0, w0)
         else
           let (el1, w1) = process_expired_waiters K el0 w0;
               (stop1, el2, w2) = load_stop K el1 w1
           in if stop1 \<or> loop_error el2 \<noteq> None then Some (Loop_break, c, el2, w2)
              else
                (case drain_ready k K E c el2 w2 of
                   None \<Rightarrow> None
                 | Some (c3, el3, w3) \<Rightarrow>
                     let (stop3, el4, w4) = load_stop K el3 w3
                     in if stop3 \<or> loop_error el4 \<noteq> None then Some (Loop_break, c3, el4, w4)
                        else if ready_queue el4 = [] then
                          if active_task_count el4 = 0 \<and> pending_waiter_count el4 = 0
                          then Some (Loop_break, c3, el4, w4)
                          else if pending_waiter_count el4 = 0
                          then Some (Loop_return (errno_error EDEADLK), c3, el4, w4)
                          else
                            let (timeout_ms, w5) = wait_timeout K el4 w4
                            in (case reactor_wait K 64 timeout_ms (reactor el4) w5 of
                                  (Inl e, w6) \<Rightarrow> Some (Loop_return (Inl e), c3, el4, w6)
                                | (Inr evs, w6) \<Rightarrow>
                                    (case process_ready_events k K evs el4 w6 of
                                       None \<Rightarrow> None
                                     | Some (el5, w7) \<Rightarrow> run_loop k K E c3 el5 w7))
                        else run_loop k K E c3 el4 w4))"

definition run ::
    "nat \<Rightarrow> kernel \<Rightarrow> ('c, event_loop) coro_env \<Rightarrow> 'c \<Rightarrow> event_loop \<Rightarrow> world
       \<Rightarrow> (unit result \<times> 'c \<times> event_loop \<times> world) option" where
  "run fuel K E c el w =
     (if \<not> loop_valid el then Some (Inl (init_failure el), c, el, w)
      else
        case run_loop fuel K E c (el\<lparr>stop_requested := False, loop_error := None\<rparr>) w of
          None \<Rightarrow> None
        | Some (Loop_return r, c1, el1, w1) \<Rightarrow> Some (r, c1, el1, w1)
        | Some (Loop_break, c1, el1, w1) \<Rightarrow>
            let (c2, el2) = cleanup_completed_roots E c1 el1
            in (case loop_error el2 of
                  Some e \<Rightarrow> Some (Inl e, c2, el2, w1)
                | None \<Rightarrow> Some (Inr (), c2, el2, w1)))"

subsection \<open>The invariant\<close>

text \<open>
  \<^item> every descriptor has one slot and is non-negative;
  \<^item> \<^verbatim>\<open>pending_waiter_count_\<close> is the number of registrations that hold a coroutine, and
    \<^verbatim>\<open>timed_waiter_count_\<close> the number of those with a deadline;
  \<^item> \<^verbatim>\<open>next_deadline_\<close> is at most every deadline a registration holds, and a registration that
    holds no coroutine is the default one.
\<close>

definition slot_pending :: "waiter_slot \<Rightarrow> nat" where
  "slot_pending s = of_bool (handle (readable s) \<noteq> null_handle)
     + of_bool (handle (writable s) \<noteq> null_handle)"

definition slot_timed :: "waiter_slot \<Rightarrow> nat" where
  "slot_timed s = of_bool (reg_deadline (readable s) \<noteq> None)
     + of_bool (reg_deadline (writable s) \<noteq> None)"

definition reg_clean :: "wait_registration \<Rightarrow> bool" where
  "reg_clean r = (handle r = null_handle \<longrightarrow> r = no_registration)"

definition slot_ok :: "time option \<Rightarrow> waiter_slot \<Rightarrow> bool" where
  "slot_ok nd s = (le_opt nd (reg_deadline (readable s)) \<and> le_opt nd (reg_deadline (writable s))
     \<and> reg_clean (readable s) \<and> reg_clean (writable s))"

definition table_ok :: "(int \<times> waiter_slot) list \<Rightarrow> bool" where
  "table_ok ws = (distinct (map fst ws) \<and> (\<forall>n \<in> fst ` set ws. 0 \<le> n))"

definition loop_inv :: "event_loop \<Rightarrow> bool" where
  "loop_inv el = (table_ok (waiters el)
     \<and> pending_waiter_count el = alist_sum slot_pending (waiters el)
     \<and> timed_waiter_count el = alist_sum slot_timed (waiters el)
     \<and> (\<forall>(n, s) \<in> set (waiters el). slot_ok (next_deadline el) s))"

text \<open>
  Outside an error the kernel's interest mask of every descriptor is the one its registrations
  call for.
\<close>

definition masks_synced :: "event_loop \<Rightarrow> bool" where
  "masks_synced el = (\<forall>(n, s) \<in> set (waiters el). registered_mask s = desired_mask s)"

end
