(* ===== verification/Event_Loop_Facts.thy ===== *)
theory Event_Loop_Facts
  imports Event_Loop
begin

section \<open>Correctness of the epoll event loop\<close>

text \<open>
  The invariant of the loop is kept by every operation, whatever the kernel answers; what each
  operation does to the registrations, the ready queue and the results.
\<close>

subsection \<open>Slots\<close>

lemma slot_reg_simps [simp]:
  "slot_reg True s = readable s" "slot_reg False s = writable s"
  "set_slot_reg True r s = s\<lparr>readable := r\<rparr>" "set_slot_reg False r s = s\<lparr>writable := r\<rparr>"
  by (simp_all add: slot_reg_def set_slot_reg_def)

lemma slot_reg_set [simp]:
  "slot_reg rd (set_slot_reg rd r s) = r"
  "slot_reg (\<not> rd) (set_slot_reg rd r s) = slot_reg (\<not> rd) s"
  "registered_mask (set_slot_reg rd r s) = registered_mask s"
  by (cases rd; simp)+

lemma no_registration_simps [simp]:
  "handle no_registration = 0" "deadline no_registration = None" "reg_deadline no_registration = None"
  "reg_clean no_registration"
  by (simp_all add: no_registration_def reg_deadline_def reg_clean_def)

lemma new_slot_simps [simp]:
  "readable new_slot = no_registration" "writable new_slot = no_registration"
  "registered_mask new_slot = 0" "slot_pending new_slot = 0" "slot_timed new_slot = 0"
  "slot_ok nd new_slot" "desired_mask new_slot = 0" "slot_reg rd new_slot = no_registration"
  by (simp_all add: new_slot_def slot_pending_def slot_timed_def slot_ok_def desired_mask_def
      slot_reg_def)

lemma slot_pending_set:
  "slot_pending (set_slot_reg rd r s) + of_bool (handle (slot_reg rd s) \<noteq> 0)
     = slot_pending s + of_bool (handle r \<noteq> 0)"
  by (cases rd) (simp_all add: slot_pending_def)

lemma slot_timed_set:
  "slot_timed (set_slot_reg rd r s) + of_bool (reg_deadline (slot_reg rd s) \<noteq> None)
     = slot_timed s + of_bool (reg_deadline r \<noteq> None)"
  by (cases rd) (simp_all add: slot_timed_def)

lemma slot_ok_set:
  "slot_ok nd s \<Longrightarrow> le_opt nd (reg_deadline r) \<Longrightarrow> reg_clean r \<Longrightarrow> slot_ok nd (set_slot_reg rd r s)"
  by (cases rd) (simp_all add: slot_ok_def)

lemma slot_ok_mono: "slot_ok nd s \<Longrightarrow> le_opt nd' nd \<Longrightarrow> slot_ok nd' s"
  by (auto simp: slot_ok_def intro: le_opt_trans)

lemma slot_idle_pending: "slot_idle s \<longleftrightarrow> slot_pending s = 0"
  by (simp add: slot_idle_def slot_pending_def)

lemma slot_timed_le_pending: "slot_timed s \<le> slot_pending s"
  by (simp add: slot_timed_def slot_pending_def reg_deadline_def)

lemma slot_idle_timed: "slot_idle s \<Longrightarrow> slot_timed s = 0"
  using slot_timed_le_pending[of s] by (simp add: slot_idle_pending)

lemma slot_pending_le: "slot_pending s \<le> 2"
  by (simp add: slot_pending_def)

lemma slot_mask_irrelevant [simp]:
  "slot_pending (s\<lparr>registered_mask := m\<rparr>) = slot_pending s"
  "slot_timed (s\<lparr>registered_mask := m\<rparr>) = slot_timed s"
  "slot_ok nd (s\<lparr>registered_mask := m\<rparr>) = slot_ok nd s"
  "desired_mask (s\<lparr>registered_mask := m\<rparr>) = desired_mask s"
  "slot_idle (s\<lparr>registered_mask := m\<rparr>) = slot_idle s"
  "slot_reg rd (s\<lparr>registered_mask := m\<rparr>) = slot_reg rd s"
  by (simp_all add: slot_pending_def slot_timed_def slot_ok_def desired_mask_def slot_idle_def
      slot_reg_def)

subsection \<open>Masks\<close>

lemma desired_mask_eq:
  "desired_mask s =
     (if handle (readable s) = 0 then if handle (writable s) = 0 then 0 else 0x8000201C
      else if handle (writable s) = 0 then 0x80002019 else 0x8000201D)"
  by (simp add: desired_mask_def)

lemma desired_mask_zero: "desired_mask s = 0 \<longleftrightarrow> slot_idle s"
  by (simp add: desired_mask_eq slot_idle_def)

text \<open>Arming a free direction always changes the mask, so the kernel is told.\<close>

lemma desired_mask_arm:
  "handle (slot_reg rd s) = 0 \<Longrightarrow> handle r \<noteq> 0 \<Longrightarrow>
     desired_mask (set_slot_reg rd r s) \<noteq> desired_mask s \<and> desired_mask (set_slot_reg rd r s) \<noteq> 0"
  by (cases rd) (simp_all add: desired_mask_eq)

lemma refresh_interest_slot:
  assumes "refresh_interest K r n s w = (res, s', w')"
  shows "s' = s\<lparr>registered_mask := registered_mask s'\<rparr>"
    and "res = Inr () \<Longrightarrow> registered_mask s' = desired_mask s"
    and "res = Inl e \<Longrightarrow> s' = s"
  using assms by (auto simp: refresh_interest_def Let_def split: if_splits prod.splits sum.splits)

lemma refresh_interest_extends: "refresh_interest K r n s w = (res, s', w') \<Longrightarrow> extends w w'"
  by (auto simp: refresh_interest_def Let_def split: if_splits prod.splits sum.splits)
    (metis reactor_ops_extends snd_conv)+

text \<open>A changed mask is written to the kernel: exactly one \<^verbatim>\<open>epoll_ctl\<close>, with the desired mask.\<close>

lemma refresh_interest_ctl:
  assumes "refresh_interest K r n s w = (Inr (), s', w')" "registered_mask s \<noteq> desired_mask s"
    "desired_mask s \<noteq> 0"
  shows "\<exists>a. trace w' = (Epoll_ctl (fd (epoll_fd r))
      (if registered_mask s = 0 then EPOLL_CTL_ADD else EPOLL_CTL_MOD) n
      (Some (desired_mask s, n)), a) # trace w \<and> a_ret a = 0"
  using assms
  by (auto simp: refresh_interest_def reactor_add_def reactor_modify_def reactor_ctl_def sys_eq Let_def
      split: if_splits prod.splits sum.splits)

lemma refresh_interest_preserves:
  assumes "refresh_interest K r n s w = (res, s', w')"
  shows "slot_pending s' = slot_pending s" "slot_timed s' = slot_timed s"
    "slot_ok nd s' = slot_ok nd s" "desired_mask s' = desired_mask s"
    "slot_idle s' = slot_idle s" "slot_reg rd s' = slot_reg rd s"
    "readable s' = readable s" "writable s' = writable s"
  using refresh_interest_slot(1)[OF assms] slot_mask_irrelevant
  by (metis, metis, metis, metis, metis, metis, metis slot_reg_simps(1) slot_mask_irrelevant(6),
      metis slot_reg_simps(2) slot_mask_irrelevant(6))

subsection \<open>Effects on the counters\<close>

lemma schedule_simps [simp]:
  "waiters (schedule h el) = waiters el" "pending_waiter_count (schedule h el) = pending_waiter_count el"
  "timed_waiter_count (schedule h el) = timed_waiter_count el" "next_deadline (schedule h el) = next_deadline el"
  "reactor (schedule h el) = reactor el" "loop_error (schedule h el) = loop_error el"
  "init_error (schedule h el) = init_error el" "wait_results (schedule h el) = wait_results el"
  "deadline_index_dirty (schedule h el) = deadline_index_dirty el" "wake_fd (schedule h el) = wake_fd el"
  "active_task_count (schedule h el) = active_task_count el" "root_tasks (schedule h el) = root_tasks el"
  "stop_requested (schedule h el) = stop_requested el"
  "ready_queue (schedule h el) = ready_queue el @ (if h = 0 then [] else [h])"
  by (simp_all add: schedule_def)

text \<open>
  Removing a coroutine from a slot: the counters fall by what the slot loses. Both expiry and
  readiness are instances.
\<close>

lemma expired_armed: "expired now r \<Longrightarrow> handle r \<noteq> 0 \<and> reg_deadline r \<noteq> None"
  by (auto simp: expired_def reg_deadline_def split: option.splits)

lemma expire_registration_eq:
  "expire_registration now rd s el =
     (if expired now (slot_reg rd s)
      then (True, set_slot_reg rd no_registration s,
        el\<lparr>wait_results := (wait_results el)(handle (slot_reg rd s) \<mapsto> Inl (timeout_error (slot_reg rd s))),
           ready_queue := ready_queue el @ [handle (slot_reg rd s)],
           timed_waiter_count := timed_waiter_count el - 1,
           pending_waiter_count := pending_waiter_count el - 1\<rparr>)
      else (False, s, el))"
  by (simp add: expire_registration_def schedule_def Let_def expired_def)

lemma fire_registration_eq:
  "fire_registration rd evs s el =
     (if handle (slot_reg rd s) \<noteq> 0 \<and> has_event evs (if rd then kReadReadyMask else kWriteReadyMask)
      then (set_slot_reg rd no_registration s,
        el\<lparr>wait_results := (wait_results el)(handle (slot_reg rd s) \<mapsto> Inr ()),
           ready_queue := ready_queue el @ [handle (slot_reg rd s)],
           timed_waiter_count := timed_waiter_count el - of_bool (deadline (slot_reg rd s) \<noteq> None),
           deadline_index_dirty := (deadline_index_dirty el
             \<or> deadline (slot_reg rd s) \<noteq> None \<and> 0 < timed_waiter_count el),
           pending_waiter_count := pending_waiter_count el - 1\<rparr>)
      else (s, el))"
  by (simp add: fire_registration_def schedule_def Let_def)

lemma slot_pending_pos: "handle (slot_reg rd s) \<noteq> 0 \<Longrightarrow> 0 < slot_pending s"
  by (cases rd) (simp_all add: slot_pending_def)

lemma slot_timed_pos: "reg_deadline (slot_reg rd s) \<noteq> None \<Longrightarrow> 0 < slot_timed s"
  by (cases rd) (simp_all add: slot_timed_def)

lemma expire_registration_counts:
  assumes "expire_registration now rd s el = (ch, s', el')"
    and "slot_pending s \<le> pending_waiter_count el" "slot_timed s \<le> timed_waiter_count el"
  shows "pending_waiter_count el' + slot_pending s = pending_waiter_count el + slot_pending s'"
    and "timed_waiter_count el' + slot_timed s = timed_waiter_count el + slot_timed s'"
    and "slot_ok nd s \<Longrightarrow> slot_ok nd s'"
  using assms expired_armed[of now "slot_reg rd s"] slot_pending_pos[of rd s] slot_timed_pos[of rd s]
    slot_pending_set[of rd no_registration s] slot_timed_set[of rd no_registration s]
  by (auto simp: expire_registration_eq slot_ok_set split: if_splits)

lemma fire_registration_counts:
  assumes "fire_registration rd evs s el = (s', el')"
    and "slot_pending s \<le> pending_waiter_count el" "slot_timed s \<le> timed_waiter_count el"
  shows "pending_waiter_count el' + slot_pending s = pending_waiter_count el + slot_pending s'"
    and "timed_waiter_count el' + slot_timed s = timed_waiter_count el + slot_timed s'"
    and "slot_ok nd s \<Longrightarrow> slot_ok nd s'"
proof -
  have rd: "handle (slot_reg rd s) \<noteq> 0 \<Longrightarrow> reg_deadline (slot_reg rd s) = deadline (slot_reg rd s)"
    by (simp add: reg_deadline_def)
  show "pending_waiter_count el' + slot_pending s = pending_waiter_count el + slot_pending s'"
    using assms slot_pending_pos[of rd s] slot_pending_set[of rd no_registration s]
    by (auto simp: fire_registration_eq split: if_splits)
  show "timed_waiter_count el' + slot_timed s = timed_waiter_count el + slot_timed s'"
    using assms slot_timed_pos[of rd s] slot_timed_set[of rd no_registration s] rd
    by (auto simp: fire_registration_eq split: if_splits)
  show "slot_ok nd s \<Longrightarrow> slot_ok nd s'"
    using assms(1) by (auto simp: fire_registration_eq slot_ok_def split: if_splits)
qed

lemma expire_registration_frame:
  assumes "expire_registration now rd s el = (ch, s', el')"
  shows "waiters el' = waiters el" "next_deadline el' = next_deadline el" "reactor el' = reactor el"
    "loop_error el' = loop_error el" "registered_mask s' = registered_mask s"
    "slot_reg (\<not> rd) s' = slot_reg (\<not> rd) s" "ch = expired now (slot_reg rd s)"
    "slot_reg rd s' = (if expired now (slot_reg rd s) then no_registration else slot_reg rd s)"
    "deadline_index_dirty el' = deadline_index_dirty el" "init_error el' = init_error el"
    "root_tasks el' = root_tasks el" "active_task_count el' = active_task_count el"
    "wake_fd el' = wake_fd el"
  using assms by (auto simp: expire_registration_eq split: if_splits)

lemma fire_registration_frame:
  assumes "fire_registration rd evs s el = (s', el')"
  shows "waiters el' = waiters el" "next_deadline el' = next_deadline el" "reactor el' = reactor el"
    "loop_error el' = loop_error el" "registered_mask s' = registered_mask s"
    "slot_reg (\<not> rd) s' = slot_reg (\<not> rd) s" "init_error el' = init_error el"
    "root_tasks el' = root_tasks el" "active_task_count el' = active_task_count el"
    "wake_fd el' = wake_fd el"
  using assms by (auto simp: fire_registration_eq split: if_splits)

subsection \<open>Replacing, inserting and deleting a slot\<close>

lemma table_ok_update [simp]:
  "table_ok ws \<Longrightarrow> 0 \<le> n \<Longrightarrow> table_ok (AList.update n s ws)"
  by (auto simp: table_ok_def distinct_update dest!: set_update_cases)

lemma table_ok_delete [simp]: "table_ok ws \<Longrightarrow> table_ok (AList.delete n ws)"
  using set_delete_subset[of n ws] by (force simp: table_ok_def distinct_delete)

lemma table_ok_lookup: "table_ok ws \<Longrightarrow> map_of ws n = Some s \<Longrightarrow> 0 \<le> n \<and> (n, s) \<in> set ws"
  by (auto simp: table_ok_def dest!: map_of_SomeD)

lemma loop_inv_slot:
  assumes "loop_inv el" "map_of (waiters el) n = Some s"
  shows "0 \<le> n" "slot_pending s \<le> pending_waiter_count el" "slot_timed s \<le> timed_waiter_count el"
    "slot_ok (next_deadline el) s"
  using assms table_ok_lookup[of "waiters el" n s] alist_sum_ge[of "waiters el" n s]
  by (auto simp: loop_inv_def)

lemma bounded_update:
  assumes "\<forall>(m, t) \<in> set ws. slot_ok nd t" "slot_ok nd' s" "le_opt nd' nd"
  shows "\<forall>(m, t) \<in> set (AList.update n s ws). slot_ok nd' t"
  using assms slot_ok_mono by (fastforce dest: set_update_cases)

lemma loop_inv_update:
  assumes "loop_inv el" "map_of (waiters el) n = Some s"
    and "waiters el' = AList.update n s' (waiters el)"
    and "pending_waiter_count el' + slot_pending s = pending_waiter_count el + slot_pending s'"
    and "timed_waiter_count el' + slot_timed s = timed_waiter_count el + slot_timed s'"
    and "le_opt (next_deadline el') (next_deadline el)" "slot_ok (next_deadline el') s'"
  shows "loop_inv el'"
proof -
  have "alist_sum g (AList.update n s' (waiters el)) + g s = alist_sum g (waiters el) + g s'" for g
    using assms(2) by (rule alist_sum_update_old)
  note sums = this[of slot_pending] this[of slot_timed]
  show ?thesis
    using assms sums bounded_update[of "waiters el" "next_deadline el" "next_deadline el'" s' n]
      loop_inv_slot(1)[OF assms(1,2)]
    by (simp add: loop_inv_def)
qed

lemma loop_inv_insert_new:
  assumes "loop_inv el" "map_of (waiters el) n = None" "0 \<le> n"
  shows "loop_inv (el\<lparr>waiters := AList.update n new_slot (waiters el)\<rparr>)"
  using assms bounded_update[of "waiters el" "next_deadline el" "next_deadline el" new_slot n]
  by (simp add: loop_inv_def alist_sum_update_new)

lemma loop_inv_delete:
  assumes "loop_inv el" "map_of (waiters el) n = Some s"
    and "waiters el' = AList.delete n (waiters el)"
    and "pending_waiter_count el' + slot_pending s = pending_waiter_count el"
    and "timed_waiter_count el' + slot_timed s = timed_waiter_count el"
    and "next_deadline el' = next_deadline el"
  shows "loop_inv el'"
proof -
  have d: "distinct (map fst (waiters el))" using assms(1) by (simp add: loop_inv_def table_ok_def)
  note sums = alist_sum_delete[OF d assms(2), of slot_pending]
    alist_sum_delete[OF d assms(2), of slot_timed]
  show ?thesis
    using assms sums set_delete_subset[of n "waiters el"]
    by (auto simp: loop_inv_def)
qed

lemma loop_inv_cong:
  assumes "loop_inv el" "waiters el' = waiters el"
    and "pending_waiter_count el' = pending_waiter_count el"
    and "timed_waiter_count el' = timed_waiter_count el" "next_deadline el' = next_deadline el"
  shows "loop_inv el'"
  using assms by (simp add: loop_inv_def)

lemma loop_inv_lower:
  assumes "loop_inv el" "le_opt nd (next_deadline el)"
  shows "loop_inv (el\<lparr>next_deadline := nd, deadline_index_dirty := b\<rparr>)"
  using assms by (fastforce simp: loop_inv_def intro: slot_ok_mono)

subsection \<open>Arming keeps the invariant\<close>

lemma arm_register_facts:
  assumes "arm_register K n h rd timeout terr s el w = (s1, el1, w1)"
    and free: "handle (slot_reg rd s) = 0" and h: "h \<noteq> 0"
  shows "s1 = set_slot_reg rd \<lparr>handle = h, deadline = deadline (slot_reg rd s1), timeout_error = terr\<rparr> s"
    and "pending_waiter_count el1 + slot_pending s = pending_waiter_count el + slot_pending s1"
    and "timed_waiter_count el1 + slot_timed s = timed_waiter_count el + slot_timed s1"
    and "le_opt (next_deadline el1) (next_deadline el)"
    and "le_opt (next_deadline el1) (deadline (slot_reg rd s1))"
    and "waiters el1 = waiters el" "reactor el1 = reactor el" "extends w w1"
    and "loop_error el1 = loop_error el" "ready_queue el1 = ready_queue el"
    and "wait_results el1 = wait_results el" "init_error el1 = init_error el"
    and "root_tasks el1 = root_tasks el" "active_task_count el1 = active_task_count el"
    and "wake_fd el1 = wake_fd el"
proof -
  have rd0: "reg_deadline (slot_reg rd s) = None" using free by (simp add: reg_deadline_def)
  show "pending_waiter_count el1 + slot_pending s = pending_waiter_count el + slot_pending s1"
    using assms slot_pending_set[of rd _ s]
    by (force simp: arm_register_def clock_now_eq Let_def split: option.splits)
  show "timed_waiter_count el1 + slot_timed s = timed_waiter_count el + slot_timed s1"
    using assms slot_timed_set[of rd _ s] rd0
    by (auto simp: arm_register_def clock_now_eq Let_def reg_deadline_def split: option.splits)
qed (use assms in \<open>auto simp: arm_register_def clock_now_eq Let_def split: option.splits if_splits\<close>)

lemma arm_slot_present:
  assumes "loop_inv el" "0 \<le> n"
  defines "s \<equiv> (case map_of (waiters el) n of Some s \<Rightarrow> s | None \<Rightarrow> new_slot)"
  defines "el0 \<equiv> el\<lparr>waiters := AList.update n s (waiters el)\<rparr>"
  shows "loop_inv el0" "map_of (waiters el0) n = Some s"
proof -
  show "map_of (waiters el0) n = Some s" by (simp add: el0_def update_Some_unfold update_conv')
  show "loop_inv el0"
  proof (cases "map_of (waiters el) n")
    case None
    with assms show ?thesis by (simp add: loop_inv_insert_new)
  next
    case (Some t)
    with assms loop_inv_slot(4)[OF assms(1) Some] show ?thesis
      by (intro loop_inv_update[OF assms(1) Some, of _ t]) simp_all
  qed
qed

text \<open>Undoing an arm restores the slot, and with it the table.\<close>

lemma arm_rollback_slot:
  assumes "slot_ok nd s" "handle (slot_reg rd s) = 0"
  shows "set_slot_reg rd no_registration (set_slot_reg rd r s) = s"
  using assms by (cases rd) (auto simp: slot_ok_def reg_clean_def)

lemma alist_update_same: "map_of ws n = Some s \<Longrightarrow> AList.update n s ws = ws"
  by (induction ws) (auto split: if_splits)

lemma arm_rollback_eq:
  assumes inv: "loop_inv el0" and at: "map_of (waiters el0) n = Some s"
    and reg: "arm_register K n h rd timeout terr s el0 w = (s1, el1, w1)"
    and free: "handle (slot_reg rd s) = 0" and h: "h \<noteq> 0"
  shows "arm_rollback n rd s1 el1 = el0\<lparr>
      waiters := (if slot_idle s then AList.delete n (waiters el0) else waiters el0),
      next_deadline := next_deadline el1, deadline_index_dirty := True\<rparr>"
proof -
  have undo: "set_slot_reg rd no_registration (set_slot_reg rd r s) = s" for r
    using loop_inv_slot(4)[OF inv at] free by (rule arm_rollback_slot)
  note defs = arm_register_def arm_rollback_def clock_now_eq Let_def undo alist_update_same[OF at]
  show ?thesis
  proof (cases timeout)
    case None
    with reg show ?thesis
      by (intro event_loop.equality) (auto simp: defs)
  next
    case (Some t)
    with reg show ?thesis
      by (intro event_loop.equality) (auto simp: defs)
  qed
qed

text \<open>The slot \<^verbatim>\<open>try_emplace\<close> finds or makes, and the table after it.\<close>

definition arm_slot :: "int \<Rightarrow> event_loop \<Rightarrow> waiter_slot" where
  "arm_slot n el = (case map_of (waiters el) n of Some s \<Rightarrow> s | None \<Rightarrow> new_slot)"

abbreviation arm_entry :: "int \<Rightarrow> event_loop \<Rightarrow> event_loop" where
  "arm_entry n el \<equiv> el\<lparr>waiters := AList.update n (arm_slot n el) (waiters el)\<rparr>"

lemma arm_entry_busy: "handle (slot_reg rd (arm_slot n el)) \<noteq> 0 \<Longrightarrow> arm_entry n el = el"
  by (simp add: arm_slot_def alist_update_same split: option.splits)

lemma arm_waiter_cases [consumes 1, case_names invalid bad elapsed busy failed armed]:
  assumes "arm_waiter K n h rd timeout terr el w = (res, el', w')"
  obtains
    "\<not> loop_valid el" "res = Inl (init_failure el)" "el' = el" "w' = w"
  | "loop_valid el" "n < 0 \<or> h = 0" "res = errno_error EBADF" "el' = el" "w' = w"
  | t where "loop_valid el" "0 \<le> n" "h \<noteq> 0" "timeout = Some t" "t \<le> 0" "res = Inr ()"
      "el' = schedule h (el\<lparr>wait_results := (wait_results el)(h \<mapsto> Inl terr)\<rparr>)" "w' = w"
  | "loop_valid el" "0 \<le> n" "h \<noteq> 0" "handle (slot_reg rd (arm_slot n el)) \<noteq> 0"
      "res = errno_error EBUSY" "el' = el" "w' = w"
  | s1 el1 w1 e where "loop_valid el" "0 \<le> n" "h \<noteq> 0" "handle (slot_reg rd (arm_slot n el)) = 0"
      "arm_register K n h rd timeout terr (arm_slot n el) (arm_entry n el) w = (s1, el1, w1)"
      "refresh_interest K (reactor el) n s1 w1 = (Inl e, s1, w')"
      "res = Inl e" "el' = arm_rollback n rd s1 el1"
  | s1 el1 w1 s2 where "loop_valid el" "0 \<le> n" "h \<noteq> 0" "handle (slot_reg rd (arm_slot n el)) = 0"
      "arm_register K n h rd timeout terr (arm_slot n el) (arm_entry n el) w = (s1, el1, w1)"
      "refresh_interest K (reactor el) n s1 w1 = (Inr (), s2, w')"
      "res = Inr ()" "el' = el1\<lparr>waiters := AList.update n s2 (waiters el1)\<rparr>"
      "timeout = None \<or> (\<exists>t. timeout = Some t \<and> 0 < t)"
proof -
  consider "\<not> loop_valid el" | "loop_valid el" "n < 0 \<or> h = 0"
    | t where "loop_valid el" "0 \<le> n" "h \<noteq> 0" "timeout = Some t" "t \<le> 0"
    | "loop_valid el" "0 \<le> n" "h \<noteq> 0" "timeout = None \<or> (\<exists>t. timeout = Some t \<and> 0 < t)"
        "handle (slot_reg rd (arm_slot n el)) \<noteq> 0"
    | "loop_valid el" "0 \<le> n" "h \<noteq> 0" "timeout = None \<or> (\<exists>t. timeout = Some t \<and> 0 < t)"
        "handle (slot_reg rd (arm_slot n el)) = 0"
    by (cases timeout) force+
  then show thesis
  proof cases
    case 1
    with assms show thesis by (intro that(1)) (auto simp: arm_waiter_def)
  next
    case 2
    with assms show thesis by (intro that(2)) (auto simp: arm_waiter_def)
  next
    case (3 t)
    with assms show thesis by (intro that(3)[OF 3]) (auto simp: arm_waiter_def)
  next
    case 4
    have "\<not> (case timeout of Some t \<Rightarrow> t \<le> 0 | None \<Rightarrow> False)" using 4(4) by auto
    with assms 4(1-3,5) have "(res, el', w') = (errno_error EBUSY, arm_entry n el, w)"
      unfolding arm_waiter_def by (simp add: Let_def flip: arm_slot_def)
    with arm_entry_busy[OF 4(5)] show thesis by (intro that(4)[OF 4(1-3,5)]) simp_all
  next
    case 5
    obtain s1 el1 w1 where reg:
      "arm_register K n h rd timeout terr (arm_slot n el) (arm_entry n el) w = (s1, el1, w1)"
      by (metis prod_cases3)
    obtain r s2 w2 where ref: "refresh_interest K (reactor el1) n s1 w1 = (r, s2, w2)"
      by (metis prod_cases3)
    have el1: "reactor el1 = reactor el"
      using arm_register_facts(7)[OF reg 5(5,3)] by simp
    have eq: "(res, el', w') = (case (r, s2, w2) of
        (Inl e, s2, w2) \<Rightarrow> (Inl e, arm_rollback n rd s2 el1, w2)
      | (Inr _, s2, w2) \<Rightarrow> (Inr (), el1\<lparr>waiters := AList.update n s2 (waiters el1)\<rparr>, w2))"
    proof -
      have "\<not> (case timeout of Some t \<Rightarrow> t \<le> 0 | None \<Rightarrow> False)" using 5(4) by auto
      with assms 5(1-3,5) show ?thesis
        unfolding arm_waiter_def by (simp add: Let_def reg ref flip: arm_slot_def)
    qed
    show thesis
    proof (cases r)
      case (Inl e)
      with refresh_interest_slot(3)[OF ref] have "s2 = s1" by blast
      with Inl eq have out: "res = Inl e" "el' = arm_rollback n rd s1 el1" "w' = w2" by simp_all
      have "refresh_interest K (reactor el) n s1 w1 = (Inl e, s1, w')"
        using ref unfolding el1 Inl \<open>s2 = s1\<close> out(3) .
      then show thesis using out(1,2) by (rule that(5)[OF 5(1-3) 5(5) reg])
    next
      case (Inr u)
      with eq have out: "res = Inr ()" "el' = el1\<lparr>waiters := AList.update n s2 (waiters el1)\<rparr>" "w' = w2"
        by simp_all
      have "refresh_interest K (reactor el) n s1 w1 = (Inr (), s2, w')"
        using ref Inr out(3) unfolding el1 by simp
      then show thesis using out(1,2) 5(4) by (rule that(6)[OF 5(1-3) 5(5) reg])
    qed
  qed
qed

lemma arm_waiter_busy:
  assumes "loop_valid el" "0 \<le> n" "h \<noteq> 0" "\<forall>t. timeout = Some t \<longrightarrow> 0 < t"
    and "handle (slot_reg rd (arm_slot n el)) \<noteq> 0"
  shows "arm_waiter K n h rd timeout terr el w = (errno_error EBUSY, el, w)"
proof -
  obtain res el' w' where "arm_waiter K n h rd timeout terr el w = (res, el', w')"
    by (metis prod_cases3)
  moreover from this have "res = errno_error EBUSY \<and> el' = el \<and> w' = w"
    by (cases rule: arm_waiter_cases) (use assms in auto)
  ultimately show ?thesis by simp
qed

lemma arm_entry_inv:
  assumes "loop_inv el" "0 \<le> n"
  shows "loop_inv (arm_entry n el)" "map_of (waiters (arm_entry n el)) n = Some (arm_slot n el)"
  using arm_slot_present[OF assms] by (simp_all add: arm_slot_def)

lemma arm_waiter_inv [net_inv]:
  assumes inv: "loop_inv el" and arm: "arm_waiter K n h rd timeout terr el w = (res, el', w')"
  shows "loop_inv el'"
  using arm
proof (cases rule: arm_waiter_cases)
  case (elapsed t)
  with inv show ?thesis by (auto intro: loop_inv_cong)
next
  case (failed s1 el1 w1 e)
  note entry = arm_entry_inv[OF inv failed(2)]
  note eq = arm_rollback_eq[OF entry failed(5,4,3)]
  note reg = arm_register_facts[OF failed(5,4,3)]
  let ?el = "arm_entry n el\<lparr>waiters :=
      (if slot_idle (arm_slot n el) then AList.delete n (waiters (arm_entry n el)) else waiters (arm_entry n el))\<rparr>"
  have "loop_inv ?el"
    using entry
    by (cases "slot_idle (arm_slot n el)")
      (auto intro!: loop_inv_delete[OF entry] simp: slot_idle_timed, simp add: slot_idle_pending)
  from loop_inv_lower[OF this, of "next_deadline el1" True] reg(4) show ?thesis
    by (simp add: failed(8) eq)
next
  case (armed s1 el1 w1 s2)
  note entry = arm_entry_inv[OF inv armed(2)]
  note reg = arm_register_facts[OF armed(5,4,3)]
  note s2 = refresh_interest_preserves[OF armed(6)]
  let ?r = "\<lparr>handle = h, deadline = deadline (slot_reg rd s1), timeout_error = terr\<rparr>"
  have "slot_ok (next_deadline el1) (arm_slot n el)"
    using loop_inv_slot(4)[OF entry] reg(4) by (rule slot_ok_mono)
  moreover have "reg_clean ?r" "reg_deadline ?r = deadline (slot_reg rd s1)"
    using armed(3) by (simp_all add: reg_clean_def reg_deadline_def)
  ultimately have "slot_ok (next_deadline el1) (set_slot_reg rd ?r (arm_slot n el))"
    using reg(5) by (intro slot_ok_set) simp_all
  then have "slot_ok (next_deadline el1) s1" using reg(1) by metis
  then show ?thesis
    using entry reg s2 armed by (intro loop_inv_update[OF entry, of _ s2]) simp_all
qed (use inv in simp_all)

subsection \<open>What expiry does\<close>

text \<open>The registrations of a table that are due, in iteration order, and a slot without them.\<close>

definition due_regs :: "time \<Rightarrow> (int \<times> waiter_slot) list \<Rightarrow> wait_registration list" where
  "due_regs now ws = concat (map (\<lambda>(n, s). filter (expired now) [readable s, writable s]) ws)"

definition strip_slot :: "time \<Rightarrow> waiter_slot \<Rightarrow> waiter_slot" where
  "strip_slot now s = s\<lparr>
     readable := (if expired now (readable s) then no_registration else readable s),
     writable := (if expired now (writable s) then no_registration else writable s)\<rparr>"

definition expire_slot :: "time \<Rightarrow> waiter_slot \<Rightarrow> waiter_slot" where
  "expire_slot now s =
     (if expired now (readable s) \<or> expired now (writable s)
      then (strip_slot now s)\<lparr>registered_mask := desired_mask (strip_slot now s)\<rparr> else s)"

definition surviving :: "time \<Rightarrow> (int \<times> waiter_slot) list \<Rightarrow> (int \<times> waiter_slot) list" where
  "surviving now ws = filter (\<lambda>(n, s). \<not> slot_idle s) (map (\<lambda>(n, s). (n, expire_slot now s)) ws)"

definition post_timeouts ::
    "'a wait_registration_scheme list \<Rightarrow> (co_handle \<rightharpoonup> unit result) \<Rightarrow> (co_handle \<rightharpoonup> unit result)" where
  "post_timeouts rs m = fold (\<lambda>r m. m(handle r \<mapsto> Inl (timeout_error r))) rs m"

text \<open>The loop after both registrations of a slot were looked at.\<close>

definition post_slot :: "time \<Rightarrow> waiter_slot \<Rightarrow> event_loop \<Rightarrow> event_loop" where
  "post_slot now s el =
     (let due = filter (expired now) [readable s, writable s]
      in el\<lparr>wait_results := post_timeouts due (wait_results el),
            ready_queue := ready_queue el @ map handle due,
            timed_waiter_count := timed_waiter_count el - length due,
            pending_waiter_count := pending_waiter_count el - length due\<rparr>)"

lemma due_regs_simps [simp]:
  "due_regs now [] = []"
  "due_regs now ((n, s) # ws) = filter (expired now) [readable s, writable s] @ due_regs now ws"
  by (simp_all add: due_regs_def)

lemma surviving_simps [simp]:
  "surviving now [] = []"
  "surviving now ((n, s) # ws) =
     (if slot_idle (expire_slot now s) then surviving now ws else (n, expire_slot now s) # surviving now ws)"
  by (simp_all add: surviving_def)

lemma post_timeouts_append [simp]:
  "post_timeouts (rs @ rs') m = post_timeouts rs' (post_timeouts rs m)"
  by (simp add: post_timeouts_def)

text \<open>The two expiries of one slot together.\<close>

lemma expire_both:
  assumes "expire_registration now True s el = (ch1, s1, el1)"
    and "expire_registration now False s1 el1 = (ch2, s2, el2)"
  shows "s2 = strip_slot now s"
    "ch1 \<or> ch2 \<longleftrightarrow> expired now (readable s) \<or> expired now (writable s)"
    "el2 = post_slot now s el"
  using assms
  by (auto simp: expire_registration_eq strip_slot_def post_timeouts_def post_slot_def split: if_splits)

lemma strip_slot_counts:
  "slot_pending (strip_slot now s) + length (filter (expired now) [readable s, writable s]) = slot_pending s"
  "slot_timed (strip_slot now s) + length (filter (expired now) [readable s, writable s]) = slot_timed s"
  "slot_ok nd s \<Longrightarrow> slot_ok nd (strip_slot now s)"
  using expired_armed[of now "readable s"] expired_armed[of now "writable s"]
  by (auto simp: strip_slot_def slot_pending_def slot_timed_def slot_ok_def)

lemma expire_slot_simps [simp]:
  "slot_pending (expire_slot now s) = slot_pending (strip_slot now s)"
  "slot_timed (expire_slot now s) = slot_timed (strip_slot now s)"
  "slot_ok nd (expire_slot now s) = slot_ok nd (strip_slot now s)"
  "readable (expire_slot now s) = readable (strip_slot now s)"
  "writable (expire_slot now s) = writable (strip_slot now s)"
  "slot_idle (expire_slot now s) = slot_idle (strip_slot now s)"
  by (auto simp: expire_slot_def strip_slot_def)

text \<open>One step of the iteration, as the two outcomes of refreshing the kernel's mask.\<close>

lemma expire_scan_step:
  obtains e w1 where "expire_scan K now ((n, s) # rest) kept nd el w
      = (False, nd, (post_slot now s el)\<lparr>loop_error := Some e, stop_requested := True,
           waiters := kept @ (n, strip_slot now s) # rest\<rparr>, w1)" "extends w w1"
  | w1 where "expire_scan K now ((n, s) # rest) kept nd el w =
      (if slot_idle (expire_slot now s) then expire_scan K now rest kept nd (post_slot now s el) w1
       else expire_scan K now rest (kept @ [(n, expire_slot now s)])
         (min_opt (min_opt nd (reg_deadline (readable (strip_slot now s))))
           (reg_deadline (writable (strip_slot now s)))) (post_slot now s el) w1)" "extends w w1"
      "(w1 = w \<and> expire_slot now s = s) \<or>
         refresh_interest K (reactor el) n (strip_slot now s) w = (Inr (), expire_slot now s, w1)"
proof -
  obtain ch1 s1 el1 where e1: "expire_registration now True s el = (ch1, s1, el1)"
    by (metis prod_cases3)
  obtain ch2 s2 el2' where e2: "expire_registration now False s1 el1 = (ch2, s2, el2')"
    by (metis prod_cases3)
  note both = expire_both[OF e1 e2]
  show thesis
  proof (cases "ch1 \<or> ch2")
    case False
    then have "expire_slot now s = s" "strip_slot now s = s"
      using both(2) by (auto simp: expire_slot_def strip_slot_def split: if_splits)
    then show thesis
      using False both(1) by (intro that(2)[of w]) (simp_all add: e1 e2 both(3))
  next
    case True
    obtain r s3 w1 where ref: "refresh_interest K (reactor (post_slot now s el)) n (strip_slot now s) w = (r, s3, w1)"
      by (metis prod_cases3)
    have due: "expired now (readable s) \<or> expired now (writable s)"
      using True both(2) by simp
    show thesis
    proof (cases r)
      case (Inl e)
      with refresh_interest_slot(3)[OF ref] refresh_interest_extends[OF ref] True both(1) show thesis
        by (intro that(1)[of e w1]) (simp_all add: e1 e2 both(3) ref)
    next
      case (Inr u)
      with refresh_interest_slot(1,2)[OF ref] have "s3 = expire_slot now s"
        using due by (simp add: expire_slot_def)
      with Inr True refresh_interest_extends[OF ref] both(1) ref show thesis
        by (intro that(2)[of w1]) (simp_all add: e1 e2 both(3) post_slot_def Let_def)
    qed
  qed
qed

lemma post_slot_simps [simp]:
  "next_deadline (post_slot now s el) = next_deadline el" "reactor (post_slot now s el) = reactor el"
  "loop_error (post_slot now s el) = loop_error el" "waiters (post_slot now s el) = waiters el"
  "root_tasks (post_slot now s el) = root_tasks el" "init_error (post_slot now s el) = init_error el"
  "active_task_count (post_slot now s el) = active_task_count el"
  "wake_fd (post_slot now s el) = wake_fd el" "stop_requested (post_slot now s el) = stop_requested el"
  by (simp_all add: post_slot_def Let_def)

text \<open>What holds while the iteration is between two entries.\<close>

definition scan_inv :: "(int \<times> waiter_slot) list \<Rightarrow> event_loop \<Rightarrow> bool" where
  "scan_inv ws el = loop_inv (el\<lparr>waiters := ws\<rparr>)"

lemma scan_inv_step:
  assumes "scan_inv (kept @ (n, s) # rest) el"
  shows "scan_inv (kept @ (n, strip_slot now s) # rest) (post_slot now s el)"
    and "scan_inv (kept @ (n, expire_slot now s) # rest) (post_slot now s el)"
    and "slot_idle (expire_slot now s) \<Longrightarrow> scan_inv (kept @ rest) (post_slot now s el)"
proof -
  note counts = strip_slot_counts(1,2)[of now s] slot_idle_timed[of "strip_slot now s"]
    slot_idle_pending[of "strip_slot now s"]
  show "scan_inv (kept @ (n, strip_slot now s) # rest) (post_slot now s el)"
    "scan_inv (kept @ (n, expire_slot now s) # rest) (post_slot now s el)"
    using assms counts strip_slot_counts(3)[of "next_deadline el" s now]
    by (auto simp: scan_inv_def loop_inv_def table_ok_def post_slot_def Let_def)
  show "slot_idle (expire_slot now s) \<Longrightarrow> scan_inv (kept @ rest) (post_slot now s el)"
    using assms counts
    by (auto simp: scan_inv_def loop_inv_def table_ok_def post_slot_def Let_def)
qed

lemma expire_scan_inv:
  assumes "expire_scan K now rest kept nd el w = (fin, nd', el', w')"
    and "scan_inv (kept @ rest) el"
    and "\<forall>(n, s) \<in> set kept. slot_ok nd s"
  shows "loop_inv el' \<and> extends w w' \<and> next_deadline el' = next_deadline el
    \<and> (fin \<longrightarrow> (\<forall>(n, s) \<in> set (waiters el'). slot_ok nd' s))"
  using assms
proof (induction rest arbitrary: kept nd el w)
  case Nil
  then show ?case by (auto simp: scan_inv_def)
next
  case (Cons p rest)
  obtain n s where p: "p = (n, s)" by (cases p)
  have inv: "scan_inv (kept @ (n, s) # rest) el" using Cons.prems(2) p by simp
  note next_inv = scan_inv_step[OF inv, of now]
  from expire_scan_step[of K now n s rest kept nd el w]
  show ?case
  proof cases
    case (1 e w1)
    have "loop_inv el'"
      using next_inv(1) Cons.prems(1) 1(1) p
      by (auto simp: scan_inv_def elim!: loop_inv_cong)
    with Cons.prems(1) 1 p show ?thesis by auto
  next
    case (2 w1)
    show ?thesis
    proof (cases "slot_idle (expire_slot now s)")
      case True
      with 2 Cons.prems(1) p have
        "expire_scan K now rest kept nd (post_slot now s el) w1 = (fin, nd', el', w')" by simp
      from Cons.IH[OF this next_inv(3)[OF True] Cons.prems(3)] 2(2) show ?thesis
        by (auto intro: extends_trans)
    next
      case False
      let ?nd = "min_opt (min_opt nd (reg_deadline (readable (strip_slot now s))))
        (reg_deadline (writable (strip_slot now s)))"
      from False 2 Cons.prems(1) p have run: "expire_scan K now rest (kept @ [(n, expire_slot now s)])
        ?nd (post_slot now s el) w1 = (fin, nd', el', w')" by simp
      have "le_opt ?nd nd" by (auto intro!: le_opt_min_optI)
      then have k: "\<forall>(m, t) \<in> set kept. slot_ok ?nd t"
        using Cons.prems(3) by (auto intro: slot_ok_mono)
      have "slot_ok (next_deadline el) (expire_slot now s)"
        using next_inv(2) by (simp add: scan_inv_def loop_inv_def)
      then have "slot_ok ?nd (expire_slot now s)"
        by (auto simp: slot_ok_def intro!: le_opt_min_optI)
      with k have "\<forall>(m, t) \<in> set (kept @ [(n, expire_slot now s)]). slot_ok ?nd t" by auto
      from Cons.IH[OF run _ this] next_inv(2) 2(2) show ?thesis
        by (auto intro: extends_trans)
    qed
  qed
qed

lemma expire_scan_effect:
  assumes "expire_scan K now rest kept nd el w = (True, nd', el', w')"
  shows "waiters el' = kept @ surviving now rest
    \<and> ready_queue el' = ready_queue el @ map handle (due_regs now rest)
    \<and> wait_results el' = post_timeouts (due_regs now rest) (wait_results el)
    \<and> loop_error el' = loop_error el"
  using assms
proof (induction rest arbitrary: kept nd el w)
  case Nil
  then show ?case by (auto simp: post_timeouts_def)
next
  case (Cons p rest)
  obtain n s where p: "p = (n, s)" by (cases p)
  have post: "ready_queue (post_slot now s el)
      = ready_queue el @ map handle (filter (expired now) [readable s, writable s])"
    "wait_results (post_slot now s el)
      = post_timeouts (filter (expired now) [readable s, writable s]) (wait_results el)"
    by (simp_all add: post_slot_def Let_def)
  from expire_scan_step[of K now n s rest kept nd el w]
  show ?case
  proof cases
    case (1 e w1)
    with Cons.prems p show ?thesis by simp
  next
    case (2 w1)
    show ?thesis
    proof (cases "slot_idle (expire_slot now s)")
      case True
      with 2 Cons.prems p have
        "expire_scan K now rest kept nd (post_slot now s el) w1 = (True, nd', el', w')" by simp
      from Cons.IH[OF this] True post p show ?thesis by (simp del: filter.simps)
    next
      case False
      with 2 Cons.prems p have "expire_scan K now rest (kept @ [(n, expire_slot now s)])
        (min_opt (min_opt nd (reg_deadline (readable (strip_slot now s))))
          (reg_deadline (writable (strip_slot now s)))) (post_slot now s el) w1 = (True, nd', el', w')"
        by simp
      from Cons.IH[OF this] False post p show ?thesis by (simp del: filter.simps)
    qed
  qed
qed

lemma expire_scan_error:
  "expire_scan K now rest kept nd el w = (False, nd', el', w') \<Longrightarrow> loop_error el' \<noteq> None"
proof (induction rest arbitrary: kept nd el w)
  case Nil
  then show ?case by simp
next
  case (Cons p rest)
  obtain n s where p: "p = (n, s)" by (cases p)
  from expire_scan_step[of K now n s rest kept nd el w]
  show ?case
    using Cons p by cases (auto split: if_splits)
qed

subsection \<open>Expiry and readiness keep the invariant\<close>

lemma process_expired_cases [consumes 1, case_names none early aborted scanned]:
  assumes "process_expired_waiters K el w = (el', w')"
  defines "now \<equiv> a_num (K (trace w) Clock_now)" and "w1 \<equiv> snd (sys K Clock_now w)"
  obtains
    "timed_waiter_count el = 0" "el' = el\<lparr>next_deadline := None, deadline_index_dirty := False\<rparr>" "w' = w"
  | nd where "0 < timed_waiter_count el" "\<not> deadline_index_dirty el" "next_deadline el = Some nd"
      "now < nd" "el' = el" "w' = w1"
  | nd where "0 < timed_waiter_count el"
      "expire_scan K now (waiters el) [] None el w1 = (False, nd, el', w')"
  | nd el1 where "0 < timed_waiter_count el"
      "expire_scan K now (waiters el) [] None el w1 = (True, nd, el1, w')"
      "el' = el1\<lparr>next_deadline := nd, deadline_index_dirty := False\<rparr>"
proof -
  have clk: "clock_now K w = (now, w1)" by (simp add: now_def w1_def clock_now_eq)
  obtain fin nd el1 w2 where sc: "expire_scan K now (waiters el) [] None el w1 = (fin, nd, el1, w2)"
    by (metis prod_cases4)
  consider "timed_waiter_count el = 0"
    | (early) nd where "0 < timed_waiter_count el" "\<not> deadline_index_dirty el"
        "next_deadline el = Some nd" "now < nd"
    | (scan) "0 < timed_waiter_count el" "\<not> (\<not> deadline_index_dirty el
        \<and> (case next_deadline el of None \<Rightarrow> False | Some nd \<Rightarrow> now < nd))"
    by (fastforce split: option.splits)
  then show thesis
  proof cases
    case 1
    with assms(1) show thesis by (intro that(1)) (simp_all add: process_expired_waiters_def)
  next
    case (early nd)
    with assms(1) show thesis
      by (intro that(2)[OF early]) (simp_all add: process_expired_waiters_def clk)
  next
    case scan
    with assms(1) have eq: "(el', w') =
        (if fin then (el1\<lparr>next_deadline := nd, deadline_index_dirty := False\<rparr>, w2) else (el1, w2))"
      by (cases fin) (simp_all add: process_expired_waiters_def clk sc del: de_Morgan_conj)
    show thesis
    proof (cases fin)
      case True
      with eq sc show thesis by (intro that(4)[OF scan(1)]) simp_all
    next
      case False
      with eq sc show thesis by (intro that(3)[OF scan(1)]) simp
    qed
  qed
qed

lemma loop_inv_untimed:
  assumes "loop_inv el" "timed_waiter_count el = 0" "(n, s) \<in> set (waiters el)"
  shows "slot_timed s = 0" "slot_ok nd s"
proof -
  have "slot_timed s \<le> alist_sum slot_timed (waiters el)"
    using alist_sum_ge[of "waiters el" n s slot_timed] assms by (simp add: loop_inv_def table_ok_def)
  with assms show "slot_timed s = 0" by (simp add: loop_inv_def)
  with assms show "slot_ok nd s"
    by (fastforce simp: loop_inv_def slot_timed_def slot_ok_def)
qed

lemma process_expired_waiters_inv [net_inv]:
  assumes inv: "loop_inv el" and run: "process_expired_waiters K el w = (el', w')"
  shows "loop_inv el' \<and> extends w w'"
proof -
  have si: "scan_inv ([] @ waiters el) el" using inv by (simp add: scan_inv_def)
  have w: "extends w (snd (sys K Clock_now w))" by simp
  from run show ?thesis
  proof (cases rule: process_expired_cases)
    case none
    with inv loop_inv_untimed(2)[OF inv] show ?thesis by (auto simp: loop_inv_def)
  next
    case (early nd)
    with inv show ?thesis by simp
  next
    case (aborted nd)
    from expire_scan_inv[OF aborted(2) si] w show ?thesis by (auto intro: extends_trans)
  next
    case (scanned nd el1)
    from expire_scan_inv[OF scanned(2) si] w scanned(3) show ?thesis
      by (auto simp: loop_inv_def intro: extends_trans)
  qed
qed

lemma process_waiter_event_inv [net_inv]:
  assumes inv: "loop_inv el" and run: "process_waiter_event K ev el w = (el', w')"
  shows "loop_inv el' \<and> extends w w'"
proof (cases "map_of (waiters el) (ev_fd ev)")
  case None
  with run inv show ?thesis by (simp add: process_waiter_event_def)
next
  case (Some s)
  obtain s1 el1 where f1: "fire_registration True (ev_events ev) s el = (s1, el1)" by fastforce
  obtain s2 el2 where f2: "fire_registration False (ev_events ev) s1 el1 = (s2, el2)" by fastforce
  obtain r s3 w1 where ref: "refresh_interest K (reactor el2) (ev_fd ev) s2 w = (r, s3, w1)"
    by (metis prod_cases3)
  note slot = loop_inv_slot[OF inv Some]
  note c1 = fire_registration_counts[OF f1 slot(2,3)]
  have "slot_pending s1 \<le> pending_waiter_count el1" "slot_timed s1 \<le> timed_waiter_count el1"
    using c1(1,2) slot(2,3) by linarith+
  note c2 = fire_registration_counts[OF f2 this]
  note fr = fire_registration_frame[OF f1] fire_registration_frame[OF f2]
  note s3 = refresh_interest_preserves[OF ref]
  have counts: "pending_waiter_count el2 + slot_pending s = pending_waiter_count el + slot_pending s3"
    "timed_waiter_count el2 + slot_timed s = timed_waiter_count el + slot_timed s3"
    using c1(1,2) c2(1,2) s3 by simp_all
  have ok: "slot_ok (next_deadline el) s3" using c1(3) c2(3) slot(4) s3 by simp
  have "loop_inv el'"
  proof (cases "r = Inr () \<and> slot_idle s3")
    case True
    with run Some f1 f2 ref have "el' = el2\<lparr>waiters := AList.delete (ev_fd ev) (waiters el2)\<rparr>"
      by (simp add: process_waiter_event_def)
    then show ?thesis
      using counts fr True slot_idle_timed[of s3] slot_idle_pending[of s3]
      by (intro loop_inv_delete[OF inv Some]) simp_all
  next
    case False
    with run Some f1 f2 ref have "waiters el' = AList.update (ev_fd ev) s3 (waiters el2)"
      "pending_waiter_count el' = pending_waiter_count el2"
      "timed_waiter_count el' = timed_waiter_count el2" "next_deadline el' = next_deadline el2"
      by (auto simp: process_waiter_event_def split: sum.splits)
    then show ?thesis
      using counts fr ok by (intro loop_inv_update[OF inv Some, of _ s3]) simp_all
  qed
  moreover have "w' = w1"
    using run Some f1 f2 ref by (auto simp: process_waiter_event_def split: sum.splits)
  ultimately show ?thesis using refresh_interest_extends[OF ref] by simp
qed

subsection \<open>The loop implements the scheduler\<close>

text \<open>The abstraction function.\<close>

definition view_reg :: "'a wait_registration_scheme \<Rightarrow> reg_view option" where
  "view_reg r = (if handle r = 0 then None else Some (handle r, deadline r, timeout_error r))"

definition loop_abs :: "event_loop \<Rightarrow> sched_spec" where
  "loop_abs el = \<lparr>sp_regs = (\<lambda>n rd. view_reg (slot_reg rd (arm_slot n el))),
     sp_ready = ready_queue el, sp_results = wait_results el, sp_active = active_task_count el\<rparr>"

definition epoll_scheduler :: "kernel \<Rightarrow> (event_loop \<times> world) scheduler" where
  "epoll_scheduler K = \<lparr>
     schedule_fn = (\<lambda>h (el, w). (schedule h el, w)),
     on_task_completed_fn = (\<lambda>(el, w). (on_task_completed el, w)),
     wait_for_readable_fn = (\<lambda>n h t e (el, w). wait_for_readable K n h t e el w),
     wait_for_writable_fn = (\<lambda>n h t e (el, w). wait_for_writable K n h t e el w),
     consume_wait_result_fn = (\<lambda>h (el, w). let (r, el1) = consume_wait_result h el in (r, (el1, w)))\<rparr>"

definition arm_deadline :: "kernel \<Rightarrow> world \<Rightarrow> ms option \<Rightarrow> time option" where
  "arm_deadline K w timeout = map_option (\<lambda>t. a_num (K (trace w) Clock_now) + t * ns_per_ms) timeout"

lemma view_reg_simps [simp]:
  "view_reg no_registration = None" "view_reg r = None \<longleftrightarrow> handle r = 0" "None = view_reg r \<longleftrightarrow> handle r = 0"
  by (simp_all add: view_reg_def)

lemma arm_slot_update [simp]:
  "arm_slot m (el\<lparr>waiters := AList.update n s (waiters el)\<rparr>) = (if m = n then s else arm_slot m el)"
  by (simp add: arm_slot_def update_conv')

lemma arm_slot_delete [simp]:
  "arm_slot m (el\<lparr>waiters := AList.delete n (waiters el)\<rparr>) = (if m = n then new_slot else arm_slot m el)"
  by (simp add: arm_slot_def delete_conv')

lemma arm_slot_cong: "waiters el' = waiters el \<Longrightarrow> arm_slot m el' = arm_slot m el"
  by (simp add: arm_slot_def)

lemma loop_abs_simps [simp]:
  "sp_regs (loop_abs el) n rd = view_reg (slot_reg rd (arm_slot n el))"
  "sp_ready (loop_abs el) = ready_queue el" "sp_results (loop_abs el) = wait_results el"
  "sp_active (loop_abs el) = active_task_count el"
  by (simp_all add: loop_abs_def)

lemma loop_abs_eqI:
  assumes "\<And>n rd. view_reg (slot_reg rd (arm_slot n el)) = sp_regs a n rd"
    "ready_queue el = sp_ready a" "wait_results el = sp_results a" "active_task_count el = sp_active a"
  shows "loop_abs el = a"
  using assms by (intro sched_spec.equality) (auto simp: fun_eq_iff)

lemma slot_idle_view: "slot_idle s \<Longrightarrow> view_reg (slot_reg rd s) = None"
  by (cases rd) (simp_all add: slot_idle_def view_reg_def)

lemma arm_slot_entry [simp]: "arm_slot m (arm_entry n el) = arm_slot m el"
  by simp

lemma arm_waiter_failed_abs:
  assumes inv: "loop_inv el" and arm: "arm_waiter K n h rd timeout terr el w = (Inl e, el', w')"
  shows "loop_abs el' = loop_abs el"
  using arm
proof (cases rule: arm_waiter_cases)
  case (failed s1 el1 w1 e')
  note eq = arm_rollback_eq[OF arm_entry_inv[OF inv failed(2)] failed(5,4,3)]
  show ?thesis
    using slot_idle_view[of "arm_slot n el"]
    by (intro loop_abs_eqI)
      (auto simp: failed(8) eq arm_slot_def delete_conv' update_conv' split: option.splits)
qed simp_all

lemma arm_waiter_armed_abs:
  assumes "arm_waiter K n h rd timeout terr el w = (Inr (), el', w')"
    and "\<forall>t. timeout = Some t \<longrightarrow> 0 < t"
  shows "loop_abs el' = sp_register n rd (Some (h, arm_deadline K w timeout, terr)) (loop_abs el)"
  using assms(1)
proof (cases rule: arm_waiter_cases)
  case (elapsed t)
  with assms(2) show ?thesis by force
next
  case (armed s1 el1 w1 s2)
  note reg = arm_register_facts[OF armed(5,4,3)]
  note s2 = refresh_interest_preserves[OF armed(6)]
  have dl: "deadline (slot_reg rd s1) = arm_deadline K w timeout"
    using armed(5) by (auto simp: arm_register_def arm_deadline_def clock_now_eq Let_def split: option.splits)
  have view: "view_reg (slot_reg d s2) = (if d = rd then Some (h, arm_deadline K w timeout, terr)
      else view_reg (slot_reg d (arm_slot n el)))" for d
    using s2(6)[of d] reg(1) dl armed(3) by (cases "d = rd"; cases rd; cases d) (auto simp: view_reg_def)
  have "arm_slot m el' = (if m = n then s2 else arm_slot m el)" for m
    using armed(8) reg(6) by (simp add: arm_slot_def update_conv')
  then show ?thesis
    using reg armed(8) view by (intro loop_abs_eqI) (auto split: if_splits)
qed simp_all

lemma epoll_wait_for:
  "wait_for_fn (epoll_scheduler K) rd n h timeout terr (el, w) = arm_waiter K n h rd timeout terr el w"
  by (simp add: wait_for_fn_def epoll_scheduler_def wait_for_readable_def wait_for_writable_def)

lemma schedule_abs: "loop_abs (schedule h el) = sp_schedule h (loop_abs el)"
  by (intro loop_abs_eqI) (auto simp: sp_schedule_def arm_slot_def)

lemma loop_inv_simple_ops [net_inv]:
  "loop_inv el \<Longrightarrow> loop_inv (schedule h el)"
  "loop_inv el \<Longrightarrow> loop_inv (on_task_completed el)"
  "loop_inv el \<Longrightarrow> loop_inv (spawn h el)"
  "loop_inv el \<Longrightarrow> consume_wait_result h el = (r, el') \<Longrightarrow> loop_inv el'"
  by (auto simp: on_task_completed_def spawn_def consume_wait_result_def elim!: loop_inv_cong
      split: if_splits option.splits)

interpretation epoll: scheduler_impl "epoll_scheduler K" "\<lambda>s. loop_abs (fst s)" "\<lambda>s. loop_inv (fst s)"
  "\<lambda>s. loop_valid (fst s)" "\<lambda>s. arm_deadline K (snd s)" for K
proof (unfold_locales, goal_cases)
  case (1 h s)
  then show ?case by (cases s) (simp add: epoll_scheduler_def schedule_abs)
next
  case (2 s)
  then show ?case
    by (cases s) (auto simp: epoll_scheduler_def on_task_completed_def sp_complete_def arm_slot_def
        intro!: loop_abs_eqI)
next
  case (3 h s r s')
  then show ?case
    by (cases s) (auto simp: epoll_scheduler_def consume_wait_result_def sp_consume_def arm_slot_def
        intro!: loop_abs_eqI split: if_splits option.splits)
next
  case (4 s n h rd timeout terr)
  then show ?case by (cases s) (auto simp: epoll_wait_for arm_waiter_def)
next
  case (5 s n h t rd terr r s')
  then show ?case
    by (cases s) (auto simp: epoll_wait_for arm_waiter_def schedule_def sp_schedule_def arm_slot_def
        intro!: loop_abs_eqI)
next
  case (6 s n h timeout rd terr r s')
  then show ?case
    using arm_waiter_busy[of "fst s" n h timeout rd K terr "snd s"]
    by (cases s) (auto simp: epoll_wait_for)
next
  case (7 s n h timeout rd terr r s')
  then have arm: "arm_waiter K n h rd timeout terr (fst s) (snd s) = (r, fst s', snd s')"
    by (cases s; cases s') (simp add: epoll_wait_for)
  show ?case
  proof (cases r)
    case (Inl e)
    from arm_waiter_failed_abs[OF 7(2) arm[unfolded Inl]] Inl show ?thesis by simp
  next
    case (Inr u)
    with arm have "arm_waiter K n h rd timeout terr (fst s) (snd s) = (Inr (), fst s', snd s')" by simp
    from arm_waiter_armed_abs[OF this 7(6)] Inr show ?thesis by simp
  qed
next
  case (8 s h)
  then show ?case by (cases s) (simp add: epoll_scheduler_def loop_inv_simple_ops(1))
next
  case (9 s)
  then show ?case by (cases s) (simp add: epoll_scheduler_def loop_inv_simple_ops(2))
next
  case (10 s h r s')
  then show ?case
    by (cases s) (auto simp: epoll_scheduler_def dest: loop_inv_simple_ops(4) split: prod.splits)
next
  case (11 s n rd h timeout terr r s')
  then show ?case
    using arm_waiter_inv[of "fst s" K n h rd timeout terr "snd s" r "fst s'" "snd s'"]
    by (cases s; cases s') (simp add: epoll_wait_for)
qed

end
