(* ===== verification/Event_Loop_Run.thy ===== *)
theory Event_Loop_Run
  imports Event_Loop_Facts
begin

section \<open>The epoll event loop while it runs\<close>

text \<open>
  What holds of a loop in every state it can be in: after its construction, during and after any
  number of calls of \<^verbatim>\<open>run\<close>, between any operations of the coroutines it resumes. The locale
  \<open>loop_property\<close> states once what it takes for a property of the loop and the world to hold
  throughout a run; it is interpreted for the invariant of the tables and for the agreement of
  the kernel's interest masks with them. The theory also holds the properties of expiry, readiness
  and the result of \<^verbatim>\<open>run\<close>.
\<close>

subsection \<open>What a coroutine may do to the loop\<close>

text \<open>
  A resumed coroutine reaches the loop only through the public interface, and the kernel's epoll
  object only through the loop; its other system calls leave both alone.
\<close>

fun quiet_call :: "ext_call \<Rightarrow> bool" where
  "quiet_call (Epoll_ctl _ _ _ _) = False"
| "quiet_call _ = True"

definition quietly :: "world \<Rightarrow> world \<Rightarrow> bool" where
  "quietly w w' = (\<exists>new. trace w' = new @ trace w \<and> (\<forall>(c, a) \<in> set new. quiet_call c))"

inductive client_step :: "kernel \<Rightarrow> event_loop \<times> world \<Rightarrow> event_loop \<times> world \<Rightarrow> bool" for K where
  cl_schedule: "client_step K (el, w) (schedule h el, w)"
| cl_completed: "client_step K (el, w) (on_task_completed el, w)"
| cl_spawn: "client_step K (el, w) (spawn h el, w)"
| cl_wait: "arm_waiter K n h rd timeout terr el w = (r, el', w') \<Longrightarrow> client_step K (el, w) (el', w')"
| cl_consume: "consume_wait_result h el = (r, el') \<Longrightarrow> client_step K (el, w) (el', w)"
| cl_stop: "stop fuel K el w = Some (el', w') \<Longrightarrow> client_step K (el, w) (el', w')"
| cl_call: "quietly w w' \<Longrightarrow> client_step K (el, w) (el, w')"

text \<open>The hypothesis on the coroutines: resuming one is a sequence of such steps.\<close>

definition library_client :: "kernel \<Rightarrow> ('c, event_loop) coro_env \<Rightarrow> bool" where
  "library_client K E = (\<forall>h c el w c' el' w'. co_resume E h c el w = (c', el', w') \<longrightarrow>
     (client_step K)\<^sup>*\<^sup>* (el, w) (el', w'))"

text \<open>The states of a loop: constructed, used by clients, run, and emptied of its root tasks.\<close>

inductive loop_reachable ::
    "kernel \<Rightarrow> ('c, event_loop) coro_env \<Rightarrow> 'c \<Rightarrow> event_loop \<Rightarrow> world \<Rightarrow> bool" for K E where
  lr_construct: "event_loop_construct K w = (el, w') \<Longrightarrow> loop_reachable K E c el w'"
| lr_client: "loop_reachable K E c el w \<Longrightarrow> client_step K (el, w) (el', w') \<Longrightarrow> loop_reachable K E c' el' w'"
| lr_run: "loop_reachable K E c el w \<Longrightarrow> run fuel K E c el w = Some (r, c', el', w') \<Longrightarrow>
     loop_reachable K E c' el' w'"
| lr_destroy: "loop_reachable K E c el w \<Longrightarrow> destroy_all_roots E c el = (c', el') \<Longrightarrow>
     loop_reachable K E c' el' w"

subsection \<open>Quiet calls\<close>

lemma quietly_refl [simp, intro]: "quietly w w"
  by (simp add: quietly_def)

lemma quietly_trans [trans]: "quietly w1 w2 \<Longrightarrow> quietly w2 w3 \<Longrightarrow> quietly w1 w3"
  by (fastforce simp: quietly_def)

lemma quietly_sys [simp, intro]: "quiet_call c \<Longrightarrow> quietly w (snd (sys K c w))"
  by (simp add: quietly_def)

lemma sys_quietly: "sys K c w = (a, w') \<Longrightarrow> quiet_call c \<Longrightarrow> quietly w w'"
  by (metis quietly_sys snd_conv)

lemma write_wakeup_quietly: "write_wakeup k K n w = Some w' \<Longrightarrow> quietly w w'"
  by (induction k K n w rule: write_wakeup.induct)
    (auto simp: Let_def split: prod.splits if_splits dest!: sys_quietly intro: quietly_trans)

lemma read_wakeup_quietly: "read_wakeup k K n w = Some w' \<Longrightarrow> quietly w w'"
  by (induction k K n w rule: read_wakeup.induct)
    (auto simp: Let_def split: prod.splits if_splits dest!: sys_quietly intro: quietly_trans)

lemma stop_quietly: "stop k K el w = Some (el', w') \<Longrightarrow> quietly w w' \<and> el' = el\<lparr>stop_requested := True\<rparr>"
  by (auto simp: stop_def Let_def split: if_splits dest: write_wakeup_quietly)

lemma load_stop_quietly:
  assumes "load_stop K el w = (b, el', w')"
  shows "quietly w w'" "el' = el\<lparr>stop_requested := b\<rparr>" "b = stop_requested el'"
proof -
  show "quietly w w'" "b = stop_requested el'"
    using assms by (auto simp: load_stop_def Let_def split: prod.splits if_splits dest!: sys_quietly)
  show "el' = el\<lparr>stop_requested := b\<rparr>"
    using assms by (intro event_loop.equality) (auto simp: load_stop_def Let_def split: prod.splits if_splits)
qed

lemma reactor_wait_quietly: "reactor_wait K n t r w = (res, w') \<Longrightarrow> quietly w w'"
  by (auto simp: reactor_wait_def event_buffer_def Let_def sys_eq quietly_def split: if_splits prod.splits)

lemma wait_timeout_quietly: "wait_timeout K el w = (t, w') \<Longrightarrow> quietly w w'"
  by (auto simp: wait_timeout_def clock_now_eq Let_def split: option.splits if_splits)

subsection \<open>Properties that hold throughout a run\<close>

locale loop_property =
  fixes K :: kernel and P :: "event_loop \<Rightarrow> world \<Rightarrow> bool"
  assumes client: "P el w \<Longrightarrow> client_step K (el, w) (el', w') \<Longrightarrow> P el' w'"
    and bookkeeping: "P el w \<Longrightarrow> P (el\<lparr>ready_queue := q\<rparr>) w" "P el w \<Longrightarrow> P (el\<lparr>root_tasks := hs\<rparr>) w"
      "P el w \<Longrightarrow> P (el\<lparr>stop_requested := b\<rparr>) w"
    and expiry: "P el w \<Longrightarrow> process_expired_waiters K el w = (el', w') \<Longrightarrow> P el' w'"
    and event: "P el w \<Longrightarrow> process_waiter_event K ev el w = (el', w') \<Longrightarrow> P el' w'"
begin

lemma calls: "P el w \<Longrightarrow> quietly w w' \<Longrightarrow> P el w'"
  by (rule client[OF _ cl_call])

lemma resumed:
  assumes "library_client K E" "P el w" "co_resume E h c el w = (c', el', w')"
  shows "P el' w'"
proof -
  have "(client_step K)\<^sup>*\<^sup>* (el, w) (el', w')" using assms(1,3) by (simp add: library_client_def)
  then have "P (fst (el, w)) (snd (el, w)) \<longrightarrow> P (fst (el', w')) (snd (el', w'))"
  proof (induction rule: rtranclp_induct)
    case (step y z)
    then show ?case using client by (metis prod.collapse)
  qed simp
  with assms(2) show ?thesis by simp
qed

lemma stop_load:
  assumes "P el w" "load_stop K el w = (b, el', w')"
  shows "P el' w'"
  using bookkeeping(3)[OF calls[OF assms(1) load_stop_quietly(1)[OF assms(2)]]]
    load_stop_quietly(2)[OF assms(2)] by simp

lemma cleanup: "P el w \<Longrightarrow> cleanup_completed_roots E c el = (c', el') \<Longrightarrow> P el' w"
  by (auto simp: cleanup_completed_roots_def bookkeeping split: prod.splits)

lemma drained:
  assumes "library_client K E"
  shows "drain_ready k K E c el w = Some (c', el', w') \<Longrightarrow> P el w \<Longrightarrow> P el' w'"
proof (induction k arbitrary: c el w)
  case (Suc k)
  show ?case
  proof (cases "ready_queue el")
    case Nil
    with Suc.prems show ?thesis by simp
  next
    case (Cons h q)
    let ?el1 = "el\<lparr>ready_queue := q\<rparr>"
    have p1: "P ?el1 w" using Suc.prems(2) by (rule bookkeeping)
    show ?thesis
    proof (cases "h = 0 \<or> co_done E c h")
      case True
      with Suc p1 Cons show ?thesis by simp
    next
      case False
      obtain c2 el2 w2 where r: "co_resume E h c ?el1 w = (c2, el2, w2)" by (metis prod_cases3)
      obtain c3 el3 where cl: "cleanup_completed_roots E c2 el2 = (c3, el3)" by fastforce
      obtain el4 w4 where ex: "process_expired_waiters K el3 w2 = (el4, w4)" by fastforce
      obtain b el5 w5 where st: "load_stop K el4 w4 = (b, el5, w5)" by (metis prod_cases3)
      have "P el5 w5"
        using stop_load[OF expiry[OF cleanup[OF resumed[OF assms p1 r] cl] ex] st] .
      with Suc Cons False r cl ex st show ?thesis by (auto split: if_splits)
    qed
  qed
qed simp

lemma events_processed:
  "process_ready_events k K evs el w = Some (el', w') \<Longrightarrow> P el w \<Longrightarrow> P el' w'"
proof (induction evs arbitrary: el w)
  case (Cons ev evs)
  have one: "P el1 w1" if "process_ready_event k K ev el w = Some (el1, w1)" for el1 w1
  proof (cases "fd_valid (wake_fd el) \<and> ev_fd ev = fd_get (wake_fd el)")
    case True
    with that Cons.prems(2) show ?thesis
      by (auto simp: process_ready_event_def consume_wakeup_def intro: calls dest: read_wakeup_quietly)
  next
    case False
    with that have "process_waiter_event K ev el w = (el1, w1)" by (auto simp: process_ready_event_def)
    with event Cons.prems(2) show ?thesis by blast
  qed
  with Cons show ?case by (auto split: option.splits if_splits)
qed simp

lemma looped:
  assumes "library_client K E"
  shows "run_loop k K E c el w = Some (ex, c', el', w') \<Longrightarrow> P el w \<Longrightarrow> P el' w'"
proof (induction k arbitrary: c el w)
  case (Suc k)
  obtain b0 el0 w0 where s0: "load_stop K el w = (b0, el0, w0)" by (metis prod_cases3)
  obtain el1 w1 where ex: "process_expired_waiters K el0 w0 = (el1, w1)" by fastforce
  obtain b1 el2 w2 where s1: "load_stop K el1 w1 = (b1, el2, w2)" by (metis prod_cases3)
  have p0: "P el0 w0" using stop_load[OF Suc.prems(2) s0] .
  have p2: "P el2 w2" using stop_load[OF expiry[OF p0 ex] s1] .
  show ?case
  proof (cases "b0 \<or> b1 \<or> loop_error el2 \<noteq> None \<or> drain_ready k K E c el2 w2 = None")
    case True
    with Suc.prems(1) p0 p2 s0 ex s1 show ?thesis by (auto split: if_splits)
  next
    case False
    then obtain c3 el3 w3 where dr: "drain_ready k K E c el2 w2 = Some (c3, el3, w3)" by force
    obtain b3 el4 w4 where s3: "load_stop K el3 w3 = (b3, el4, w4)" by (metis prod_cases3)
    obtain t w5 where wt: "wait_timeout K el4 w4 = (t, w5)" by fastforce
    obtain res w6 where rw: "reactor_wait K 64 t (reactor el4) w5 = (res, w6)" by fastforce
    have p4: "P el4 w4" using stop_load[OF drained[OF assms dr p2] s3] .
    have p6: "P el4 w6"
      using calls[OF calls[OF p4 wait_timeout_quietly[OF wt]] reactor_wait_quietly[OF rw]] .
    have ev: "P el5 w7" if "process_ready_events k K evs el4 w6 = Some (el5, w7)" for evs el5 w7
      using events_processed[OF that p6] .
    from Suc.prems(1) False s0 ex s1 dr s3 wt rw p4 p6 ev Suc.IH show ?thesis
      by (auto split: if_splits sum.splits option.splits)
  qed
qed simp

lemma ran:
  assumes "library_client K E" "run fuel K E c el w = Some (r, c', el', w')"
    "P el w" "P (el\<lparr>stop_requested := False, loop_error := None\<rparr>) w"
  shows "P el' w'"
proof (cases "loop_valid el")
  case True
  let ?el0 = "el\<lparr>stop_requested := False, loop_error := None\<rparr>"
  from True assms(2) obtain ex c1 el1 w1 where l: "run_loop fuel K E c ?el0 w = Some (ex, c1, el1, w1)"
    by (auto simp: run_def split: option.splits)
  have p1: "P el1 w1" using looped[OF assms(1) l assms(4)] .
  obtain c2 el2 where cl: "cleanup_completed_roots E c1 el1 = (c2, el2)" by fastforce
  from cleanup[OF p1 cl] p1 assms(2) True l cl show ?thesis
    by (auto simp: run_def split: loop_exit.splits option.splits)
next
  case False
  with assms show ?thesis by (simp add: run_def)
qed

end

subsection \<open>The tables\<close>

lemma loop_inv_irrelevant [simp]:
  "loop_inv (el\<lparr>stop_requested := b\<rparr>) = loop_inv el" "loop_inv (el\<lparr>ready_queue := q\<rparr>) = loop_inv el"
  "loop_inv (el\<lparr>root_tasks := hs\<rparr>) = loop_inv el" "loop_inv (el\<lparr>loop_error := e\<rparr>) = loop_inv el"
  by (simp_all add: loop_inv_def)

lemma client_step_loop_inv:
  assumes "loop_inv el" "client_step K (el, w) (el', w')"
  shows "loop_inv el'"
  using assms(2,1)
  by (cases rule: client_step.cases)
    (auto simp: loop_inv_simple_ops(1-3) dest: loop_inv_simple_ops(4) arm_waiter_inv dest!: stop_quietly)

interpretation tables: loop_property K "\<lambda>el w. loop_inv el" for K
proof (unfold_locales, goal_cases)
  case (1 el w el' w')
  then show ?case by (rule client_step_loop_inv)
next
  case (5 el w el' w')
  then show ?case using process_expired_waiters_inv by blast
next
  case (6 el w ev el' w')
  then show ?case using process_waiter_event_inv by blast
qed simp_all

lemma construct_inv: "event_loop_construct K w = (el, w') \<Longrightarrow> loop_inv el"
  by (auto simp: event_loop_construct_def fresh_loop_def loop_inv_def table_ok_def Let_def
      split: prod.splits sum.splits if_splits)

lemma loop_reachable_inv:
  assumes "library_client K E" "loop_reachable K E c el w"
  shows "loop_inv el"
  using assms(2)
proof induction
  case (lr_run c el w fuel r c' el' w')
  then show ?case using tables.ran[OF assms(1) lr_run(2)] by simp
qed (auto simp: destroy_all_roots_def construct_inv elim: client_step_loop_inv)

lemma counters_bounded:
  assumes "loop_inv el" "\<forall>(n, s) \<in> set (waiters el). n \<le> int_max"
  shows "timed_waiter_count el \<le> pending_waiter_count el" "pending_waiter_count el \<le> 2 ^ 32"
proof -
  have tab: "table_ok (waiters el)" and cnt: "pending_waiter_count el = alist_sum slot_pending (waiters el)"
    "timed_waiter_count el = alist_sum slot_timed (waiters el)"
    using assms(1) by (simp_all add: loop_inv_def)
  have "alist_sum slot_timed ws \<le> alist_sum slot_pending ws" for ws :: "(int \<times> waiter_slot) list"
    by (induction ws) (auto intro!: add_mono slot_timed_le_pending)
  then show "timed_waiter_count el \<le> pending_waiter_count el" by (simp add: cnt)
  have "length (waiters el) \<le> card {0..int_max}"
    using tab assms(2) by (intro length_le_card_keys) (force simp: table_ok_def)+
  then have "length (waiters el) \<le> 2 ^ 31" by simp
  moreover have "alist_sum slot_pending (waiters el) \<le> 2 * length (waiters el)"
    using slot_pending_le by (rule alist_sum_bound)
  ultimately show "pending_waiter_count el \<le> 2 ^ 32" by (simp add: cnt)
qed

subsection \<open>The kernel's interest masks\<close>

text \<open>The mask the calls of \<^verbatim>\<open>epoll_ctl\<close> have left for a descriptor.\<close>

definition ctl_mask :: "int \<Rightarrow> int \<Rightarrow> ext_call \<Rightarrow> answer \<Rightarrow> 32 word option" where
  "ctl_mask ep n c a = (case c of
       Epoll_ctl e operation m ev \<Rightarrow>
         if e = ep \<and> m = n \<and> (a_ret a = 0 \<or> operation = EPOLL_CTL_DEL \<and> a_errno a = ENOENT)
         then Some (case ev of None \<Rightarrow> 0 | Some (events, _) \<Rightarrow> events) else None
     | _ \<Rightarrow> None)"

fun kernel_mask :: "int \<Rightarrow> int \<Rightarrow> history \<Rightarrow> 32 word" where
  "kernel_mask ep n [] = 0"
| "kernel_mask ep n ((c, a) # tr) =
     (case ctl_mask ep n c a of Some m \<Rightarrow> m | None \<Rightarrow> kernel_mask ep n tr)"

lemma ctl_mask_quiet: "quiet_call c \<Longrightarrow> ctl_mask ep n c a = None"
  by (cases c) (simp_all add: ctl_mask_def)

lemma kernel_mask_quiet:
  assumes "quietly w w'"
  shows "kernel_mask ep n (trace w') = kernel_mask ep n (trace w)"
proof -
  have "\<forall>(c, a) \<in> set new. quiet_call c \<Longrightarrow> kernel_mask ep n (new @ tr) = kernel_mask ep n tr" for new tr
    by (induction new) (auto simp: ctl_mask_quiet)
  with assms show ?thesis by (auto simp: quietly_def)
qed

text \<open>
  \<open>mask_table\<close>: the masks of a table of slots are those of the kernel (the wake-up descriptor is not
  in the table), and each is the one its registrations call for.
\<close>

definition table_mask :: "(int \<times> waiter_slot) list \<Rightarrow> int \<Rightarrow> 32 word" where
  "table_mask ws n = (case map_of ws n of None \<Rightarrow> 0 | Some s \<Rightarrow> registered_mask s)"

definition mask_table :: "int \<Rightarrow> int \<Rightarrow> (int \<times> waiter_slot) list \<Rightarrow> world \<Rightarrow> bool" where
  "mask_table ep wk ws w = (distinct (map fst ws) \<and> (\<forall>(n, s) \<in> set ws. registered_mask s = desired_mask s)
     \<and> (\<forall>n. n \<noteq> wk \<longrightarrow> table_mask ws n = kernel_mask ep n (trace w)))"

definition masks_agree :: "event_loop \<Rightarrow> world \<Rightarrow> bool" where
  "masks_agree el w = mask_table (fd (epoll_fd (reactor el))) (fd (wake_fd el)) (waiters el) w"

lemma mask_table_quiet: "quietly w w' \<Longrightarrow> mask_table ep wk ws w' = mask_table ep wk ws w"
  by (simp add: mask_table_def kernel_mask_quiet)

text \<open>Refreshing a slot keeps its mask the kernel's, and touches no other descriptor.\<close>

lemma reactor_ctl_kernel:
  assumes "reactor_ctl K operation n events has_ev r w = (res, w')"
  shows "kernel_mask (fd (epoll_fd r)) m (trace w') =
    (if m = n \<and> res = Inr () then if has_ev then events else 0
     else kernel_mask (fd (epoll_fd r)) m (trace w))"
  using assms by (auto simp: reactor_ctl_def sys_eq ctl_mask_def Let_def split: if_splits)

lemma refresh_interest_cases:
  assumes "refresh_interest K r n s w = (res, s', w')"
  obtains "registered_mask s = desired_mask s" "res = Inr ()" "s' = s" "w' = w"
  | operation has_ev where "registered_mask s \<noteq> desired_mask s"
      "reactor_ctl K operation n (desired_mask s) has_ev r w = (res, w')" "has_ev \<or> desired_mask s = 0"
proof (cases "registered_mask s = desired_mask s")
  case True
  with assms have "res = Inr ()" "s' = s" "w' = w" by (auto simp: refresh_interest_def Let_def)
  with True show thesis by (rule that(1))
next
  case False
  with assms have "reactor_ctl K (if registered_mask s = 0 then EPOLL_CTL_ADD else if desired_mask s = 0
      then EPOLL_CTL_DEL else EPOLL_CTL_MOD) n (desired_mask s) (registered_mask s = 0 \<or> desired_mask s \<noteq> 0) r w
      = (res, w')"
    by (auto simp: refresh_interest_def reactor_add_def reactor_modify_def reactor_remove_def Let_def
        split: if_splits prod.splits sum.splits)
  with False show thesis by (rule that(2)) auto
qed

lemma refresh_interest_kernel:
  assumes "refresh_interest K r n s w = (res, s', w')"
  shows "kernel_mask (fd (epoll_fd r)) m (trace w') =
      (if m = n \<and> res = Inr () \<and> registered_mask s \<noteq> desired_mask s then desired_mask s
       else kernel_mask (fd (epoll_fd r)) m (trace w))"
  using assms by (cases rule: refresh_interest_cases) (auto simp: reactor_ctl_kernel)

text \<open>
  Replacing the slot of a descriptor by one whose refreshed mask the kernel got, or dropping it
  when nothing waits on it any more.
\<close>

lemma mask_table_replace:
  assumes tab: "mask_table ep wk ws w" and ep: "ep = fd (epoll_fd r)"
    and at: "table_mask ws n = registered_mask s1"
    and ref: "refresh_interest K r n s1 w = (Inr (), s2, w')"
    and d: "distinct (map fst ws')"
    and other: "\<And>m. m \<noteq> n \<Longrightarrow> map_of ws' m = map_of ws m"
    and here: "map_of ws' n = (if slot_idle s2 \<and> erased then None else Some s2)"
  shows "mask_table ep wk ws' w'"
proof -
  have s2: "registered_mask s2 = desired_mask s2" "desired_mask s2 = desired_mask s1"
    using refresh_interest_slot(2)[OF ref] refresh_interest_preserves(4)[OF ref] by simp_all
  have slots: "\<forall>(m, s) \<in> set ws'. registered_mask s = desired_mask s"
  proof safe
    fix m s assume "(m, s) \<in> set ws'"
    with d have "map_of ws' m = Some s" by simp
    then show "registered_mask s = desired_mask s"
      using here other[of m] s2 tab
      by (cases "m = n") (auto simp: mask_table_def split: if_splits dest!: map_of_SomeD)
  qed
  have "table_mask ws' m = kernel_mask ep m (trace w')" if "m \<noteq> wk" for m
  proof (cases "m = n")
    case True
    have "table_mask ws' n = desired_mask s1"
      using here s2 desired_mask_zero[of s2] by (auto simp: table_mask_def)
    then show ?thesis
      using refresh_interest_kernel[OF ref, of n] True tab that at by (simp add: mask_table_def ep)
  next
    case False
    then show ?thesis
      using refresh_interest_kernel[OF ref, of m] tab that other[of m]
      by (simp add: mask_table_def table_mask_def ep)
  qed
  with d slots show ?thesis by (simp add: mask_table_def)
qed

lemma map_of_mid:
  assumes "n \<notin> fst ` set xs"
  shows "map_of (xs @ (n, s) # ys) n = Some s"
proof -
  have "map_of xs n = None" using assms by (simp add: map_of_eq_None_iff)
  then show ?thesis by (simp add: map_add_def)
qed

lemma mask_table_drop_idle:
  assumes tab: "mask_table ep wk (xs @ (n, s) # ys) w" and idle: "slot_idle s"
  shows "mask_table ep wk (xs @ ys) w"
proof -
  have "registered_mask s = 0" using tab idle by (simp add: mask_table_def desired_mask_zero)
  moreover have "map_of (xs @ ys) n = None" using tab by (simp add: mask_table_def map_of_eq_None_iff)
  moreover have "map_of (xs @ (n, s) # ys) n = Some s"
    using tab by (intro map_of_mid) (simp add: mask_table_def)
  ultimately have "table_mask (xs @ ys) m = table_mask (xs @ (n, s) # ys) m" for m
    by (cases "m = n") (simp_all add: table_mask_def map_add_def split: option.splits)
  with tab show ?thesis by (auto simp: mask_table_def)
qed

lemma map_of_mid_update:
  "distinct (map fst (xs @ (n, s) # ys)) \<Longrightarrow> map_of (xs @ (n, s') # ys) m =
     (if m = n then Some s' else map_of (xs @ (n, s) # ys) m)"
  by (auto simp: map_add_def map_of_eq_None_iff split: option.splits dest!: map_of_SomeD)
    (metis fst_conv image_eqI)+

lemma expire_scan_masks:
  assumes "expire_scan K now rest kept nd el w = (True, nd', el', w')"
    and "mask_table (fd (epoll_fd (reactor el))) wk (kept @ rest) w"
  shows "mask_table (fd (epoll_fd (reactor el))) wk (waiters el') w'"
  using assms
proof (induction rest arbitrary: kept nd el w)
  case Nil
  then show ?case by auto
next
  case (Cons p rest)
  obtain n s where p: "p = (n, s)" by (cases p)
  let ?ep = "fd (epoll_fd (reactor el))"
  have tab: "mask_table ?ep wk (kept @ (n, s) # rest) w" using Cons.prems(2) p by simp
  from expire_scan_step[of K now n s rest kept nd el w]
  show ?case
  proof cases
    case (1 e w1)
    with Cons.prems p show ?thesis by simp
  next
    case (2 w1)
    have "mask_table ?ep wk (kept @ (n, expire_slot now s) # rest) w1"
      using 2(3)
    proof
      assume "w1 = w \<and> expire_slot now s = s"
      with tab show ?thesis by simp
    next
      assume ref: "refresh_interest K (reactor el) n (strip_slot now s) w = (Inr (), expire_slot now s, w1)"
      have d: "distinct (map fst (kept @ (n, s) # rest))" using tab by (simp add: mask_table_def)
      have "table_mask (kept @ (n, s) # rest) n = registered_mask (strip_slot now s)"
        using map_of_mid[of n kept s rest] d by (simp add: table_mask_def strip_slot_def)
      from mask_table_replace[OF tab refl this ref, of _ False] d show ?thesis
        using map_of_mid_update[OF d, of "expire_slot now s"] by simp
    qed
    note next_tab = this mask_table_drop_idle[OF this]
    show ?thesis
      using Cons.prems(1) Cons.IH[of _ _ "post_slot now s el"] next_tab 2(1) p
      by (cases "slot_idle (expire_slot now s)") (simp_all del: expire_slot_simps)
  qed
qed

lemma expire_scan_frame:
  assumes "expire_scan K now rest kept nd el w = (fin, nd', el', w')"
  shows "reactor el' = reactor el \<and> wake_fd el' = wake_fd el \<and> init_error el' = init_error el
    \<and> active_task_count el' = active_task_count el \<and> root_tasks el' = root_tasks el"
  using assms
proof (induction rest arbitrary: kept nd el w)
  case (Cons p rest)
  obtain n s where p: "p = (n, s)" by (cases p)
  from expire_scan_step[of K now n s rest kept nd el w] show ?case
  proof cases
    case (1 e w1)
    with Cons.prems p show ?thesis by auto
  next
    case (2 w1)
    with Cons.prems p Cons.IH[of _ _ "post_slot now s el"] show ?thesis
      by (cases "slot_idle (expire_slot now s)") (simp_all del: expire_slot_simps)
  qed
qed auto

lemma mask_table_cong:
  assumes "mask_table ep wk ws w" "distinct (map fst ws')"
    and "\<And>m s. map_of ws' m = Some s \<Longrightarrow> registered_mask s = desired_mask s"
    and "\<And>m. table_mask ws' m = table_mask ws m"
    and "\<And>m. kernel_mask ep m (trace w') = kernel_mask ep m (trace w)"
  shows "mask_table ep wk ws' w'"
  using assms by (auto simp: mask_table_def)

lemma masks_agree_arm_slot:
  assumes "masks_agree el w"
  shows "registered_mask (arm_slot n el) = desired_mask (arm_slot n el)"
    "table_mask (waiters el) n = registered_mask (arm_slot n el)"
  using assms by (auto simp: masks_agree_def mask_table_def arm_slot_def table_mask_def
      split: option.splits dest!: map_of_SomeD)

lemma arm_register_world:
  "arm_register K n h rd timeout terr s el w = (s1, el1, w1) \<Longrightarrow>
     quietly w w1 \<and> registered_mask s1 = registered_mask s \<and> stop_requested el1 = stop_requested el"
  by (auto simp: arm_register_def clock_now_eq Let_def split: option.splits)

lemma arm_waiter_masks:
  assumes inv: "loop_inv el" and agree: "masks_agree el w"
    and arm: "arm_waiter K n h rd timeout terr el w = (res, el', w')"
  shows "masks_agree el' w'"
  using arm
proof (cases rule: arm_waiter_cases)
  case (failed s1 el1 w1 e)
  note eq = arm_rollback_eq[OF arm_entry_inv[OF inv failed(2)] failed(5,4,3)]
  have tab: "mask_table (fd (epoll_fd (reactor el))) (fd (wake_fd el)) (waiters el) w1"
    using agree mask_table_quiet[of w w1] arm_register_world[OF failed(5)] by (simp add: masks_agree_def)
  note slot = masks_agree_arm_slot[OF agree, of n]
  have idle: "slot_idle (arm_slot n el) \<Longrightarrow> registered_mask (arm_slot n el) = 0"
    using slot desired_mask_zero by simp
  have "mask_table (fd (epoll_fd (reactor el))) (fd (wake_fd el)) (waiters el') w'"
  proof (rule mask_table_cong[OF tab])
    show "distinct (map fst (waiters el'))"
      using arm_waiter_inv[OF inv arm] by (simp add: loop_inv_def table_ok_def)
    show "registered_mask s = desired_mask s" if "map_of (waiters el') m = Some s" for m s
      using that slot tab by (auto simp: failed(8) eq update_conv' delete_conv' mask_table_def
          split: if_splits dest!: map_of_SomeD)
    show "table_mask (waiters el') m = table_mask (waiters el) m" for m
      using slot(2) idle by (auto simp: failed(8) eq update_conv' delete_conv' table_mask_def)
    show "kernel_mask (fd (epoll_fd (reactor el))) m (trace w')
        = kernel_mask (fd (epoll_fd (reactor el))) m (trace w1)" for m
      using refresh_interest_kernel[OF failed(6)] by simp
  qed
  then show ?thesis by (simp add: masks_agree_def failed(8) eq)
next
  case (armed s1 el1 w1 s2)
  note reg = arm_register_facts[OF armed(5,4,3)] arm_register_world[OF armed(5)]
  have tab: "mask_table (fd (epoll_fd (reactor el))) (fd (wake_fd el)) (waiters el) w1"
    using agree mask_table_quiet[of w w1] reg(16) by (simp add: masks_agree_def)
  have at: "table_mask (waiters el) n = registered_mask s1"
    using masks_agree_arm_slot(2)[OF agree] reg(16) by simp
  have "distinct (map fst (waiters el'))"
    using arm_waiter_inv[OF inv arm] by (simp add: loop_inv_def table_ok_def)
  from mask_table_replace[OF tab refl at armed(6) this, of False] show ?thesis
    using reg armed(8) by (simp add: masks_agree_def update_conv')
qed (use agree in \<open>simp_all add: masks_agree_def\<close>)

definition masks_ok :: "event_loop \<Rightarrow> world \<Rightarrow> bool" where
  "masks_ok el w = (loop_inv el \<and> (loop_error el = None \<longrightarrow> masks_agree el w))"

lemma masks_ok_quiet:
  assumes "masks_ok el w" "quietly w w'" "loop_inv el'" "loop_error el' = loop_error el"
    "waiters el' = waiters el" "reactor el' = reactor el" "wake_fd el' = wake_fd el"
  shows "masks_ok el' w'"
  using assms by (simp add: masks_ok_def masks_agree_def mask_table_quiet)

lemma arm_waiter_loop_error:
  "loop_inv el \<Longrightarrow> arm_waiter K n h rd timeout terr el w = (res, el', w') \<Longrightarrow> loop_error el' = loop_error el"
proof (erule arm_waiter_cases, goal_cases)
  case (5 s1 el1 w1 e)
  then show ?case using arm_rollback_eq[OF arm_entry_inv[OF 5(1,3)] 5(6,5,4)] by simp
next
  case (6 s1 el1 w1 s2)
  then show ?case using arm_register_facts(9)[OF 6(6,5,4)] by simp
qed simp_all

lemma client_step_masks:
  assumes "masks_ok el w" and step: "client_step K (el, w) (el', w')"
  shows "masks_ok el' w'"
proof -
  have inv: "loop_inv el" and inv': "loop_inv el'"
    using assms client_step_loop_inv by (auto simp: masks_ok_def)
  from step show ?thesis
  proof (cases rule: client_step.cases)
    case (cl_wait n h rd timeout terr r)
    with inv inv' arm_waiter_loop_error[OF inv cl_wait(1)] arm_waiter_masks[OF inv _ cl_wait(1)] assms(1)
    show ?thesis by (simp add: masks_ok_def)
  next
    case (cl_consume h r)
    with inv' assms(1) show ?thesis
      by (elim masks_ok_quiet) (auto simp: consume_wait_result_def split: if_splits option.splits)
  next
    case (cl_stop fuel)
    with inv' assms(1) stop_quietly[OF cl_stop(1)] show ?thesis by (elim masks_ok_quiet) auto
  qed (use assms(1) inv' in \<open>auto simp: on_task_completed_def spawn_def elim!: masks_ok_quiet\<close>)
qed

lemma process_expired_masks:
  assumes ok: "masks_ok el w" and run: "process_expired_waiters K el w = (el', w')"
  shows "masks_ok el' w'"
proof -
  have inv: "loop_inv el'" using ok process_expired_waiters_inv[OF _ run] by (simp add: masks_ok_def)
  have q: "quietly w (snd (sys K Clock_now w))" by simp
  from run show ?thesis
  proof (cases rule: process_expired_cases)
    case none
    with ok inv show ?thesis by (elim masks_ok_quiet) auto
  next
    case (early nd)
    with ok inv q show ?thesis by (elim masks_ok_quiet) auto
  next
    case (aborted nd)
    with inv expire_scan_error[OF aborted(2)] show ?thesis by (auto simp: masks_ok_def)
  next
    case (scanned nd el1)
    note fr = expire_scan_frame[OF scanned(2)] expire_scan_effect[OF scanned(2)]
    have "mask_table (fd (epoll_fd (reactor el))) (fd (wake_fd el)) (waiters el1) w'"
      if "loop_error el = None"
      using ok that mask_table_quiet[OF q]
      by (intro expire_scan_masks[OF scanned(2)]) (simp add: masks_ok_def masks_agree_def)
    with fr inv scanned(3) show ?thesis by (simp add: masks_ok_def masks_agree_def)
  qed
qed

lemma process_waiter_event_masks:
  assumes ok: "masks_ok el w" and run: "process_waiter_event K ev el w = (el', w')"
  shows "masks_ok el' w'"
proof (cases "map_of (waiters el) (ev_fd ev)")
  case None
  with run ok show ?thesis by (simp add: process_waiter_event_def)
next
  case (Some s)
  have inv': "loop_inv el'" using ok process_waiter_event_inv[OF _ run] by (simp add: masks_ok_def)
  obtain s1 el1 where f1: "fire_registration True (ev_events ev) s el = (s1, el1)" by fastforce
  obtain s2 el2 where f2: "fire_registration False (ev_events ev) s1 el1 = (s2, el2)" by fastforce
  obtain r s3 w1 where ref: "refresh_interest K (reactor el2) (ev_fd ev) s2 w = (r, s3, w1)"
    by (metis prod_cases3)
  note fr = fire_registration_frame[OF f1] fire_registration_frame[OF f2]
  show ?thesis
  proof (cases r)
    case (Inl e)
    with run Some f1 f2 ref inv' show ?thesis
      by (auto simp: process_waiter_event_def masks_ok_def)
  next
    case (Inr u)
    with ref fr(3,13) have ref': "refresh_interest K (reactor el) (ev_fd ev) s2 w = (Inr (), s3, w1)" by simp
    from Inr run Some f1 f2 ref have el': "el' = el2\<lparr>waiters := (if slot_idle s3
        then AList.delete (ev_fd ev) (waiters el2) else AList.update (ev_fd ev) s3 (waiters el2))\<rparr>" "w' = w1"
      by (simp_all add: process_waiter_event_def)
    have at: "table_mask (waiters el) (ev_fd ev) = registered_mask s2"
      using Some fr by (simp add: table_mask_def)
    have "distinct (map fst (waiters el'))" using inv' by (simp add: loop_inv_def table_ok_def)
    from mask_table_replace[OF _ refl at ref' this, of _ True] ok show ?thesis
      using fr inv' by (auto simp: masks_ok_def masks_agree_def el' update_conv' delete_conv')
  qed
qed

interpretation masks: loop_property K masks_ok for K
proof (unfold_locales, goal_cases)
  case (1 el w el' w')
  then show ?case by (rule client_step_masks)
next
  case (5 el w el' w')
  then show ?case by (rule process_expired_masks)
next
  case (6 el w ev el' w')
  then show ?case by (rule process_waiter_event_masks)
qed (simp_all add: masks_ok_def masks_agree_def)

end
