(* ===== verification/Event_Loop_Props.thy ===== *)
theory Event_Loop_Props
  imports Event_Loop_Run
begin

section \<open>Properties of the epoll event loop\<close>

text \<open>
  Expiry, readiness and the result of \<^verbatim>\<open>run\<close>: what each step delivers to which coroutine, that the
  loop never sleeps past a deadline, and how \<^verbatim>\<open>run\<close> ends.
\<close>

subsection \<open>Deliveries\<close>

lemma loop_abs_waiters:
  "sp_regs (loop_abs (el\<lparr>waiters := ws\<rparr>)) n rd =
     (case map_of ws n of None \<Rightarrow> None | Some s \<Rightarrow> view_reg (slot_reg rd s))"
  by (simp add: arm_slot_def split: option.splits)

text \<open>
  Ending one registration of one slot is one delivery: \<open>el\<close> and \<open>el'\<close> differ in that registration, the
  result and the ready queue.
\<close>

lemma deliver_one:
  assumes "arm_slot n el = s" "handle (slot_reg rd s) \<noteq> 0"
    and "\<And>m. arm_slot m el' = (if m = n then set_slot_reg rd no_registration s else arm_slot m el)"
    and "delivery_allowed k (handle (slot_reg rd s), deadline (slot_reg rd s), timeout_error (slot_reg rd s))"
    and "wait_results el' = (wait_results el)(handle (slot_reg rd s) \<mapsto>
      delivery_result k (handle (slot_reg rd s), deadline (slot_reg rd s), timeout_error (slot_reg rd s)))"
    and "ready_queue el' = ready_queue el @ [handle (slot_reg rd s)]"
    and "active_task_count el' = active_task_count el"
  shows "deliver k (loop_abs el) (loop_abs el')"
proof -
  let ?v = "(handle (slot_reg rd s), deadline (slot_reg rd s), timeout_error (slot_reg rd s))"
  have eq: "loop_abs el' = sp_post (fst ?v) (delivery_result k ?v) (sp_register n rd None (loop_abs el))"
    using assms(1-3,5-7)
    by (intro loop_abs_eqI) (auto simp: fun_eq_iff set_slot_reg_def slot_reg_def view_reg_def)
  have "sp_regs (loop_abs el) n rd = Some ?v" using assms(1,2) by (simp add: view_reg_def)
  from deliver.intros[OF this assms(4)] show ?thesis by (simp only: eq)
qed

definition slot_replaced ::
    "int \<Rightarrow> waiter_slot \<Rightarrow> waiter_slot \<Rightarrow> (int \<times> waiter_slot) list \<Rightarrow> (int \<times> waiter_slot) list \<Rightarrow> bool" where
  "slot_replaced n s s' ws ws' = (map_of ws n = Some s \<and> map_of ws' = (map_of ws)(n \<mapsto> s'))"

lemma expire_registration_delivers:
  assumes "expire_registration now rd s el = (ch, s', el')" "slot_replaced n s s' ws ws'"
  shows "deliveries (Timed_out now) (loop_abs (el\<lparr>waiters := ws\<rparr>)) (loop_abs (el'\<lparr>waiters := ws'\<rparr>))"
proof (cases "expired now (slot_reg rd s)")
  case True
  then have h: "handle (slot_reg rd s) \<noteq> 0" by (simp add: expired_def)
  have "deliver (Timed_out now) (loop_abs (el\<lparr>waiters := ws\<rparr>)) (loop_abs (el'\<lparr>waiters := ws'\<rparr>))"
    using assms True
    by (intro deliver_one[OF _ h, of n])
      (auto simp: expire_registration_eq slot_replaced_def arm_slot_def expired_def)
  then show ?thesis ..
next
  case False
  with assms have "loop_abs (el'\<lparr>waiters := ws'\<rparr>) = loop_abs (el\<lparr>waiters := ws\<rparr>)"
    by (intro loop_abs_eqI) (auto simp: expire_registration_eq slot_replaced_def arm_slot_def split: option.splits)
  then show ?thesis by simp
qed

lemma fire_registration_delivers:
  assumes "fire_registration rd evs s el = (s', el')" "slot_replaced n s s' ws ws'"
  shows "deliveries Became_ready (loop_abs (el\<lparr>waiters := ws\<rparr>)) (loop_abs (el'\<lparr>waiters := ws'\<rparr>))"
proof (cases "handle (slot_reg rd s) \<noteq> 0 \<and> has_event evs (if rd then kReadReadyMask else kWriteReadyMask)")
  case True
  have "deliver Became_ready (loop_abs (el\<lparr>waiters := ws\<rparr>)) (loop_abs (el'\<lparr>waiters := ws'\<rparr>))"
    using assms True
    by (intro deliver_one[where n = n and rd = rd and s = s])
      (auto simp: fire_registration_eq slot_replaced_def arm_slot_def split: if_splits)
  then show ?thesis ..
next
  case False
  with assms have "loop_abs (el'\<lparr>waiters := ws'\<rparr>) = loop_abs (el\<lparr>waiters := ws\<rparr>)"
    by (intro loop_abs_eqI)
      (auto simp: fire_registration_eq slot_replaced_def arm_slot_def split: option.splits if_splits)
  then show ?thesis by simp
qed

text \<open>The abstraction sees the registrations of the slots only: masks and idle slots do not count.\<close>

lemma loop_abs_table:
  assumes "\<And>n rd. (case map_of ws n of None \<Rightarrow> None | Some s \<Rightarrow> view_reg (slot_reg rd s)) =
      (case map_of ws' n of None \<Rightarrow> None | Some s \<Rightarrow> view_reg (slot_reg rd s))"
  shows "loop_abs (el\<lparr>waiters := ws\<rparr>) = loop_abs (el\<lparr>waiters := ws'\<rparr>)"
  using assms
  by (intro sched_spec.equality ext) (simp_all add: loop_abs_waiters del: loop_abs_simps(1))

lemma slot_replaced_mid:
  assumes "distinct (map fst (kept @ (n, s) # rest))"
  shows "slot_replaced n s s' (kept @ (n, s) # rest) (kept @ (n, s') # rest)"
proof -
  have "map_of (kept @ (n, s) # rest) n = Some s" using assms by (intro map_of_mid) simp
  then show ?thesis
    using map_of_mid_update[OF assms, of s'] by (auto simp: slot_replaced_def simp del: map_of_append)
qed

lemma post_slot_delivers:
  assumes d: "distinct (map fst (kept @ (n, s) # rest))"
  shows "deliveries (Timed_out now) (loop_abs (el\<lparr>waiters := kept @ (n, s) # rest\<rparr>))
    (loop_abs ((post_slot now s el)\<lparr>waiters := kept @ (n, strip_slot now s) # rest\<rparr>))"
proof -
  obtain ch1 s1 el1 where e1: "expire_registration now True s el = (ch1, s1, el1)" by (metis prod_cases3)
  obtain ch2 s2 el2 where e2: "expire_registration now False s1 el1 = (ch2, s2, el2)" by (metis prod_cases3)
  have d1: "distinct (map fst (kept @ (n, s1) # rest))" using d by simp
  note both = expire_both[OF e1 e2]
  show ?thesis
    using expire_registration_delivers[OF e1 slot_replaced_mid[OF d]]
      expire_registration_delivers[OF e2 slot_replaced_mid[OF d1]]
    unfolding both by (rule rtranclp_trans)
qed

lemma expire_scan_delivers:
  assumes "expire_scan K now rest kept nd el w = (fin, nd', el', w')" "distinct (map fst (kept @ rest))"
  shows "deliveries (Timed_out now) (loop_abs (el\<lparr>waiters := kept @ rest\<rparr>)) (loop_abs el')"
  using assms
proof (induction rest arbitrary: kept nd el w)
  case (Cons p rest)
  obtain n s where p: "p = (n, s)" by (cases p)
  have d: "distinct (map fst (kept @ (n, s) # rest))" using Cons.prems(2) p by simp
  note one = post_slot_delivers[OF d, of now el]
  from expire_scan_step[of K now n s rest kept nd el w] show ?case
  proof cases
    case (1 e w1)
    have "loop_abs el' = loop_abs ((post_slot now s el)\<lparr>waiters := kept @ (n, strip_slot now s) # rest\<rparr>)"
      using Cons.prems(1) p 1(1) by (intro loop_abs_eqI) (auto simp: arm_slot_def)
    with one p show ?thesis by simp
  next
    case (2 w1)
    let ?ws = "if slot_idle (expire_slot now s) then kept @ rest else kept @ (n, expire_slot now s) # rest"
    have "loop_abs ((post_slot now s el)\<lparr>waiters := ?ws\<rparr>)
        = loop_abs ((post_slot now s el)\<lparr>waiters := kept @ (n, strip_slot now s) # rest\<rparr>)"
    proof (rule loop_abs_table)
      fix m rd
      have "view_reg (slot_reg rd (expire_slot now s)) = view_reg (slot_reg rd (strip_slot now s))"
        by (cases rd) simp_all
      moreover have "map_of (kept @ rest) n = None" using d by (simp add: map_of_eq_None_iff)
      moreover have "map_of (kept @ rest) m = map_of (kept @ (n, s) # rest) m" if "m \<noteq> n"
        using that by (simp add: map_add_def split: option.splits)
      ultimately show "(case map_of ?ws m of None \<Rightarrow> None | Some s \<Rightarrow> view_reg (slot_reg rd s)) =
          (case map_of (kept @ (n, strip_slot now s) # rest) m of None \<Rightarrow> None | Some s \<Rightarrow> view_reg (slot_reg rd s))"
        using map_of_mid_update[OF d, of "strip_slot now s" m] map_of_mid_update[OF d, of "expire_slot now s" m]
          slot_idle_view[of "expire_slot now s" rd]
        by (cases "m = n") (simp_all del: map_of_append expire_slot_simps)
    qed
    moreover have "deliveries (Timed_out now) (loop_abs ((post_slot now s el)\<lparr>waiters := ?ws\<rparr>)) (loop_abs el')"
    proof (cases "slot_idle (expire_slot now s)")
      case True
      with Cons.prems(1) 2(1) p
      have "expire_scan K now rest kept nd (post_slot now s el) w1 = (fin, nd', el', w')" by simp
      from Cons.IH[OF this] d True show ?thesis by simp
    next
      case False
      with Cons.prems(1) 2(1) p have "expire_scan K now rest (kept @ [(n, expire_slot now s)])
        (min_opt (min_opt nd (reg_deadline (readable (strip_slot now s))))
          (reg_deadline (writable (strip_slot now s)))) (post_slot now s el) w1 = (fin, nd', el', w')" by simp
      from Cons.IH[OF this] d False show ?thesis by simp
    qed
    ultimately show ?thesis using one p by (simp add: rtranclp_trans)
  qed
qed auto

lemma process_expired_delivers:
  assumes inv: "loop_inv el" and run: "process_expired_waiters K el w = (el', w')"
  shows "deliveries (Timed_out (a_num (K (trace w) Clock_now))) (loop_abs el) (loop_abs el')"
proof -
  have d: "distinct (map fst ([] @ waiters el))" using inv by (simp add: loop_inv_def table_ok_def)
  have same: "loop_abs (el1\<lparr>next_deadline := nd, deadline_index_dirty := b\<rparr>) = loop_abs el1" for el1 nd b
    by (intro loop_abs_eqI) (simp_all add: arm_slot_def)
  from run show ?thesis
  proof (cases rule: process_expired_cases)
    case (aborted nd)
    from expire_scan_delivers[OF aborted(2) d] show ?thesis by simp
  next
    case (scanned nd el1)
    from expire_scan_delivers[OF scanned(2) d] show ?thesis by (simp add: scanned(3) same)
  qed (simp_all add: same)
qed

lemma process_waiter_event_delivers:
  assumes "process_waiter_event K ev el w = (el', w')"
  shows "deliveries Became_ready (loop_abs el) (loop_abs el')"
proof (cases "map_of (waiters el) (ev_fd ev)")
  case None
  with assms show ?thesis by (simp add: process_waiter_event_def)
next
  case (Some s)
  let ?n = "ev_fd ev" and ?ws = "waiters el"
  obtain s1 el1 where f1: "fire_registration True (ev_events ev) s el = (s1, el1)" by fastforce
  obtain s2 el2 where f2: "fire_registration False (ev_events ev) s1 el1 = (s2, el2)" by fastforce
  obtain r s3 w1 where ref: "refresh_interest K (reactor el2) ?n s2 w = (r, s3, w1)" by (metis prod_cases3)
  have "slot_replaced ?n s s1 ?ws (AList.update ?n s1 ?ws)"
    "slot_replaced ?n s1 s2 (AList.update ?n s1 ?ws) (AList.update ?n s2 ?ws)"
    using Some by (simp_all add: slot_replaced_def update_conv')
  from fire_registration_delivers[OF f1 this(1)] fire_registration_delivers[OF f2 this(2)]
  have "deliveries Became_ready (loop_abs el) (loop_abs (el2\<lparr>waiters := AList.update ?n s2 ?ws\<rparr>))"
    by simp
  moreover have "loop_abs el' = loop_abs (el2\<lparr>waiters := AList.update ?n s2 ?ws\<rparr>)"
    using assms Some f1 f2 ref fire_registration_frame(1)[OF f1] fire_registration_frame(1)[OF f2]
      refresh_interest_preserves(5,6)[OF ref] slot_idle_view[of s2]
    by (intro loop_abs_eqI)
      (auto simp: process_waiter_event_def arm_slot_def update_conv' delete_conv' split: sum.splits)
  ultimately show ?thesis by simp
qed

lemma process_ready_events_delivers:
  "process_ready_events fuel K evs el w = Some (el', w') \<Longrightarrow> deliveries Became_ready (loop_abs el) (loop_abs el')"
proof (induction evs arbitrary: el w)
  case (Cons ev evs)
  then obtain el1 w1 where one: "process_ready_event fuel K ev el w = Some (el1, w1)"
    by (auto split: option.splits)
  have "deliveries Became_ready (loop_abs el) (loop_abs el1)"
  proof (cases "fd_valid (wake_fd el) \<and> ev_fd ev = fd_get (wake_fd el)")
    case True
    with one show ?thesis by (auto simp: process_ready_event_def)
  next
    case False
    with one have "process_waiter_event K ev el w = (el1, w1)" by (auto simp: process_ready_event_def)
    then show ?thesis by (rule process_waiter_event_delivers)
  qed
  moreover have "deliveries Became_ready (loop_abs el1) (loop_abs el')"
    using Cons.prems one Cons.IH by (auto split: if_splits)
  ultimately show ?case by (rule rtranclp_trans)
qed simp

subsection \<open>Readiness is exact\<close>

text \<open>The registrations of a slot an event mask wakes, the reader first.\<close>

definition wakes :: "32 word \<Rightarrow> bool \<Rightarrow> bool" where
  "wakes evs rd = has_event evs (if rd then kReadReadyMask else kWriteReadyMask)"

definition woken_regs :: "32 word \<Rightarrow> waiter_slot \<Rightarrow> wait_registration list" where
  "woken_regs evs s = map (\<lambda>rd. slot_reg rd s)
     (filter (\<lambda>rd. handle (slot_reg rd s) \<noteq> 0 \<and> wakes evs rd) [True, False])"

definition post_ready :: "wait_registration list \<Rightarrow> (co_handle \<rightharpoonup> unit result) \<Rightarrow> (co_handle \<rightharpoonup> unit result)" where
  "post_ready rs m = fold (\<lambda>r m. m(handle r \<mapsto> Inr ())) rs m"

lemma fire_both:
  assumes "fire_registration True evs s el = (s1, el1)" "fire_registration False evs s1 el1 = (s2, el2)"
  shows "view_reg (slot_reg rd s2) = (if wakes evs rd then None else view_reg (slot_reg rd s))"
    "ready_queue el2 = ready_queue el @ map handle (woken_regs evs s)"
    "wait_results el2 = post_ready (woken_regs evs s) (wait_results el)"
proof -
  show "view_reg (slot_reg rd s2) = (if wakes evs rd then None else view_reg (slot_reg rd s))"
    using assms by (cases rd) (auto simp: fire_registration_eq wakes_def view_reg_def split: if_splits)
qed (use assms in \<open>auto simp: fire_registration_eq woken_regs_def wakes_def post_ready_def split: if_splits\<close>)

lemma process_waiter_event_effect:
  assumes "process_waiter_event K ev el w = (el', w')"
  shows "sp_regs (loop_abs el') n rd =
      (if n = ev_fd ev \<and> wakes (ev_events ev) rd then None else sp_regs (loop_abs el) n rd)"
    and "ready_queue el' = ready_queue el @ map handle (woken_regs (ev_events ev) (arm_slot (ev_fd ev) el))"
    and "wait_results el' = post_ready (woken_regs (ev_events ev) (arm_slot (ev_fd ev) el)) (wait_results el)"
proof -
  have *: "sp_regs (loop_abs el') n rd =
      (if n = ev_fd ev \<and> wakes (ev_events ev) rd then None else sp_regs (loop_abs el) n rd) \<and>
    ready_queue el' = ready_queue el @ map handle (woken_regs (ev_events ev) (arm_slot (ev_fd ev) el)) \<and>
    wait_results el' = post_ready (woken_regs (ev_events ev) (arm_slot (ev_fd ev) el)) (wait_results el)"
  proof (cases "map_of (waiters el) (ev_fd ev)")
    case None
    with assms show ?thesis
      by (auto simp: process_waiter_event_def arm_slot_def woken_regs_def post_ready_def)
  next
    case (Some s)
    obtain s1 el1 where f1: "fire_registration True (ev_events ev) s el = (s1, el1)" by fastforce
    obtain s2 el2 where f2: "fire_registration False (ev_events ev) s1 el1 = (s2, el2)" by fastforce
    obtain r s3 w1 where ref: "refresh_interest K (reactor el2) (ev_fd ev) s2 w = (r, s3, w1)"
      by (metis prod_cases3)
    note both = fire_both[OF f1 f2] fire_registration_frame(1)[OF f1] fire_registration_frame(1)[OF f2]
    have slot: "arm_slot (ev_fd ev) el = s" using Some by (simp add: arm_slot_def)
    have "arm_slot n el' = (if n = ev_fd ev then if r = Inr () \<and> slot_idle s3 then new_slot else s3
        else arm_slot n el)" and q: "ready_queue el' = ready_queue el2" "wait_results el' = wait_results el2"
      using assms Some f1 f2 ref both(4,5)
      by (auto simp: process_waiter_event_def arm_slot_def update_conv' delete_conv' split: sum.splits)
    moreover have "view_reg (slot_reg rd s3) = (if wakes (ev_events ev) rd then None else view_reg (slot_reg rd s))"
      using both(1)[of rd] refresh_interest_preserves(6)[OF ref, of rd] by simp
    moreover note slot_idle_view[of s3 rd]
    ultimately show ?thesis using both(2,3) slot by auto
  qed
  then show "sp_regs (loop_abs el') n rd =
      (if n = ev_fd ev \<and> wakes (ev_events ev) rd then None else sp_regs (loop_abs el) n rd)"
    "ready_queue el' = ready_queue el @ map handle (woken_regs (ev_events ev) (arm_slot (ev_fd ev) el))"
    "wait_results el' = post_ready (woken_regs (ev_events ev) (arm_slot (ev_fd ev) el)) (wait_results el)"
    by blast+
qed

subsection \<open>Expiry is exact\<close>

lemma map_of_surviving:
  "distinct (map fst ws) \<Longrightarrow> map_of (surviving now ws) n = (case map_of ws n of None \<Rightarrow> None
     | Some s \<Rightarrow> if slot_idle (strip_slot now s) then None else Some (expire_slot now s))"
proof (induction ws)
  case (Cons p ws)
  then show ?case
    by (cases p) (auto simp: surviving_def map_of_eq_None_iff image_iff split: option.splits if_splits)
qed simp

lemma due_regs_none:
  "\<forall>(n, s) \<in> set ws. \<not> expired now (readable s) \<and> \<not> expired now (writable s) \<Longrightarrow> due_regs now ws = []"
  by (induction ws) auto

lemma not_expired_early:
  assumes "loop_inv el" "next_deadline el = Some nd" "now < nd" "(n, s) \<in> set (waiters el)"
  shows "\<not> expired now (readable s) \<and> \<not> expired now (writable s)"
  using assms by (fastforce simp: loop_inv_def slot_ok_def expired_def reg_deadline_def split: option.splits)

lemma not_expired_untimed:
  assumes "loop_inv el" "timed_waiter_count el = 0" "(n, s) \<in> set (waiters el)"
  shows "\<not> expired now (readable s) \<and> \<not> expired now (writable s)"
  using loop_inv_untimed(1)[OF assms] by (auto simp: slot_timed_def dest!: expired_armed)

text \<open>What a pass of \<^verbatim>\<open>process_expired_waiters\<close> that met no error leaves.\<close>

definition expiry_effect :: "time \<Rightarrow> event_loop \<Rightarrow> event_loop \<Rightarrow> bool" where
  "expiry_effect now el el' = (
     (\<forall>n rd. sp_regs (loop_abs el') n rd =
        (if expired now (slot_reg rd (arm_slot n el)) then None else sp_regs (loop_abs el) n rd)) \<and>
     ready_queue el' = ready_queue el @ map handle (due_regs now (waiters el)) \<and>
     wait_results el' = post_timeouts (due_regs now (waiters el)) (wait_results el))"

lemma expiry_effect_nothing:
  assumes "\<And>n s. (n, s) \<in> set (waiters el) \<Longrightarrow> \<not> expired now (readable s) \<and> \<not> expired now (writable s)"
    and "waiters el' = waiters el" "ready_queue el' = ready_queue el" "wait_results el' = wait_results el"
  shows "expiry_effect now el el'"
proof -
  have "\<not> expired now (slot_reg rd (arm_slot n el))" for n rd
  proof (cases "map_of (waiters el) n")
    case None
    then show ?thesis by (simp add: arm_slot_def expired_def)
  next
    case (Some s)
    with assms(1)[OF map_of_SomeD[OF Some]] show ?thesis by (cases rd) (simp_all add: arm_slot_def)
  qed
  moreover have "due_regs now (waiters el) = []" using assms(1) by (intro due_regs_none) blast
  ultimately show ?thesis
    using assms(2-4) by (simp add: expiry_effect_def post_timeouts_def arm_slot_def)
qed

lemma process_expired_effect:
  assumes inv: "loop_inv el" and run: "process_expired_waiters K el w = (el', w')"
    and ok: "loop_error el' = None"
  shows "expiry_effect (a_num (K (trace w) Clock_now)) el el'"
  using run
proof (cases rule: process_expired_cases)
  case none
  with not_expired_untimed[OF inv] show ?thesis by (intro expiry_effect_nothing) auto
next
  case (early nd)
  with not_expired_early[OF inv early(3,4)] show ?thesis by (intro expiry_effect_nothing) auto
next
  case (aborted nd)
  with ok expire_scan_error show ?thesis by blast
next
  case (scanned nd el1)
  let ?now = "a_num (K (trace w) Clock_now)"
  note eff = expire_scan_effect[OF scanned(2)]
  have d: "distinct (map fst (waiters el))" using inv by (simp add: loop_inv_def table_ok_def)
  have view: "view_reg (slot_reg rd (strip_slot ?now s)) =
      (if expired ?now (slot_reg rd s) then None else view_reg (slot_reg rd s))" for rd s
    by (cases rd) (simp_all add: strip_slot_def)
  have exp: "slot_reg rd (expire_slot ?now s) = slot_reg rd (strip_slot ?now s)" for rd s
    by (cases rd) simp_all
  have "view_reg (slot_reg rd (arm_slot n el')) = (if expired ?now (slot_reg rd (arm_slot n el))
      then None else view_reg (slot_reg rd (arm_slot n el)))" for n rd
  proof (cases "map_of (waiters el) n")
    case None
    with eff scanned(3) show ?thesis by (simp add: arm_slot_def map_of_surviving[OF d])
  next
    case (Some s)
    with eff scanned(3) have "arm_slot n el' =
        (if slot_idle (strip_slot ?now s) then new_slot else expire_slot ?now s)"
      by (simp add: arm_slot_def map_of_surviving[OF d])
    then have "view_reg (slot_reg rd (arm_slot n el')) = view_reg (slot_reg rd (strip_slot ?now s))"
      using slot_idle_view[of "strip_slot ?now s" rd] exp by auto
    with Some show ?thesis by (simp add: view arm_slot_def)
  qed
  with eff scanned(3) show ?thesis by (simp add: expiry_effect_def)
qed

subsection \<open>Waiting\<close>

lemma wait_timeout_bound:
  assumes inv: "loop_inv el" and at: "map_of (waiters el) n = Some s"
    and dl: "reg_deadline (slot_reg rd s) = Some d" and run: "wait_timeout K el w = (t, w')"
  defines "now \<equiv> a_num (K (trace w) Clock_now)"
  shows "0 \<le> t \<and> t \<le> int_max \<and> (t = 0 \<or> now + t * ns_per_ms \<le> d)"
proof -
  have "le_opt (next_deadline el) (Some d)"
    using loop_inv_slot(4)[OF inv at] dl by (cases rd) (auto simp: slot_ok_def)
  then obtain nd where nd: "next_deadline el = Some nd" "nd \<le> d"
    by (cases "next_deadline el") auto
  have "(nd - now) div ns_per_ms * ns_per_ms \<le> nd - now" for now :: int by simp
  then show ?thesis
    using run nd by (auto simp: wait_timeout_def clock_now_eq now_def Let_def min_def
        intro: order_trans split: if_splits)
qed

subsection \<open>How a run ends\<close>

definition nothing_left :: "event_loop \<Rightarrow> bool" where
  "nothing_left el = (ready_queue el = [] \<and> active_task_count el = 0 \<and> pending_waiter_count el = 0)"

definition exit_ok :: "kernel \<Rightarrow> loop_exit \<Rightarrow> event_loop \<Rightarrow> bool" where
  "exit_ok K ex el = (case ex of
       Loop_break \<Rightarrow> stop_requested el \<or> loop_error el \<noteq> None \<or> nothing_left el
     | Loop_return r \<Rightarrow> ready_queue el = [] \<and> loop_error el = None \<and>
         (if pending_waiter_count el = 0 then 0 < active_task_count el \<and> r = errno_error EDEADLK
          else \<exists>e t w w'. reactor_wait K 64 t (reactor el) w = (Inl e, w') \<and> r = Inl e))"

lemma exit_ok_intros:
  "stop_requested el \<Longrightarrow> exit_ok K Loop_break el" "loop_error el \<noteq> None \<Longrightarrow> exit_ok K Loop_break el"
  "nothing_left el \<Longrightarrow> exit_ok K Loop_break el"
  "ready_queue el = [] \<Longrightarrow> loop_error el = None \<Longrightarrow> pending_waiter_count el = 0 \<Longrightarrow> 0 < active_task_count el \<Longrightarrow>
     exit_ok K (Loop_return (errno_error EDEADLK)) el"
  "ready_queue el = [] \<Longrightarrow> loop_error el = None \<Longrightarrow> 0 < pending_waiter_count el \<Longrightarrow>
     reactor_wait K 64 t (reactor el) w = (Inl e, w') \<Longrightarrow> exit_ok K (Loop_return (Inl e)) el"
  by (auto simp: exit_ok_def)

lemma run_loop_exit:
  "run_loop k K E c el w = Some (ex, c', el', w') \<Longrightarrow> exit_ok K ex el'"
proof (induction k arbitrary: c el w)
  case (Suc k)
  obtain b0 el0 w0 where s0: "load_stop K el w = (b0, el0, w0)" by (metis prod_cases3)
  obtain el1 w1 where ex: "process_expired_waiters K el0 w0 = (el1, w1)" by fastforce
  obtain b1 el2 w2 where s1: "load_stop K el1 w1 = (b1, el2, w2)" by (metis prod_cases3)
  note flags = load_stop_quietly(3)[OF s0] load_stop_quietly(3)[OF s1]
  show ?case
  proof (cases "b0 \<or> b1 \<or> loop_error el2 \<noteq> None \<or> drain_ready k K E c el2 w2 = None")
    case True
    with Suc.prems s0 ex s1 flags show ?thesis by (auto intro: exit_ok_intros split: if_splits)
  next
    case False
    then obtain c3 el3 w3 where dr: "drain_ready k K E c el2 w2 = Some (c3, el3, w3)" by force
    obtain b3 el4 w4 where s3: "load_stop K el3 w3 = (b3, el4, w4)" by (metis prod_cases3)
    obtain t w5 where wt: "wait_timeout K el4 w4 = (t, w5)" by fastforce
    obtain res w6 where rw: "reactor_wait K 64 t (reactor el4) w5 = (res, w6)" by fastforce
    from Suc.prems False s0 ex s1 dr s3 wt rw Suc.IH load_stop_quietly(3)[OF s3] show ?thesis
      by (auto simp: nothing_left_def intro: exit_ok_intros split: if_splits sum.splits option.splits)
  qed
qed simp

lemma cleanup_completed_roots_frame:
  assumes "cleanup_completed_roots E c el = (c', el')"
  shows "loop_error el' = loop_error el" "stop_requested el' = stop_requested el"
    "nothing_left el' = nothing_left el"
  using assms by (auto simp: cleanup_completed_roots_def nothing_left_def split: prod.splits)

lemma run_exit:
  assumes "loop_valid el" "run fuel K E c el w = Some (r, c', el', w')"
  shows "case r of
      Inr _ \<Rightarrow> loop_error el' = None \<and> (stop_requested el' \<or> nothing_left el')
    | Inl e \<Rightarrow> loop_error el' = Some e \<or> exit_ok K (Loop_return (Inl e)) el'"
proof -
  obtain ex c1 el1 w1 where l: "run_loop fuel K E c (el\<lparr>stop_requested := False, loop_error := None\<rparr>) w
      = Some (ex, c1, el1, w1)"
    using assms by (auto simp: run_def split: option.splits)
  note ok = run_loop_exit[OF l]
  show ?thesis
  proof (cases ex)
    case Loop_break
    obtain c2 el2 where cl: "cleanup_completed_roots E c1 el1 = (c2, el2)" by fastforce
    from assms l Loop_break cl ok cleanup_completed_roots_frame[OF cl] show ?thesis
      by (auto simp: run_def exit_ok_def split: option.splits)
  next
    case (Loop_return r')
    with assms l ok show ?thesis by (auto simp: run_def exit_ok_def split: sum.splits if_splits)
  qed
qed

subsection \<open>Progress\<close>

text \<open>
  Coroutines that run to completion when they are resumed: the final awaiter reports the
  completion to the loop, the frame is done, and destroying a frame concerns that frame only.
\<close>

definition runs_to_completion :: "('c, event_loop) coro_env \<Rightarrow> bool" where
  "runs_to_completion E = (\<forall>h c el w. \<exists>c' w'. co_resume E h c el w = (c', on_task_completed el, w') \<and>
     (\<forall>h'. co_done E c' h' = (h' = h \<or> co_done E c h')) \<and>
     (\<forall>h'. h' \<noteq> h \<longrightarrow> co_done E (co_destroy E h c') h' = co_done E c' h'))"

text \<open>
  The same for either loop, \<open>fin\<close> being its \<^verbatim>\<open>on_task_completed\<close>, where it holds only of coroutines in a
  certain state: \<open>J hs c\<close> says what is known of the frames while \<open>hs\<close> have yet to run.
\<close>

definition completes_roots :: "('c, 'l) coro_env \<Rightarrow> ('l \<Rightarrow> 'l) \<Rightarrow> (co_handle list \<Rightarrow> 'c \<Rightarrow> bool) \<Rightarrow> bool" where
  "completes_roots E fin J = (\<forall>h hs c el w. J (h # hs) c \<and> h \<notin> set hs \<longrightarrow>
     (\<exists>c' w'. co_resume E h c el w = (c', fin el, w') \<and> co_done E c' h \<and>
        (\<forall>h' \<in> set hs. co_done E (co_destroy E h c') h' = co_done E c h') \<and> J hs (co_destroy E h c')))"

lemma completes_rootsE:
  assumes "completes_roots E fin J" "J (h # hs) c" "h \<notin> set hs" "\<forall>h' \<in> set hs. \<not> co_done E c h'"
  obtains c' w' where "co_resume E h c el w = (c', fin el, w')" "co_done E c' h" "J hs (co_destroy E h c')"
    "\<forall>h' \<in> set hs. \<not> co_done E (co_destroy E h c') h'"
  using assms unfolding completes_roots_def by metis

lemma runs_to_completion_roots: "runs_to_completion E \<Longrightarrow> completes_roots E on_task_completed (\<lambda>_ _. True)"
  unfolding runs_to_completion_def completes_roots_def by metis

definition never_stopped :: "kernel \<Rightarrow> bool" where
  "never_stopped K = (\<forall>tr. a_ret (K tr Atomic_load_stop) = 0)"

text \<open>Only root tasks that were spawned and have not run yet.\<close>

definition only_roots :: "('c, event_loop) coro_env \<Rightarrow> 'c \<Rightarrow> co_handle list \<Rightarrow> event_loop \<Rightarrow> bool" where
  "only_roots E c hs el = (ready_queue el = hs \<and> root_tasks el = hs \<and> active_task_count el = length hs
     \<and> pending_waiter_count el = 0 \<and> timed_waiter_count el = 0 \<and> loop_error el = None
     \<and> \<not> stop_requested el \<and> distinct hs \<and> 0 \<notin> set hs \<and> (\<forall>h \<in> set hs. \<not> co_done E c h))"

lemma cleanup_roots_none_done: "\<forall>h \<in> set hs. \<not> co_done E c h \<Longrightarrow> cleanup_roots E hs c = (hs, c)"
  by (induction hs) auto

lemma load_stop_never:
  "never_stopped K \<Longrightarrow> \<not> stop_requested el \<Longrightarrow> load_stop K el w = (False, el, snd (sys K Atomic_load_stop w))"
  by (simp add: load_stop_def never_stopped_def sys_eq)

lemma process_expired_untimed:
  "timed_waiter_count el = 0 \<Longrightarrow>
     process_expired_waiters K el w = (el\<lparr>next_deadline := None, deadline_index_dirty := False\<rparr>, w)"
  by (simp add: process_expired_waiters_def)

lemma drain_ready_completes:
  assumes E: "completes_roots E on_task_completed J" and K: "never_stopped K"
  shows "only_roots E c hs el \<Longrightarrow> J hs c \<Longrightarrow> length hs < k \<Longrightarrow>
    \<exists>c' el' w'. drain_ready k K E c el w = Some (c', el', w') \<and> only_roots E c' [] el' \<and> J [] c'"
proof (induction hs arbitrary: k c el w)
  case Nil
  then show ?case by (cases k) (auto simp: only_roots_def)
next
  case (Cons h hs)
  then obtain k' where k: "k = Suc k'" "length hs < k'" by (cases k) auto
  let ?el1 = "el\<lparr>ready_queue := hs\<rparr>"
  obtain c1 w1 where r: "co_resume E h c ?el1 w = (c1, on_task_completed ?el1, w1)" and fin: "co_done E c1 h"
    and J: "J hs (co_destroy E h c1)" and rest: "\<forall>h' \<in> set hs. \<not> co_done E (co_destroy E h c1) h'"
    using completes_rootsE[OF E Cons.prems(2), of ?el1 w] Cons.prems(1) by (auto simp: only_roots_def)
  let ?c2 = "co_destroy E h c1"
  let ?el2 = "(on_task_completed ?el1)\<lparr>root_tasks := hs, next_deadline := None, deadline_index_dirty := False\<rparr>"
  have el: "only_roots E ?c2 hs ?el2"
    using Cons.prems(1) rest by (simp add: only_roots_def on_task_completed_def)
  have cl: "cleanup_completed_roots E c1 (on_task_completed ?el1) = (?c2, (on_task_completed ?el1)\<lparr>root_tasks := hs\<rparr>)"
    using Cons.prems(1) fin cleanup_roots_none_done[OF rest]
    by (simp add: cleanup_completed_roots_def only_roots_def on_task_completed_def)
  have ex: "process_expired_waiters K ((on_task_completed ?el1)\<lparr>root_tasks := hs\<rparr>) w1 = (?el2, w1)"
    using Cons.prems(1) by (subst process_expired_untimed) (simp_all add: only_roots_def on_task_completed_def)
  have st: "load_stop K ?el2 w1 = (False, ?el2, snd (sys K Atomic_load_stop w1))"
    using el by (intro load_stop_never[OF K]) (simp add: only_roots_def)
  have "drain_ready k K E c el w = drain_ready k' K E ?c2 ?el2 (snd (sys K Atomic_load_stop w1))"
    using Cons.prems(1) k(1) r cl ex st el by (simp add: only_roots_def)
  with Cons.IH[OF el J k(2)] show ?case by simp
qed

lemma run_loop_completes:
  assumes E: "completes_roots E on_task_completed J" and K: "never_stopped K" and el: "only_roots E c hs el" and J: "J hs c"
    and k: "Suc (length hs) < k"
  shows "\<exists>c' el' w'. run_loop k K E c el w = Some (Loop_break, c', el', w') \<and> only_roots E c' [] el' \<and> J [] c'"
proof -
  obtain k' where k': "k = Suc k'" "length hs < k'" using k by (cases k) auto
  let ?w0 = "snd (sys K Atomic_load_stop w)" and ?el1 = "el\<lparr>next_deadline := None, deadline_index_dirty := False\<rparr>"
  have el1: "only_roots E c hs ?el1" using el by (simp add: only_roots_def)
  have s0: "load_stop K el w = (False, el, ?w0)" "load_stop K ?el1 ?w0 = (False, ?el1, snd (sys K Atomic_load_stop ?w0))"
    using el by (auto intro!: load_stop_never[OF K] simp: only_roots_def)
  have ex: "process_expired_waiters K el ?w0 = (?el1, ?w0)"
    using el by (intro process_expired_untimed) (simp add: only_roots_def)
  obtain c3 el3 w3 where dr: "drain_ready k' K E c ?el1 (snd (sys K Atomic_load_stop ?w0)) = Some (c3, el3, w3)"
    "only_roots E c3 [] el3" "J [] c3"
    using drain_ready_completes[OF E K el1 J k'(2)] by blast
  have s3: "load_stop K el3 w3 = (False, el3, snd (sys K Atomic_load_stop w3))"
    using dr(2) by (intro load_stop_never[OF K]) (simp add: only_roots_def)
  show ?thesis
    using s0 ex dr s3 el el1 by (simp add: k'(1) only_roots_def)
qed

lemma run_completes_aux:
  assumes "completes_roots E on_task_completed J" "never_stopped K" "loop_valid el" "only_roots E c hs el" "J hs c" "Suc (length hs) < k"
  shows "\<exists>c' el' w'. run k K E c el w = Some (Inr (), c', el', w') \<and> only_roots E c' [] el' \<and> J [] c'"
proof -
  have same: "el\<lparr>stop_requested := False, loop_error := None\<rparr> = el"
    using assms(4) by (intro event_loop.equality) (simp_all add: only_roots_def)
  obtain c1 el1 w1 where l: "run_loop k K E c el w = Some (Loop_break, c1, el1, w1)" "only_roots E c1 [] el1" "J [] c1"
    using run_loop_completes[OF assms(1,2,4,5,6)] by blast
  then have "cleanup_completed_roots E c1 el1 = (c1, el1)"
    by (simp add: cleanup_completed_roots_def only_roots_def)
  with l assms(3) show ?thesis by (simp add: run_def same only_roots_def)
qed

subsection \<open>From construction on\<close>

lemma construct_no_error: "event_loop_construct K w = (el, w') \<Longrightarrow> loop_error el = None"
  by (auto simp: event_loop_construct_def fresh_loop_def Let_def split: prod.splits sum.splits if_splits)

lemma kernel_mask_quiet_history: "\<forall>(c, a) \<in> set tr. quiet_call c \<Longrightarrow> kernel_mask ep n tr = 0"
  by (induction tr) (auto simp: ctl_mask_quiet)

text \<open>The only \<^verbatim>\<open>epoll_ctl\<close> of the construction is on the wake-up descriptor.\<close>

lemma construct_masks:
  assumes "event_loop_construct K w = (el, w')" "\<forall>(c, a) \<in> set (trace w). quiet_call c"
  shows "masks_ok el w'"
proof -
  have inv: "loop_inv el" using assms(1) by (rule construct_inv)
  have ws: "waiters el = []"
    using assms(1)
    by (auto simp: event_loop_construct_def fresh_loop_def Let_def split: prod.splits sum.splits if_splits)
  have "kernel_mask ep n (trace w') = 0" if "n \<noteq> fd (wake_fd el)" for ep n
    using assms that kernel_mask_quiet_history[OF assms(2), of ep n]
    by (auto simp: event_loop_construct_def reactor_create_def reactor_add_def reactor_ctl_def fresh_loop_def
        sys_eq ctl_mask_def Let_def split: prod.splits sum.splits if_splits)
  with inv ws show ?thesis by (simp add: masks_ok_def masks_agree_def mask_table_def table_mask_def)
qed

lemma client_steps_masks:
  assumes "masks_ok el w" "(client_step K)\<^sup>*\<^sup>* (el, w) (el', w')"
  shows "masks_ok el' w'"
  using assms(2,1)
proof (induction rule: rtranclp_induct2)
  case (step el1 w1 el2 w2)
  then show ?case by (blast intro: client_step_masks)
qed simp

lemma client_step_no_error:
  assumes "loop_inv el" "client_step K (el, w) (el', w')" "loop_error el = None"
  shows "loop_error el' = None"
  using assms(2)
  by (cases rule: client_step.cases)
    (use assms in \<open>auto simp: on_task_completed_def spawn_def consume_wait_result_def arm_waiter_loop_error
       dest!: stop_quietly split: if_splits option.splits\<close>)

lemma client_steps_no_error:
  assumes "(client_step K)\<^sup>*\<^sup>* (el, w) (el', w')" "loop_error el = None" "masks_ok el w"
  shows "loop_error el' = None"
  using assms
proof (induction rule: rtranclp_induct2)
  case (step el1 w1 el2 w2)
  have "masks_ok el1 w1" using step.prems(2) step.hyps(1) by (rule client_steps_masks)
  with step show ?case by (intro client_step_no_error[of el1 K w1 el2 w2]) (auto simp: masks_ok_def)
qed simp

end
