(* ===== verification/Event_Loop_Claims.thy ===== *)
theory Event_Loop_Claims
  imports Event_Loop_Props
begin

section \<open>The epoll event loop: what is claimed\<close>

text \<open>
  The properties of the loop, stated over its own definitions, with an example of each. The
  examples share one environment: a kernel that hands out descriptor 3 for the epoll object and 4
  for the wake-up event, whose clock shows as many milliseconds as calls were made, and that
  accepts everything else; and coroutines that complete when they are resumed, the state being
  the list of completed frames.
\<close>

definition demo_kernel :: kernel where
  "demo_kernel tr c = (case c of
       Epoll_create1 \<Rightarrow> ok_answer\<lparr>a_ret := 3\<rparr>
     | Eventfd \<Rightarrow> ok_answer\<lparr>a_ret := 4\<rparr>
     | Clock_now \<Rightarrow> ok_answer\<lparr>a_num := ns_per_ms * int (length tr)\<rparr>
     | _ \<Rightarrow> ok_answer)"

definition demo_env :: "(co_handle list, event_loop) coro_env" where
  "demo_env = \<lparr>co_done = (\<lambda>c h. h \<in> set c),
     co_resume = (\<lambda>h c el w. (h # c, on_task_completed el, w)),
     co_destroy = (\<lambda>h c. removeAll h c)\<rparr>"

definition demo_loop :: "event_loop \<times> world" where
  "demo_loop = event_loop_construct demo_kernel init_world"

definition demo_armed :: "event_loop \<times> world" where
  "demo_armed = snd (arm_waiter demo_kernel 7 11 True (Some 5) (make_error_from_errno ETIMEDOUT)
     (fst demo_loop) (snd demo_loop))"

lemma demo_client: "library_client demo_kernel demo_env"
  by (auto simp: library_client_def demo_env_def intro: cl_completed)

lemma demo_reachable: "loop_reachable demo_kernel demo_env [] (fst demo_armed) (snd demo_armed)"
proof -
  have "loop_reachable demo_kernel demo_env [] (fst demo_loop) (snd demo_loop)"
    by (rule lr_construct[of demo_kernel init_world]) (simp add: demo_loop_def)
  moreover obtain r where "arm_waiter demo_kernel 7 11 True (Some 5) (make_error_from_errno ETIMEDOUT)
      (fst demo_loop) (snd demo_loop) = (r, fst demo_armed, snd demo_armed)"
    by (simp add: demo_armed_def prod_eq_iff)
  ultimately show ?thesis by (blast intro: lr_client cl_wait)
qed

lemma demo_armed_state:
  "waiters (fst demo_armed) = [(7, \<lparr>readable = \<lparr>handle = 11, deadline = Some 8000000,
     timeout_error = make_error_from_errno ETIMEDOUT\<rparr>, writable = no_registration,
     registered_mask = 0x80002019\<rparr>)]"
  "pending_waiter_count (fst demo_armed) = 1" "timed_waiter_count (fst demo_armed) = 1"
  "next_deadline (fst demo_armed) = Some 8000000" "loop_error (fst demo_armed) = None"
  by code_simp+

text \<open>
  C5. In every state a loop can reach, whatever its kernel answers and whatever sequence of
  calls its coroutines make (constructions, waits that succeed, fail or time out, completions,
  stops and runs): every descriptor has one slot, the counter of pending waiters is the number of
  registrations holding a coroutine and the counter of timed waiters the number of those with a
  deadline, the cached next deadline is not after any deadline, a free registration is the
  default one, and the counters stay far below the range of \<^verbatim>\<open>size_t\<close>.
\<close>

theorem loop_tables_consistent:
  assumes "library_client K E" "loop_reachable K E c el w" "\<forall>(n, s) \<in> set (waiters el). n \<le> int_max"
  shows "loop_inv el \<and> timed_waiter_count el \<le> pending_waiter_count el \<and> pending_waiter_count el \<le> 2 ^ 32"
  using loop_reachable_inv[OF assms(1,2)] counters_bounded[OF _ assms(3)] by blast

theorem loop_tables_consistent_witness:
  "loop_inv (fst demo_armed) \<and> pending_waiter_count (fst demo_armed) = 1"
  using loop_tables_consistent[OF demo_client demo_reachable] by (simp add: demo_armed_state)

text \<open>
  C1. No wake-up is lost. Take a loop from its construction, let its clients make any calls and
  run it: unless the run failed, the kernel's interest mask of every descriptor, as the successful
  calls of \<^verbatim>\<open>epoll_ctl\<close> have left it, asks for input exactly if a coroutine waits to read, for
  output exactly if one waits to write, is edge-triggered, and is gone when nobody waits.
\<close>

theorem run_keeps_kernel_interest:
  assumes "library_client K E" and "event_loop_construct K w0 = (el0, w1)"
    and "\<forall>(c, a) \<in> set (trace w0). quiet_call c"
    and "(client_step K)\<^sup>*\<^sup>* (el0, w1) (el, w)"
    and "run fuel K E c el w = Some (r, c', el', w')" and "loop_error el' = None"
    and "n \<noteq> fd (wake_fd el')"
  defines "m \<equiv> kernel_mask (fd (epoll_fd (reactor el'))) n (trace w')"
    and "s \<equiv> arm_slot n el'"
  shows "(m AND EPOLLIN \<noteq> 0 \<longleftrightarrow> handle (readable s) \<noteq> 0) \<and> (m AND EPOLLOUT \<noteq> 0 \<longleftrightarrow> handle (writable s) \<noteq> 0)
    \<and> (m = 0 \<longleftrightarrow> slot_idle s) \<and> (m \<noteq> 0 \<longrightarrow> m AND EPOLLET \<noteq> 0)"
proof -
  have "masks_ok el0 w1" using assms(2,3) by (rule construct_masks)
  then have ok: "masks_ok el w" using assms(4) by (rule client_steps_masks)
  have "loop_error el0 = None" using assms(2) by (rule construct_no_error)
  then have "loop_error el = None" using client_steps_no_error assms(4) \<open>masks_ok el0 w1\<close> by blast
  with ok have "masks_ok (el\<lparr>stop_requested := False, loop_error := None\<rparr>) w"
    by (simp add: masks_ok_def masks_agree_def)
  with masks.ran[OF assms(1,5) ok] assms(6) have "masks_agree el' w'" by (simp add: masks_ok_def)
  from masks_agree_arm_slot[OF this, of n] this assms(7) have "m = desired_mask s"
    by (simp add: m_def s_def masks_agree_def mask_table_def)
  then show ?thesis by (simp add: desired_mask_eq slot_idle_def)
qed

text \<open>A kernel like it, on which another thread has called \<^verbatim>\<open>stop\<close>.\<close>

definition stopping_kernel :: kernel where
  "stopping_kernel tr c = (if c = Atomic_load_stop then ok_answer\<lparr>a_ret := 1\<rparr> else demo_kernel tr c)"

definition stopping_loop :: "event_loop \<times> world" where
  "stopping_loop = event_loop_construct stopping_kernel init_world"

definition stopping_armed :: "event_loop \<times> world" where
  "stopping_armed = snd (arm_waiter stopping_kernel 7 11 True None (make_error_from_errno ETIMEDOUT)
     (fst stopping_loop) (snd stopping_loop))"

lemma stopping_run:
  "map_option (\<lambda>(r, c, el, w). (r, loop_error el, fd (wake_fd el), handle (readable (arm_slot 7 el))))
     (run 3 stopping_kernel demo_env [] (fst stopping_armed) (snd stopping_armed)) = Some (Inr (), None, 4, 11)"
  by code_simp

theorem run_keeps_kernel_interest_witness:
  "\<exists>r c el w. run 3 stopping_kernel demo_env [] (fst stopping_armed) (snd stopping_armed) = Some (r, c, el, w)
     \<and> kernel_mask (fd (epoll_fd (reactor el))) 7 (trace w) AND EPOLLIN \<noteq> 0"
proof -
  obtain c el w where run: "run 3 stopping_kernel demo_env [] (fst stopping_armed) (snd stopping_armed)
      = Some (Inr (), c, el, w)"
    and el: "loop_error el = None" "fd (wake_fd el) = 4" "handle (readable (arm_slot 7 el)) = 11"
    using stopping_run by auto
  have client: "library_client stopping_kernel demo_env"
    by (auto simp: library_client_def demo_env_def intro: cl_completed)
  have "client_step stopping_kernel (fst stopping_loop, snd stopping_loop) (fst stopping_armed, snd stopping_armed)"
    by (rule cl_wait[where r = "fst (arm_waiter stopping_kernel 7 11 True None (make_error_from_errno ETIMEDOUT)
        (fst stopping_loop) (snd stopping_loop))"]) (simp add: stopping_armed_def)
  then have steps: "(client_step stopping_kernel)\<^sup>*\<^sup>* (fst stopping_loop, snd stopping_loop)
      (fst stopping_armed, snd stopping_armed)" ..
  have c: "event_loop_construct stopping_kernel init_world = (fst stopping_loop, snd stopping_loop)"
    by (simp add: stopping_loop_def)
  from run_keeps_kernel_interest[OF client c _ steps run el(1), of 7] el run show ?thesis
    by (auto simp: init_world_def)
qed

text \<open>
  C2. Expiry is exact. A pass of \<^verbatim>\<open>process_expired_waiters\<close> that met no kernel error ends exactly the
  registrations whose deadline is not after the clock reading of the pass, makes exactly their
  coroutines ready, once each and behind those already ready, and gives each the error its wait
  was registered with; also when the pass returns early because the cached deadline is in the
  future or no waiter is timed.
\<close>

theorem expired_waiters_exact:
  assumes "loop_inv el" "process_expired_waiters K el w = (el', w')" "loop_error el' = None"
  defines "now \<equiv> a_num (K (trace w) Clock_now)"
  shows "(\<forall>n rd. sp_regs (loop_abs el') n rd =
        (if expired now (slot_reg rd (arm_slot n el)) then None else sp_regs (loop_abs el) n rd)) \<and>
     ready_queue el' = ready_queue el @ map handle (due_regs now (waiters el)) \<and>
     wait_results el' = post_timeouts (due_regs now (waiters el)) (wait_results el)"
  using process_expired_effect[OF assms(1-3)] unfolding expiry_effect_def now_def .

definition late_kernel :: kernel where
  "late_kernel tr c = (if c = Clock_now then ok_answer\<lparr>a_num := 9000000\<rparr> else demo_kernel tr c)"

theorem expired_waiters_exact_witness:
  "ready_queue (fst (process_expired_waiters late_kernel (fst demo_armed) (snd demo_armed))) = [11]
   \<and> wait_results (fst (process_expired_waiters late_kernel (fst demo_armed) (snd demo_armed))) 11
       = Some (errno_error ETIMEDOUT)"
proof -
  have err: "loop_error (fst (process_expired_waiters late_kernel (fst demo_armed) (snd demo_armed))) = None"
    by code_simp
  have q: "ready_queue (fst demo_armed) = []" by code_simp
  have inv: "loop_inv (fst demo_armed)" using demo_client demo_reachable by (rule loop_reachable_inv)
  have eq: "process_expired_waiters late_kernel (fst demo_armed) (snd demo_armed) =
      (fst (process_expired_waiters late_kernel (fst demo_armed) (snd demo_armed)),
       snd (process_expired_waiters late_kernel (fst demo_armed) (snd demo_armed)))" by simp
  from expired_waiters_exact[OF inv eq err] q show ?thesis
    by (simp add: late_kernel_def demo_armed_state ok_answer_def expired_def post_timeouts_def)
qed

text \<open>
  C7. Readiness is exact. An event for a descriptor ends the read wait if the mask shows input,
  error or hang-up and the write wait if it shows output, error or hang-up, leaves every other
  registration of this and of other descriptors alone, and makes the woken coroutines ready with
  success, the reader first.
\<close>

theorem ready_event_exact:
  assumes "process_waiter_event K ev el w = (el', w')"
  shows "(\<forall>n rd. sp_regs (loop_abs el') n rd =
        (if n = ev_fd ev \<and> wakes (ev_events ev) rd then None else sp_regs (loop_abs el) n rd)) \<and>
     ready_queue el' = ready_queue el @ map handle (woken_regs (ev_events ev) (arm_slot (ev_fd ev) el)) \<and>
     wait_results el' = post_ready (woken_regs (ev_events ev) (arm_slot (ev_fd ev) el)) (wait_results el)"
  using process_waiter_event_effect[OF assms] by blast

theorem ready_event_exact_witness:
  "ready_queue (fst (process_waiter_event demo_kernel \<lparr>ev_fd = 7, ev_events = EPOLLHUP\<rparr>
     (fst demo_armed) (snd demo_armed))) = [11]"
proof -
  have q: "ready_queue (fst demo_armed) = []" by code_simp
  show ?thesis
    using ready_event_exact[of demo_kernel "\<lparr>ev_fd = 7, ev_events = EPOLLHUP\<rparr>" "fst demo_armed" "snd demo_armed"] q
    by (simp add: prod_eq_iff arm_slot_def demo_armed_state woken_regs_def wakes_def has_event_def)
qed

text \<open>
  C11. The loop implements the scheduler's specification. Whatever the kernel answers, also when the
  pass is cut short by an error, the effect of expiry on the registrations, the ready coroutines and
  their results is a sequence of timeouts of registrations that were due; and handling any batch of
  events, spurious, stale and repeated ones and the wake-up event included, ends registrations only by
  posting success to their coroutine, once, and making it ready.
\<close>

theorem loop_ends_waits_by_deliveries:
  assumes "loop_inv el"
  shows "(\<forall>K w el' w'. process_expired_waiters K el w = (el', w') \<longrightarrow>
      deliveries (Timed_out (a_num (K (trace w) Clock_now))) (loop_abs el) (loop_abs el'))
    \<and> (\<forall>fuel K evs w el' w'. process_ready_events fuel K evs el w = Some (el', w') \<longrightarrow>
      deliveries Became_ready (loop_abs el) (loop_abs el'))"
  using process_expired_delivers[OF assms] process_ready_events_delivers by blast

theorem loop_ends_waits_by_deliveries_witness:
  "(\<exists>el w. process_ready_events 1 demo_kernel [\<lparr>ev_fd = 4, ev_events = 1\<rparr>, \<lparr>ev_fd = 7, ev_events = 1\<rparr>]
       (fst demo_armed) (snd demo_armed) = Some (el, w)
     \<and> deliveries Became_ready (loop_abs (fst demo_armed)) (loop_abs el) \<and> ready_queue el = [11])
   \<and> deliveries (Timed_out 9000000) (loop_abs (fst demo_armed))
     (loop_abs (fst (process_expired_waiters late_kernel (fst demo_armed) (snd demo_armed))))"
proof -
  note refines = loop_ends_waits_by_deliveries[OF loop_reachable_inv[OF demo_client demo_reachable]]
  have "map_option (\<lambda>(el, w). ready_queue el) (process_ready_events 1 demo_kernel
      [\<lparr>ev_fd = 4, ev_events = 1\<rparr>, \<lparr>ev_fd = 7, ev_events = 1\<rparr>] (fst demo_armed) (snd demo_armed)) = Some [11]"
    by code_simp
  then obtain el w where run: "process_ready_events 1 demo_kernel
      [\<lparr>ev_fd = 4, ev_events = 1\<rparr>, \<lparr>ev_fd = 7, ev_events = 1\<rparr>] (fst demo_armed) (snd demo_armed) = Some (el, w)"
    "ready_queue el = [11]" by auto
  have "deliveries Became_ready (loop_abs (fst demo_armed)) (loop_abs el)" using refines run(1) by blast
  moreover have "a_num (late_kernel (trace (snd demo_armed)) Clock_now) = 9000000" by (simp add: late_kernel_def ok_answer_def)
  then have "deliveries (Timed_out 9000000) (loop_abs (fst demo_armed))
     (loop_abs (fst (process_expired_waiters late_kernel (fst demo_armed) (snd demo_armed))))"
    using refines prod.collapse by metis
  ultimately show ?thesis using run by blast
qed

text \<open>
  C10. The loop never sleeps past a deadline: while a coroutine waits with a deadline, the timeout
  given to the reactor is not the infinite one, fits the \<^verbatim>\<open>int\<close> of \<^verbatim>\<open>epoll_wait\<close>, and is zero or ends
  no later than the deadline.
\<close>

theorem wait_never_oversleeps:
  assumes "loop_inv el" "map_of (waiters el) n = Some s" "reg_deadline (slot_reg rd s) = Some d"
    and "wait_timeout K el w = (t, w')"
  shows "0 \<le> t \<and> t \<le> int_max \<and> (t = 0 \<or> a_num (K (trace w) Clock_now) + t * ns_per_ms \<le> d)"
  using assms by (rule wait_timeout_bound)

theorem wait_never_oversleeps_witness:
  "\<exists>t w'. wait_timeout demo_kernel (fst demo_armed) (snd demo_armed) = (t, w') \<and> 0 \<le> t \<and> t \<le> int_max
     \<and> (t = 0 \<or> a_num (demo_kernel (trace (snd demo_armed)) Clock_now) + t * ns_per_ms \<le> 8000000)"
proof -
  obtain t w' where run: "wait_timeout demo_kernel (fst demo_armed) (snd demo_armed) = (t, w')" by fastforce
  have inv: "loop_inv (fst demo_armed)" using demo_client demo_reachable by (rule loop_reachable_inv)
  from wait_never_oversleeps[OF inv _ _ run, of 7 _ True 8000000] run show ?thesis
    by (simp add: demo_armed_state reg_deadline_def)
qed


definition demo_stuck :: "(co_handle list, event_loop) coro_env" where
  "demo_stuck = demo_env\<lparr>co_resume := (\<lambda>h c el w. (c, el, w))\<rparr>"


text \<open>
  \<^verbatim>\<open>run\<close> makes progress and ends: spawned root tasks that complete when resumed are all run to
  completion and their frames destroyed, and \<^verbatim>\<open>run\<close> returns success, within as many turns as there
  are tasks and two more.
\<close>

theorem run_completes_roots:
  assumes "runs_to_completion E" "never_stopped K" "loop_valid el" "only_roots E c hs el"
    and "length hs + 2 \<le> fuel"
  shows "\<exists>c' el' w'. run fuel K E c el w = Some (Inr (), c', el', w') \<and> root_tasks el' = [] \<and> nothing_left el'"
proof -
  have "Suc (length hs) < fuel" using assms(5) by simp
  from run_completes_aux[OF runs_to_completion_roots[OF assms(1)] assms(2-4) _ this] show ?thesis
    by (fastforce simp: only_roots_def nothing_left_def)
qed

theorem run_completes_roots_witness:
  "\<exists>c el w. run 4 demo_kernel demo_env [] (spawn 22 (spawn 21 (fst demo_loop))) (snd demo_loop)
       = Some (Inr (), c, el, w) \<and> root_tasks el = [] \<and> nothing_left el"
proof -
  have "runs_to_completion demo_env" by (auto simp: runs_to_completion_def demo_env_def)
  moreover have "never_stopped demo_kernel" by (simp add: never_stopped_def demo_kernel_def ok_answer_def)
  moreover have "loop_valid (spawn 22 (spawn 21 (fst demo_loop)))" by code_simp
  moreover have "only_roots demo_env [] [21, 22] (spawn 22 (spawn 21 (fst demo_loop)))" by code_simp
  ultimately show ?thesis by (rule run_completes_roots) simp
qed

text \<open>
  One waiter per descriptor and direction: while a coroutine waits to read (or to write) a
  descriptor, a second wait for it is refused with \<^verbatim>\<open>EBUSY\<close> and the first keeps its place, its
  deadline and its error.
\<close>

theorem epoll_second_wait_refused:
  assumes "loop_valid el" "loop_inv el" "0 \<le> n" "n \<le> int_max" "h1 \<noteq> 0" "h2 \<noteq> 0" "sp_regs (loop_abs el) n rd = None"
    and "\<forall>t. timeout1 = Some t \<longrightarrow> 0 < t" "\<forall>t. timeout2 = Some t \<longrightarrow> 0 < t"
    and "arm_waiter K n h1 rd timeout1 terr1 el w = (Inr (), el1, w1)" "loop_valid el1"
    and "arm_waiter K n h2 rd timeout2 terr2 el1 w1 = (r2, el2, w2)"
  shows "r2 = errno_error EBUSY \<and> sp_regs (loop_abs el2) n rd = Some (h1, arm_deadline K w timeout1, terr1)"
  using epoll.second_wait_refused[of "(el, w)" n h1 h2 rd timeout1 timeout2 K terr1 "(el1, w1)" terr2 r2 "(el2, w2)"]
    assms by (simp add: epoll_wait_for)

theorem epoll_second_wait_refused_witness:
  "\<exists>el w. arm_waiter demo_kernel 7 12 True None (make_error_from_errno ETIMEDOUT) (fst demo_armed) (snd demo_armed)
       = (errno_error EBUSY, el, w) \<and> sp_regs (loop_abs el) 7 True \<noteq> None"
proof -
  let ?e = "make_error_from_errno ETIMEDOUT"
  have "fst (arm_waiter demo_kernel 7 11 True (Some 5) ?e (fst demo_loop) (snd demo_loop)) = Inr ()"
    by code_simp
  then have ok: "arm_waiter demo_kernel 7 11 True (Some 5) ?e (fst demo_loop) (snd demo_loop)
      = (Inr (), fst demo_armed, snd demo_armed)"
    by (simp add: demo_armed_def prod_eq_iff)
  obtain r el w where run: "arm_waiter demo_kernel 7 12 True None ?e (fst demo_armed) (snd demo_armed) = (r, el, w)"
    by (metis prod_cases3)
  have "loop_valid (fst demo_loop)" "loop_valid (fst demo_armed)" by code_simp+
  moreover have "loop_inv (fst demo_loop)" by (rule construct_inv[of demo_kernel init_world _ "snd demo_loop"]) (simp add: demo_loop_def)
  moreover have "sp_regs (loop_abs (fst demo_loop)) 7 True = None" by code_simp
  ultimately show ?thesis
    using epoll_second_wait_refused[of "fst demo_loop" 7 11 12 True "Some 5" None demo_kernel ?e "snd demo_loop"
      "fst demo_armed" "snd demo_armed" ?e r el w] ok run by (auto simp: view_reg_def split: if_splits)
qed

end
