(* ===== verification/Uring_Reactor.thy ===== *)
theory Uring_Reactor
  imports Core
begin

section \<open>The io_uring reactor\<close>

text \<open>
  \<^verbatim>\<open>uring/reactor\<close>: the wrapper of a ring. The ring itself is liburing's; its calls are
  external, and the state of the wrapper is whether it owns an initialised ring. A completion
  queue entry is the user data and the result the waiting or peeking call reports through its
  pointer.
\<close>

record completion =
  user_data :: "64 word"
  cqe_result :: int

record uring_reactor =
  ring :: bool

definition uring_valid :: "uring_reactor \<Rightarrow> bool" where
  "uring_valid r = ring r"

text \<open>The deleter of the owning pointer.\<close>

definition destroy_ring :: "kernel \<Rightarrow> uring_reactor \<Rightarrow> world \<Rightarrow> world" where
  "destroy_ring K r w = (if \<not> ring r then w else snd (sys K Uring_queue_exit w))"

definition to_kernel_timespec :: "ms \<Rightarrow> int \<times> int" where
  "to_kernel_timespec timeout =
     (let t = (if timeout < 0 then 0 else timeout); seconds = t div 1000
      in (seconds, (t - seconds * 1000) * ns_per_ms))"

text \<open>
  The pointer owns the ring object before it is initialised, so a failed initialisation runs
  the deleter.
\<close>

definition uring_create :: "kernel \<Rightarrow> 32 word \<Rightarrow> world \<Rightarrow> uring_reactor result \<times> world" where
  "uring_create K entries w =
     (if entries = 0 then (errno_error EINVAL, w)
      else
        let (a, w1) = sys K New_ring w
        in if \<not> a_ptr a then (errno_error ENOMEM, w1)
           else
             let (b, w2) = sys K (Uring_queue_init entries) w1
             in if a_ret b < 0
                then (errno_error (- a_ret b), destroy_ring K \<lparr>ring = True\<rparr> w2)
                else (Inr \<lparr>ring = True\<rparr>, w2))"

definition submit_poll_add ::
    "kernel \<Rightarrow> 64 word \<Rightarrow> int \<Rightarrow> 32 word \<Rightarrow> uring_reactor \<Rightarrow> world \<Rightarrow> unit result \<times> world" where
  "submit_poll_add K ud n poll_mask r w =
     (if \<not> uring_valid r then (errno_error EBADF, w)
      else if ud = 0 \<or> n < 0 \<or> poll_mask = 0 then (errno_error EINVAL, w)
      else
        let (a, w1) = sys K Uring_get_sqe w
        in if \<not> a_ptr a then (errno_error EBUSY, w1)
           else (Inr (), snd (sys K (Uring_prep_poll_add n poll_mask ud) w1)))"

definition submit_poll_remove ::
    "kernel \<Rightarrow> 64 word \<Rightarrow> uring_reactor \<Rightarrow> world \<Rightarrow> unit result \<times> world" where
  "submit_poll_remove K target r w =
     (if \<not> uring_valid r then (errno_error EBADF, w)
      else if target = 0 then (errno_error EINVAL, w)
      else
        let (a, w1) = sys K Uring_get_sqe w
        in if \<not> a_ptr a then (errno_error EBUSY, w1)
           else (Inr (), snd (sys K (Uring_prep_poll_remove target 0) w1)))"

definition uring_submit :: "kernel \<Rightarrow> uring_reactor \<Rightarrow> world \<Rightarrow> unit result \<times> world" where
  "uring_submit K r w =
     (if \<not> uring_valid r then (errno_error EBADF, w)
      else
        let (a, w1) = sys K Uring_submit w
        in if a_ret a < 0 then (errno_error (- a_ret a), w1) else (Inr (), w1))"

text \<open>
  \<^verbatim>\<open>consume_cqe\<close>: the entry the call reported is copied and given back to the ring. \<open>peek_loop\<close> is
  the loop after the first one, over the free places of the output span.
\<close>

definition consume_cqe :: "kernel \<Rightarrow> answer \<Rightarrow> world \<Rightarrow> completion \<times> world" where
  "consume_cqe K a w = (\<lparr>user_data = a_user_data a, cqe_result = a_num a\<rparr>, snd (sys K Uring_cqe_seen w))"

fun peek_loop :: "nat \<Rightarrow> kernel \<Rightarrow> completion list \<Rightarrow> world \<Rightarrow> completion list result \<times> world" where
  "peek_loop 0 K acc w = (Inr acc, w)"
| "peek_loop (Suc room) K acc w =
     (let (a, w1) = sys K Uring_peek_cqe w
      in if a_ret a = - EAGAIN \<or> \<not> a_ptr a then (Inr acc, w1)
         else if a_ret a < 0 then (errno_error (- a_ret a), w1)
         else let (c, w2) = consume_cqe K a w1 in peek_loop room K (acc @ [c]) w2)"

definition uring_wait ::
    "kernel \<Rightarrow> nat \<Rightarrow> ms option \<Rightarrow> uring_reactor \<Rightarrow> world \<Rightarrow> completion list result \<times> world" where
  "uring_wait K n timeout r w =
     (if \<not> uring_valid r then (errno_error EBADF, w)
      else if n = 0 then (errno_error EINVAL, w)
      else
        let (a, w1) = (case timeout of
              Some t \<Rightarrow> let (s, ns) = to_kernel_timespec t in sys K (Uring_wait_cqe_timeout s ns) w
            | None \<Rightarrow> sys K Uring_wait_cqe w)
        in if timeout \<noteq> None \<and> (a_ret a = - ETIME \<or> a_ret a = - EINTR) then (Inr [], w1)
           else if timeout = None \<and> a_ret a = - EINTR then (Inr [], w1)
           else if a_ret a < 0 then (errno_error (- a_ret a), w1)
           else let (c, w2) = consume_cqe K a w1 in peek_loop (n - 1) K [c] w2)"

subsection \<open>Facts\<close>

text \<open>A timeout is passed on exactly, as seconds and a nanosecond part in range.\<close>

lemma to_kernel_timespec_exact:
  assumes "to_kernel_timespec t = (s, ns)"
  shows "s * 1000000000 + ns = max 0 t * ns_per_ms" "0 \<le> ns" "ns < 1000000000" "0 \<le> s"
proof -
  define u where "u = max 0 t"
  have m: "s = u div 1000" "ns = (u - u div 1000 * 1000) * ns_per_ms"
    using assms by (auto simp: to_kernel_timespec_def Let_def u_def max_def)
  show "s * 1000000000 + ns = max 0 t * ns_per_ms"
    unfolding u_def[symmetric] m by (simp add: algebra_simps)
  have "u - u div 1000 * 1000 = u mod 1000" by (rule minus_div_mult_eq_mod)
  with m have "ns = u mod 1000 * ns_per_ms" by metis
  moreover have "0 \<le> u mod 1000" "u mod 1000 < 1000" by simp_all
  ultimately show "0 \<le> ns" "ns < 1000000000" by simp_all
  show "0 \<le> s" using m by (simp add: u_def pos_imp_zdiv_nonneg_iff)
qed

lemma uring_ops_extends:
  "extends w (snd (submit_poll_add K ud n m r w))" "extends w (snd (submit_poll_remove K ud r w))"
  "extends w (snd (uring_submit K r w))"
  by (auto simp: submit_poll_add_def submit_poll_remove_def uring_submit_def Let_def sys_eq extends_def)

text \<open>A successful submission has put exactly one request with the given user data into the ring.\<close>

lemma submit_poll_add_ok:
  assumes "submit_poll_add K ud n m r w = (Inr (), w')"
  shows "ud \<noteq> 0" "0 \<le> n" "\<exists>a b. trace w' = (Uring_prep_poll_add n m ud, b) # (Uring_get_sqe, a) # trace w"
  using assms by (auto simp: submit_poll_add_def Let_def sys_eq split: if_splits)

lemma peek_loop_length:
  "peek_loop room K acc w = (Inr cs, w') \<Longrightarrow> length acc \<le> length cs \<and> length cs \<le> length acc + room"
proof (induction room K acc w rule: peek_loop.induct)
  case (2 room K acc w)
  obtain a w1 where s: "sys K Uring_peek_cqe w = (a, w1)" by fastforce
  obtain c w2 where c: "consume_cqe K a w1 = (c, w2)" by fastforce
  show ?case using "2.prems" "2.IH"[OF s[symmetric] refl _ _ c[symmetric] refl] s c
    by (auto split: if_splits)
qed simp

lemma uring_wait_length:
  assumes "uring_wait K n timeout r w = (Inr cs, w')"
  shows "length cs \<le> n"
  using assms
  by (auto simp: uring_wait_def consume_cqe_def Let_def split: if_splits prod.splits option.splits
      dest!: peek_loop_length)

text \<open>
  A ring whose initialisation failed is still handed to \<^verbatim>\<open>io_uring_queue_exit\<close>.
\<close>

lemma uring_create_exits_failed_ring:
  assumes "entries \<noteq> 0" "a_ptr (K (trace w) New_ring)"
    and "a_ret (K ((New_ring, K (trace w) New_ring) # trace w) (Uring_queue_init entries)) < 0"
  shows "\<exists>e w' a. uring_create K entries w = (Inl e, w') \<and> hd (trace w') = (Uring_queue_exit, a)"
  using assms by (simp add: uring_create_def destroy_ring_def Let_def sys_eq)

end
