(* ===== verification/Uring_Event_Loop.thy ===== *)
theory Uring_Event_Loop
  imports Uring_Reactor Event_Loop
begin

section \<open>The io_uring event loop\<close>

text \<open>
  \<^verbatim>\<open>runtime/uring_event_loop\<close>: the scheduler backed by io_uring polls. Each wait is one poll
  request; its token, the request's user data, is kept in the registration and in
  \<^verbatim>\<open>inflight_polls_\<close>, which maps it back to the descriptor and direction. The loop owns a poll on
  its wake-up descriptor under \<^verbatim>\<open>wake_token_\<close>.

  The registration extends the one of the epoll loop with the token. \<^verbatim>\<open>waiters_\<close> and
  \<^verbatim>\<open>inflight_polls_\<close> are association lists; the iteration of \<^verbatim>\<open>process_expired_waiters\<close>, which
  erases only the entry it is at, goes through the keys present when it starts.
\<close>

subsection \<open>State\<close>

record uwait_registration = wait_registration +
  token :: "64 word"

definition no_uregistration :: uwait_registration where
  "no_uregistration = \<lparr>handle = null_handle, deadline = None,
     timeout_error = make_error_from_errno ETIMEDOUT, token = 0\<rparr>"

record uwaiter_slot =
  u_readable :: uwait_registration
  u_writable :: uwait_registration

definition new_uslot :: uwaiter_slot where
  "new_uslot = \<lparr>u_readable = no_uregistration, u_writable = no_uregistration\<rparr>"

record poll_context =
  pc_fd :: int
  pc_readable :: bool

record uring_loop =
  u_reactor :: uring_reactor
  u_init_error :: "error option"
  u_loop_error :: "error option"
  u_ready_queue :: "co_handle list"
  u_waiters :: "(int \<times> uwaiter_slot) list"
  inflight_polls :: "(64 word \<times> poll_context) list"
  u_wait_results :: "co_handle \<rightharpoonup> unit result"
  u_root_tasks :: "co_handle list"
  u_pending_waiter_count :: nat
  u_timed_waiter_count :: nat
  u_active_task_count :: nat
  u_next_deadline :: "time option"
  u_deadline_index_dirty :: bool
  next_token :: "64 word"
  wake_token :: "64 word"
  submission_pending :: bool
  u_stop_requested :: bool
  u_wake_fd :: unique_fd

definition fresh_uring_loop :: uring_loop where
  "fresh_uring_loop = \<lparr>u_reactor = \<lparr>ring = False\<rparr>, u_init_error = None, u_loop_error = None,
     u_ready_queue = [], u_waiters = [], inflight_polls = [], u_wait_results = Map.empty,
     u_root_tasks = [], u_pending_waiter_count = 0, u_timed_waiter_count = 0, u_active_task_count = 0,
     u_next_deadline = None, u_deadline_index_dirty = False, next_token = 1, wake_token = 0,
     submission_pending = False, u_stop_requested = False, u_wake_fd = empty_fd\<rparr>"

text \<open>\<^verbatim>\<open>POLLIN | POLLERR | POLLHUP | POLLRDHUP\<close> and \<^verbatim>\<open>POLLOUT | POLLERR | POLLHUP\<close>.\<close>

abbreviation (input) kReadPollMask :: "32 word" where
  "kReadPollMask \<equiv> 0x1 OR 0x8 OR 0x10 OR 0x2000"
abbreviation (input) kWritePollMask :: "32 word" where
  "kWritePollMask \<equiv> 0x4 OR 0x8 OR 0x10"

definition uslot_reg :: "bool \<Rightarrow> uwaiter_slot \<Rightarrow> uwait_registration" where
  "uslot_reg rd s = (if rd then u_readable s else u_writable s)"

definition set_uslot_reg :: "bool \<Rightarrow> uwait_registration \<Rightarrow> uwaiter_slot \<Rightarrow> uwaiter_slot" where
  "set_uslot_reg rd r s = (if rd then s\<lparr>u_readable := r\<rparr> else s\<lparr>u_writable := r\<rparr>)"

definition uslot_idle :: "uwaiter_slot \<Rightarrow> bool" where
  "uslot_idle s = (handle (u_readable s) = null_handle \<and> handle (u_writable s) = null_handle)"

subsection \<open>Tokens\<close>

text \<open>
  \<^verbatim>\<open>allocate_token\<close>: the counter advances, skipping zero, until it meets a token that is not in
  flight. With \<open>n\<close> polls in flight \<open>n + 2\<close> turns are enough (a theorem of \<open>Uring_Event_Loop_Facts\<close>),
  so that many turns are given; the value after the last is not reached.
\<close>

definition next_token_of :: "64 word \<Rightarrow> 64 word" where
  "next_token_of t = (let t1 = t + 1 in if t1 = 0 then t1 + 1 else t1)"

fun allocate_token_loop ::
    "nat \<Rightarrow> (64 word \<times> poll_context) list \<Rightarrow> 64 word \<Rightarrow> (64 word \<times> 64 word) option" where
  "allocate_token_loop 0 inflight nt = None"
| "allocate_token_loop (Suc k) inflight nt =
     (let t = nt; nt1 = next_token_of nt
      in if t = 0 then allocate_token_loop k inflight nt1
         else if map_of inflight t = None then Some (t, nt1)
         else allocate_token_loop k inflight nt1)"

definition allocate_token :: "uring_loop \<Rightarrow> 64 word \<times> uring_loop" where
  "allocate_token el =
     (case allocate_token_loop (length (inflight_polls el) + 2) (inflight_polls el) (next_token el) of
        Some (t, nt) \<Rightarrow> (t, el\<lparr>next_token := nt\<rparr>)
      | None \<Rightarrow> (0, el))"

subsection \<open>Submissions\<close>

definition flush_submissions :: "kernel \<Rightarrow> uring_loop \<Rightarrow> world \<Rightarrow> unit result \<times> uring_loop \<times> world" where
  "flush_submissions K el w =
     (if \<not> submission_pending el then (Inr (), el, w)
      else case uring_submit K (u_reactor el) w of
          (Inl e, w1) \<Rightarrow> (Inl e, el, w1)
        | (Inr _, w1) \<Rightarrow> (Inr (), el\<lparr>submission_pending := False\<rparr>, w1))"

text \<open>
  A full submission queue (\<^verbatim>\<open>EBUSY\<close>) is flushed once and the request tried again.
\<close>

definition queue_poll_add ::
    "kernel \<Rightarrow> 64 word \<Rightarrow> int \<Rightarrow> 32 word \<Rightarrow> uring_loop \<Rightarrow> world \<Rightarrow> unit result \<times> uring_loop \<times> world" where
  "queue_poll_add K t n poll_mask el w =
     (case submit_poll_add K t n poll_mask (u_reactor el) w of
        (Inr _, w1) \<Rightarrow> (Inr (), el\<lparr>submission_pending := True\<rparr>, w1)
      | (Inl e, w1) \<Rightarrow>
          if error_value e = EBUSY then
            (case flush_submissions K el w1 of
               (Inl e1, el1, w2) \<Rightarrow> (Inl e1, el1, w2)
             | (Inr _, el1, w2) \<Rightarrow>
                 (case submit_poll_add K t n poll_mask (u_reactor el1) w2 of
                    (Inl e2, w3) \<Rightarrow> (Inl e2, el1, w3)
                  | (Inr _, w3) \<Rightarrow> (Inr (), el1\<lparr>submission_pending := True\<rparr>, w3)))
          else (Inl e, el, w1))"

definition removed_status :: "unit result \<Rightarrow> uring_loop \<Rightarrow> world \<Rightarrow> unit result \<times> uring_loop \<times> world" where
  "removed_status r el w =
     (case r of
        Inl e \<Rightarrow> if error_value e = ENOENT then (Inr (), el, w) else (Inl e, el, w)
      | Inr _ \<Rightarrow> (Inr (), el\<lparr>submission_pending := True\<rparr>, w))"

definition queue_poll_remove ::
    "kernel \<Rightarrow> 64 word \<Rightarrow> uring_loop \<Rightarrow> world \<Rightarrow> unit result \<times> uring_loop \<times> world" where
  "queue_poll_remove K t el w =
     (if t = 0 then (Inr (), el, w)
      else case submit_poll_remove K t (u_reactor el) w of
          (Inr u, w1) \<Rightarrow> removed_status (Inr u) el w1
        | (Inl e, w1) \<Rightarrow>
            if error_value e = EBUSY then
              (case flush_submissions K el w1 of
                 (Inl e1, el1, w2) \<Rightarrow> (Inl e1, el1, w2)
               | (Inr _, el1, w2) \<Rightarrow>
                   (let (r, w3) = submit_poll_remove K t (u_reactor el1) w2 in removed_status r el1 w3))
            else removed_status (Inl e) el w1)"

subsection \<open>Construction, scheduling\<close>

definition uring_loop_valid :: "uring_loop \<Rightarrow> bool" where
  "uring_loop_valid el = (u_init_error el = None \<and> uring_valid (u_reactor el))"

definition u_init_failure :: "uring_loop \<Rightarrow> error" where
  "u_init_failure el = (case u_init_error el of Some e \<Rightarrow> e | None \<Rightarrow> make_error_from_errno EINVAL)"

definition uring_loop_construct :: "kernel \<Rightarrow> 32 word \<Rightarrow> world \<Rightarrow> uring_loop \<times> world" where
  "uring_loop_construct K queue_depth w =
     (case uring_create K queue_depth w of
        (Inl e, w1) \<Rightarrow> (fresh_uring_loop\<lparr>u_init_error := Some e\<rparr>, w1)
      | (Inr r, w1) \<Rightarrow>
          let el1 = fresh_uring_loop\<lparr>u_reactor := r\<rparr>; (a, w2) = sys K Eventfd w1
          in if a_ret a < 0 then (el1\<lparr>u_init_error := Some (from_errno w2)\<rparr>, w2)
             else
               let el2 = el1\<lparr>u_wake_fd := make_fd (a_ret a)\<rparr>;
                   (t, el3) = allocate_token el2;
                   el4 = el3\<lparr>wake_token := t\<rparr>
               in (case queue_poll_add K t (fd_get (u_wake_fd el4)) kReadPollMask el4 w2 of
                     (Inl e, el5, w3) \<Rightarrow> (el5\<lparr>u_init_error := Some e\<rparr>, w3)
                   | (Inr _, el5, w3) \<Rightarrow>
                       (case flush_submissions K el5 w3 of
                          (Inl e, el6, w4) \<Rightarrow> (el6\<lparr>u_init_error := Some e\<rparr>, w4)
                        | (Inr _, el6, w4) \<Rightarrow> (el6, w4))))"

definition u_schedule :: "co_handle \<Rightarrow> uring_loop \<Rightarrow> uring_loop" where
  "u_schedule h el = (if h = null_handle then el else el\<lparr>u_ready_queue := u_ready_queue el @ [h]\<rparr>)"

definition u_on_task_completed :: "uring_loop \<Rightarrow> uring_loop" where
  "u_on_task_completed el =
     (if 0 < u_active_task_count el then el\<lparr>u_active_task_count := u_active_task_count el - 1\<rparr> else el)"

definition u_spawn :: "co_handle \<Rightarrow> uring_loop \<Rightarrow> uring_loop" where
  "u_spawn h el =
     (if h = null_handle then el
      else u_schedule h (el\<lparr>u_active_task_count := u_active_task_count el + 1,
                            u_root_tasks := u_root_tasks el @ [h]\<rparr>))"

definition u_stop :: "nat \<Rightarrow> kernel \<Rightarrow> uring_loop \<Rightarrow> world \<Rightarrow> (uring_loop \<times> world) option" where
  "u_stop fuel K el w =
     (let el1 = el\<lparr>u_stop_requested := True\<rparr>
      in if \<not> fd_valid (u_wake_fd el1) then Some (el1, w)
         else map_option (\<lambda>w1. (el1, w1)) (write_wakeup fuel K (fd_get (u_wake_fd el1)) w))"

definition u_consume_wait_result :: "co_handle \<Rightarrow> uring_loop \<Rightarrow> unit result \<times> uring_loop" where
  "u_consume_wait_result h el =
     (if h = null_handle then (errno_error EINVAL, el)
      else case u_wait_results el h of
          None \<Rightarrow> (Inr (), el)
        | Some status \<Rightarrow> (status, el\<lparr>u_wait_results := (u_wait_results el)(h := None)\<rparr>))"

subsection \<open>Arming a waiter\<close>

definition u_arm_register ::
    "kernel \<Rightarrow> int \<Rightarrow> co_handle \<Rightarrow> bool \<Rightarrow> ms option \<Rightarrow> error \<Rightarrow> 64 word \<Rightarrow> uwaiter_slot \<Rightarrow> uring_loop
       \<Rightarrow> world \<Rightarrow> uwaiter_slot \<times> uring_loop \<times> world" where
  "u_arm_register K n h rd timeout terr t slot el w =
     (let (dl, w1) = (case timeout of
            Some ms \<Rightarrow> let (now, w1) = clock_now K w in (Some (now + ms * ns_per_ms), w1)
          | None \<Rightarrow> (None, w));
          slot1 = set_uslot_reg rd \<lparr>handle = h, deadline = dl, timeout_error = terr, token = t\<rparr> slot;
          el1 = (case dl of
              Some d \<Rightarrow> el\<lparr>u_timed_waiter_count := u_timed_waiter_count el + 1,
                  u_next_deadline := (case u_next_deadline el of
                      None \<Rightarrow> Some d | Some nd \<Rightarrow> if d < nd then Some d else Some nd)\<rparr>
            | None \<Rightarrow> el)
      in (slot1,
          el1\<lparr>u_deadline_index_dirty := True,
              u_pending_waiter_count := u_pending_waiter_count el1 + 1,
              u_waiters := AList.update n slot1 (u_waiters el1),
              inflight_polls := AList.update t \<lparr>pc_fd = n, pc_readable = rd\<rparr> (inflight_polls el1)\<rparr>, w1))"

definition u_arm_rollback :: "int \<Rightarrow> bool \<Rightarrow> 64 word \<Rightarrow> uwaiter_slot \<Rightarrow> uring_loop \<Rightarrow> uring_loop" where
  "u_arm_rollback n rd t slot el =
     (let el0 = el\<lparr>inflight_polls := AList.delete t (inflight_polls el)\<rparr>;
          el1 = (if deadline (uslot_reg rd slot) \<noteq> None \<and> 0 < u_timed_waiter_count el0
                 then el0\<lparr>u_timed_waiter_count := u_timed_waiter_count el0 - 1\<rparr> else el0);
          slot1 = set_uslot_reg rd no_uregistration slot;
          el2 = el1\<lparr>u_waiters := AList.update n slot1 (u_waiters el1), u_deadline_index_dirty := True\<rparr>;
          el3 = (if 0 < u_pending_waiter_count el2
                 then el2\<lparr>u_pending_waiter_count := u_pending_waiter_count el2 - 1\<rparr> else el2)
      in if uslot_idle slot1 then el3\<lparr>u_waiters := AList.delete n (u_waiters el3)\<rparr> else el3)"

definition u_arm_waiter ::
    "kernel \<Rightarrow> int \<Rightarrow> co_handle \<Rightarrow> bool \<Rightarrow> ms option \<Rightarrow> error \<Rightarrow> uring_loop \<Rightarrow> world
       \<Rightarrow> unit result \<times> uring_loop \<times> world" where
  "u_arm_waiter K n h rd timeout terr el w =
     (if \<not> uring_loop_valid el then (Inl (u_init_failure el), el, w)
      else if n < 0 \<or> h = null_handle then (errno_error EBADF, el, w)
      else if (case timeout of Some t \<Rightarrow> t \<le> 0 | None \<Rightarrow> False) then
        (Inr (), u_schedule h (el\<lparr>u_wait_results := (u_wait_results el)(h \<mapsto> Inl terr)\<rparr>), w)
      else
        let slot = (case map_of (u_waiters el) n of Some s \<Rightarrow> s | None \<Rightarrow> new_uslot);
            el0 = el\<lparr>u_waiters := AList.update n slot (u_waiters el)\<rparr>
        in if handle (uslot_reg rd slot) \<noteq> null_handle then (errno_error EBUSY, el0, w)
           else
             let (t, el1) = allocate_token el0;
                 (slot1, el2, w1) = u_arm_register K n h rd timeout terr t slot el1 w
             in (case queue_poll_add K t n (if rd then kReadPollMask else kWritePollMask) el2 w1 of
                   (Inl e, el3, w2) \<Rightarrow> (Inl e, u_arm_rollback n rd t slot1 el3, w2)
                 | (Inr _, el3, w2) \<Rightarrow> (Inr (), el3, w2)))"

definition u_wait_for_readable ::
    "kernel \<Rightarrow> int \<Rightarrow> co_handle \<Rightarrow> ms option \<Rightarrow> error \<Rightarrow> uring_loop \<Rightarrow> world
       \<Rightarrow> unit result \<times> uring_loop \<times> world" where
  "u_wait_for_readable K n h timeout terr el w = u_arm_waiter K n h True timeout terr el w"

definition u_wait_for_writable ::
    "kernel \<Rightarrow> int \<Rightarrow> co_handle \<Rightarrow> ms option \<Rightarrow> error \<Rightarrow> uring_loop \<Rightarrow> world
       \<Rightarrow> unit result \<times> uring_loop \<times> world" where
  "u_wait_for_writable K n h timeout terr el w = u_arm_waiter K n h False timeout terr el w"

subsection \<open>Expiry\<close>

text \<open>
  The lambda \<^verbatim>\<open>expire_registration\<close> on the registration of descriptor \<open>n\<close>; \<open>nd\<close> is the earliest deadline
  seen so far.
\<close>

definition u_expire_registration ::
    "kernel \<Rightarrow> time \<Rightarrow> int \<Rightarrow> bool \<Rightarrow> time option \<Rightarrow> uring_loop \<Rightarrow> world \<Rightarrow> time option \<times> uring_loop \<times> world" where
  "u_expire_registration K now n rd nd el w =
     (case map_of (u_waiters el) n of
        None \<Rightarrow> (nd, el, w)
      | Some slot \<Rightarrow>
          let r = uslot_reg rd slot
          in if \<not> expired now r then (min_opt nd (reg_deadline r), el, w)
             else
               let el1 = u_schedule (handle r)
                     (el\<lparr>u_wait_results := (u_wait_results el)(handle r \<mapsto> Inl (timeout_error r))\<rparr>);
                   el2 = (if 0 < u_timed_waiter_count el1
                          then el1\<lparr>u_timed_waiter_count := u_timed_waiter_count el1 - 1\<rparr> else el1);
                   el3 = el2\<lparr>u_waiters := AList.update n (set_uslot_reg rd no_uregistration slot) (u_waiters el2)\<rparr>;
                   el4 = (if 0 < u_pending_waiter_count el3
                          then el3\<lparr>u_pending_waiter_count := u_pending_waiter_count el3 - 1\<rparr> else el3)
               in if token r = 0 then (nd, el4, w)
                  else (case queue_poll_remove K (token r)
                               (el4\<lparr>inflight_polls := AList.delete (token r) (inflight_polls el4)\<rparr>) w of
                          (Inl e, el5, w1) \<Rightarrow>
                            (nd, el5\<lparr>u_loop_error := Some e, u_stop_requested := True\<rparr>, w1)
                        | (Inr _, el5, w1) \<Rightarrow> (nd, el5, w1)))"

definition u_erase_idle :: "int \<Rightarrow> uring_loop \<Rightarrow> uring_loop" where
  "u_erase_idle n el =
     (case map_of (u_waiters el) n of
        None \<Rightarrow> el
      | Some slot \<Rightarrow>
          if uslot_idle slot then el\<lparr>u_waiters := AList.delete n (u_waiters el)\<rparr> else el)"

fun u_expire_scan ::
    "kernel \<Rightarrow> time \<Rightarrow> int list \<Rightarrow> time option \<Rightarrow> uring_loop \<Rightarrow> world
       \<Rightarrow> bool \<times> time option \<times> uring_loop \<times> world" where
  "u_expire_scan K now [] nd el w = (True, nd, el, w)"
| "u_expire_scan K now (n # ns) nd el w =
     (let (nd1, el1, w1) = u_expire_registration K now n True nd el w
      in if u_loop_error el1 \<noteq> None then (False, nd1, el1, w1)
         else
           let (nd2, el2, w2) = u_expire_registration K now n False nd1 el1 w1
           in if u_loop_error el2 \<noteq> None then (False, nd2, el2, w2)
              else u_expire_scan K now ns nd2 (u_erase_idle n el2) w2)"

definition u_process_expired_waiters :: "kernel \<Rightarrow> uring_loop \<Rightarrow> world \<Rightarrow> uring_loop \<times> world" where
  "u_process_expired_waiters K el w =
     (if u_timed_waiter_count el = 0
      then (el\<lparr>u_next_deadline := None, u_deadline_index_dirty := False\<rparr>, w)
      else
        let (now, w1) = clock_now K w
        in if \<not> u_deadline_index_dirty el
              \<and> (case u_next_deadline el of None \<Rightarrow> False | Some nd \<Rightarrow> now < nd)
           then (el, w1)
           else
             (case u_expire_scan K now (map fst (u_waiters el)) None el w1 of
                (False, _, el1, w2) \<Rightarrow> (el1, w2)
              | (True, nd, el1, w2) \<Rightarrow>
                  (el1\<lparr>u_next_deadline := nd, u_deadline_index_dirty := False\<rparr>, w2)))"

subsection \<open>Completions\<close>

definition u_consume_wakeup :: "nat \<Rightarrow> kernel \<Rightarrow> uring_loop \<Rightarrow> world \<Rightarrow> world option" where
  "u_consume_wakeup fuel K el w =
     (if \<not> fd_valid (u_wake_fd el) then Some w else read_wakeup fuel K (fd_get (u_wake_fd el)) w)"

definition u_load_stop :: "kernel \<Rightarrow> uring_loop \<Rightarrow> world \<Rightarrow> bool \<times> uring_loop \<times> world" where
  "u_load_stop K el w =
     (let (a, w1) = sys K Atomic_load_stop w;
          el1 = (if a_ret a \<noteq> 0 then el\<lparr>u_stop_requested := True\<rparr> else el)
      in (u_stop_requested el1, el1, w1))"

definition u_fail :: "error \<Rightarrow> uring_loop \<Rightarrow> uring_loop" where
  "u_fail e el = el\<lparr>u_loop_error := Some e, u_stop_requested := True\<rparr>"

text \<open>The branch for the loop's own poll.\<close>

definition process_wake_completion ::
    "nat \<Rightarrow> kernel \<Rightarrow> uring_loop \<Rightarrow> world \<Rightarrow> (uring_loop \<times> world) option" where
  "process_wake_completion fuel K el w =
     (case u_consume_wakeup fuel K el w of
        None \<Rightarrow> None
      | Some w1 \<Rightarrow>
          let (stopped, el1, w2) = u_load_stop K el w1
          in if stopped then Some (el1, w2)
             else (case queue_poll_add K (wake_token el1) (fd_get (u_wake_fd el1)) kReadPollMask el1 w2 of
                     (Inl e, el2, w3) \<Rightarrow> Some (u_fail e el2, w3)
                   | (Inr _, el2, w3) \<Rightarrow>
                       (case flush_submissions K el2 w3 of
                          (Inl e, el3, w4) \<Rightarrow> Some (u_fail e el3, w4)
                        | (Inr _, el3, w4) \<Rightarrow> Some (el3, w4))))"

definition process_poll_completion :: "completion \<Rightarrow> uring_loop \<Rightarrow> uring_loop" where
  "process_poll_completion c el =
     (case map_of (inflight_polls el) (user_data c) of
        None \<Rightarrow> el
      | Some ctx \<Rightarrow>
          let el1 = el\<lparr>inflight_polls := AList.delete (user_data c) (inflight_polls el)\<rparr>
          in case map_of (u_waiters el1) (pc_fd ctx) of
               None \<Rightarrow> el1
             | Some slot \<Rightarrow>
                 let r = uslot_reg (pc_readable ctx) slot
                 in if handle r = null_handle \<or> token r \<noteq> user_data c then el1
                    else
                      let status = (if 0 \<le> cqe_result c then Inr () else errno_error (- cqe_result c));
                          el2 = u_schedule (handle r)
                            (el1\<lparr>u_wait_results := (u_wait_results el1)(handle r \<mapsto> status)\<rparr>);
                          el3 = (if deadline r \<noteq> None \<and> 0 < u_timed_waiter_count el2
                                 then el2\<lparr>u_timed_waiter_count := u_timed_waiter_count el2 - 1,
                                          u_deadline_index_dirty := True\<rparr> else el2);
                          slot1 = set_uslot_reg (pc_readable ctx) no_uregistration slot;
                          el4 = el3\<lparr>u_waiters := AList.update (pc_fd ctx) slot1 (u_waiters el3)\<rparr>;
                          el5 = (if 0 < u_pending_waiter_count el4
                                 then el4\<lparr>u_pending_waiter_count := u_pending_waiter_count el4 - 1\<rparr> else el4)
                      in if uslot_idle slot1
                         then el5\<lparr>u_waiters := AList.delete (pc_fd ctx) (u_waiters el5)\<rparr> else el5)"

definition process_completion ::
    "nat \<Rightarrow> kernel \<Rightarrow> completion \<Rightarrow> uring_loop \<Rightarrow> world \<Rightarrow> (uring_loop \<times> world) option" where
  "process_completion fuel K c el w =
     (if user_data c = 0 then Some (el, w)
      else if user_data c = wake_token el then process_wake_completion fuel K el w
      else Some (process_poll_completion c el, w))"

fun process_completions ::
    "nat \<Rightarrow> kernel \<Rightarrow> completion list \<Rightarrow> uring_loop \<Rightarrow> world \<Rightarrow> (uring_loop \<times> world) option" where
  "process_completions fuel K [] el w = Some (el, w)"
| "process_completions fuel K (c # cs) el w =
     (case process_completion fuel K c el w of
        None \<Rightarrow> None
      | Some (el1, w1) \<Rightarrow>
          if u_loop_error el1 \<noteq> None then Some (el1, w1) else process_completions fuel K cs el1 w1)"

subsection \<open>Running\<close>

definition u_wait_timeout :: "kernel \<Rightarrow> uring_loop \<Rightarrow> world \<Rightarrow> ms option \<times> world" where
  "u_wait_timeout K el w =
     (case u_next_deadline el of
        None \<Rightarrow> (None, w)
      | Some nd \<Rightarrow>
          let (now, w1) = clock_now K w; remaining = nd - now
          in if remaining \<le> 0 then (Some 0, w1)
             else (Some (min (remaining div ns_per_ms) int_max), w1))"

definition u_cleanup_completed_roots ::
    "('c, uring_loop) coro_env \<Rightarrow> 'c \<Rightarrow> uring_loop \<Rightarrow> 'c \<times> uring_loop" where
  "u_cleanup_completed_roots E c el =
     (let (hs, c1) = cleanup_roots E (u_root_tasks el) c in (c1, el\<lparr>u_root_tasks := hs\<rparr>))"

definition u_destroy_all_roots ::
    "('c, uring_loop) coro_env \<Rightarrow> 'c \<Rightarrow> uring_loop \<Rightarrow> 'c \<times> uring_loop" where
  "u_destroy_all_roots E c el =
     (fold (\<lambda>h c1. if h \<noteq> null_handle then co_destroy E h c1 else c1) (u_root_tasks el) c,
      el\<lparr>u_root_tasks := [], u_waiters := [], inflight_polls := [], u_wait_results := Map.empty,
         u_pending_waiter_count := 0, u_active_task_count := 0\<rparr>)"

fun u_drain_ready ::
    "nat \<Rightarrow> kernel \<Rightarrow> ('c, uring_loop) coro_env \<Rightarrow> 'c \<Rightarrow> uring_loop \<Rightarrow> world
       \<Rightarrow> ('c \<times> uring_loop \<times> world) option" where
  "u_drain_ready 0 K E c el w = None"
| "u_drain_ready (Suc k) K E c el w =
     (case u_ready_queue el of
        [] \<Rightarrow> Some (c, el, w)
      | h # q \<Rightarrow>
          let el1 = el\<lparr>u_ready_queue := q\<rparr>
          in if h = null_handle \<or> co_done E c h then u_drain_ready k K E c el1 w
             else
               let (c2, el2, w2) = co_resume E h c el1 w;
                   (c3, el3) = u_cleanup_completed_roots E c2 el2;
                   (el4, w4) = u_process_expired_waiters K el3 w2;
                   (stopped, el5, w5) = u_load_stop K el4 w4
               in if stopped \<or> u_loop_error el5 \<noteq> None then Some (c3, el5, w5)
                  else u_drain_ready k K E c3 el5 w5)"

fun u_run_loop ::
    "nat \<Rightarrow> kernel \<Rightarrow> ('c, uring_loop) coro_env \<Rightarrow> 'c \<Rightarrow> uring_loop \<Rightarrow> world
       \<Rightarrow> (loop_exit \<times> 'c \<times> uring_loop \<times> world) option" where
  "u_run_loop 0 K E c el w = None"
| "u_run_loop (Suc k) K E c el w =
     (let (stop0, el0, w0) = u_load_stop K el w
      in if stop0 then Some (Loop_break, c, el0, w0)
         else
           let (el1, w1) = u_process_expired_waiters K el0 w0;
               (stop1, el2, w2) = u_load_stop K el1 w1
           in if stop1 \<or> u_loop_error el2 \<noteq> None then Some (Loop_break, c, el2, w2)
              else
                (case u_drain_ready k K E c el2 w2 of
                   None \<Rightarrow> None
                 | Some (c3, el3, w3) \<Rightarrow>
                     let (stop3, el4, w4) = u_load_stop K el3 w3
                     in if stop3 \<or> u_loop_error el4 \<noteq> None then Some (Loop_break, c3, el4, w4)
                        else if u_ready_queue el4 = [] then
                          if u_active_task_count el4 = 0 \<and> u_pending_waiter_count el4 = 0
                          then Some (Loop_break, c3, el4, w4)
                          else if u_pending_waiter_count el4 = 0
                          then Some (Loop_return (errno_error EDEADLK), c3, el4, w4)
                          else
                            let (timeout, w5) = u_wait_timeout K el4 w4
                            in (case flush_submissions K el4 w5 of
                                  (Inl e, el5, w6) \<Rightarrow> Some (Loop_return (Inl e), c3, el5, w6)
                                | (Inr _, el5, w6) \<Rightarrow>
                                    (case uring_wait K 64 timeout (u_reactor el5) w6 of
                                       (Inl e, w7) \<Rightarrow> Some (Loop_return (Inl e), c3, el5, w7)
                                     | (Inr cs, w7) \<Rightarrow>
                                         (case process_completions k K cs el5 w7 of
                                            None \<Rightarrow> None
                                          | Some (el6, w8) \<Rightarrow> u_run_loop k K E c3 el6 w8)))
                        else u_run_loop k K E c3 el4 w4))"

definition u_run ::
    "nat \<Rightarrow> kernel \<Rightarrow> ('c, uring_loop) coro_env \<Rightarrow> 'c \<Rightarrow> uring_loop \<Rightarrow> world
       \<Rightarrow> (unit result \<times> 'c \<times> uring_loop \<times> world) option" where
  "u_run fuel K E c el w =
     (if \<not> uring_loop_valid el then Some (Inl (u_init_failure el), c, el, w)
      else
        case u_run_loop fuel K E c (el\<lparr>u_stop_requested := False, u_loop_error := None\<rparr>) w of
          None \<Rightarrow> None
        | Some (Loop_return r, c1, el1, w1) \<Rightarrow> Some (r, c1, el1, w1)
        | Some (Loop_break, c1, el1, w1) \<Rightarrow>
            let (c2, el2) = u_cleanup_completed_roots E c1 el1;
                (r, el3, w2) = flush_submissions K el2 w1;
                el4 = (case r of
                    Inl e \<Rightarrow> if u_loop_error el3 = None then el3\<lparr>u_loop_error := Some e\<rparr> else el3
                  | Inr _ \<Rightarrow> el3)
            in (case u_loop_error el4 of
                  Some e \<Rightarrow> Some (Inl e, c2, el4, w2)
                | None \<Rightarrow> Some (Inr (), c2, el4, w2)))"

end
