(* ===== verification/Uring_Event_Loop_Facts.thy ===== *)
theory Uring_Event_Loop_Facts
  imports Uring_Event_Loop Event_Loop_Facts
begin

section \<open>Correctness of the io_uring event loop\<close>

text \<open>
  The invariant: the tables and counters as in the epoll loop, and the tokens. A registration that
  holds a coroutine has a non-zero token that \<^verbatim>\<open>inflight_polls_\<close> maps back to it, and every entry of
  \<^verbatim>\<open>inflight_polls_\<close> belongs to such a registration; so a completion finds exactly the wait it
  belongs to, and one that finds none is stale.
\<close>

subsection \<open>Invariant\<close>

definition u_slot :: "int \<Rightarrow> uring_loop \<Rightarrow> uwaiter_slot" where
  "u_slot n el = (case map_of (u_waiters el) n of Some s \<Rightarrow> s | None \<Rightarrow> new_uslot)"

definition ureg :: "int \<Rightarrow> bool \<Rightarrow> uring_loop \<Rightarrow> uwait_registration" where
  "ureg n rd el = uslot_reg rd (u_slot n el)"

definition uslot_pending :: "uwaiter_slot \<Rightarrow> nat" where
  "uslot_pending s = of_bool (handle (u_readable s) \<noteq> 0) + of_bool (handle (u_writable s) \<noteq> 0)"

definition uslot_timed :: "uwaiter_slot \<Rightarrow> nat" where
  "uslot_timed s = of_bool (reg_deadline (u_readable s) \<noteq> None) + of_bool (reg_deadline (u_writable s) \<noteq> None)"

definition ureg_clean :: "uwait_registration \<Rightarrow> bool" where
  "ureg_clean r = (handle r = 0 \<longrightarrow> r = no_uregistration)"

definition uslot_ok :: "time option \<Rightarrow> uwaiter_slot \<Rightarrow> bool" where
  "uslot_ok nd s = (\<forall>rd. le_opt nd (reg_deadline (uslot_reg rd s)) \<and> ureg_clean (uslot_reg rd s))"

definition ucounts :: "uring_loop \<Rightarrow> bool" where
  "ucounts el = (distinct (map fst (u_waiters el)) \<and> fst ` set (u_waiters el) \<subseteq> {0..int_max}
     \<and> u_pending_waiter_count el = alist_sum uslot_pending (u_waiters el)
     \<and> u_timed_waiter_count el = alist_sum uslot_timed (u_waiters el)
     \<and> (\<forall>(n, s) \<in> set (u_waiters el). uslot_ok (u_next_deadline el) s))"

definition utokens :: "uring_loop \<Rightarrow> bool" where
  "utokens el = (next_token el \<noteq> 0
     \<and> (\<forall>n rd. handle (ureg n rd el) \<noteq> 0 \<longrightarrow>
          map_of (inflight_polls el) (token (ureg n rd el)) = Some \<lparr>pc_fd = n, pc_readable = rd\<rparr>)
     \<and> (\<forall>t n rd. map_of (inflight_polls el) t = Some \<lparr>pc_fd = n, pc_readable = rd\<rparr> \<longrightarrow>
          t \<noteq> 0 \<and> handle (ureg n rd el) \<noteq> 0 \<and> t = token (ureg n rd el)))"

definition uinflight :: "uring_loop \<Rightarrow> bool" where
  "uinflight el = (distinct (map fst (inflight_polls el)) \<and> length (inflight_polls el) = u_pending_waiter_count el)"

definition uring_inv :: "uring_loop \<Rightarrow> bool" where
  "uring_inv el = (ucounts el \<and> utokens el \<and> uinflight el)"

subsection \<open>Slots\<close>

lemma uslot_reg_simps [simp]:
  "uslot_reg True s = u_readable s" "uslot_reg False s = u_writable s"
  "set_uslot_reg True r s = s\<lparr>u_readable := r\<rparr>" "set_uslot_reg False r s = s\<lparr>u_writable := r\<rparr>"
  by (simp_all add: uslot_reg_def set_uslot_reg_def)

lemma uslot_reg_set:
  "uslot_reg d (set_uslot_reg rd r s) = (if d = rd then r else uslot_reg d s)"
  by (cases d; cases rd) simp_all

lemma no_uregistration_simps [simp]:
  "handle no_uregistration = 0" "deadline no_uregistration = None" "reg_deadline no_uregistration = None"
  "ureg_clean no_uregistration" "token no_uregistration = 0" "view_reg no_uregistration = None"
  by (simp_all add: no_uregistration_def reg_deadline_def ureg_clean_def view_reg_def)

lemma new_uslot_simps [simp]:
  "uslot_reg rd new_uslot = no_uregistration" "uslot_pending new_uslot = 0" "uslot_timed new_uslot = 0"
  "uslot_ok nd new_uslot" "uslot_idle new_uslot"
  by (simp_all add: new_uslot_def uslot_reg_def uslot_pending_def uslot_timed_def uslot_ok_def uslot_idle_def)

lemma uslot_counts_set:
  "uslot_pending (set_uslot_reg rd r s) + of_bool (handle (uslot_reg rd s) \<noteq> 0)
     = uslot_pending s + of_bool (handle r \<noteq> 0)"
  "uslot_timed (set_uslot_reg rd r s) + of_bool (reg_deadline (uslot_reg rd s) \<noteq> None)
     = uslot_timed s + of_bool (reg_deadline r \<noteq> None)"
  by (cases rd; simp add: uslot_pending_def uslot_timed_def)+

lemma uslot_ok_set:
  "uslot_ok nd s \<Longrightarrow> le_opt nd' nd \<Longrightarrow> le_opt nd' (reg_deadline r) \<Longrightarrow> ureg_clean r \<Longrightarrow>
     uslot_ok nd' (set_uslot_reg rd r s)"
  unfolding uslot_ok_def uslot_reg_set by (auto intro: le_opt_trans)

lemma uslot_ok_mono: "uslot_ok nd s \<Longrightarrow> le_opt nd' nd \<Longrightarrow> uslot_ok nd' s"
  by (auto simp: uslot_ok_def intro: le_opt_trans)

lemma uslot_idle_reg:
  "uslot_idle s = (\<forall>rd. handle (uslot_reg rd s) = 0)"
  unfolding uslot_idle_def by (metis (full_types) uslot_reg_simps(1,2))

lemma uslot_idle_counts: "uslot_idle s \<Longrightarrow> uslot_pending s = 0 \<and> uslot_timed s = 0"
  by (simp add: uslot_idle_def uslot_pending_def uslot_timed_def reg_deadline_def)

lemma uslot_idle_clean: "uslot_ok nd s \<Longrightarrow> uslot_idle s \<Longrightarrow> uslot_reg rd s = no_uregistration"
  by (simp add: uslot_ok_def uslot_idle_reg ureg_clean_def)

subsection \<open>Lookups\<close>

lemma u_slot_conv:
  "u_waiters el' = AList.update n s ws \<Longrightarrow> u_waiters el = ws \<Longrightarrow> u_slot m el' = (if m = n then s else u_slot m el)"
  "u_waiters el' = AList.delete n ws \<Longrightarrow> u_waiters el = ws \<Longrightarrow> u_slot m el' = (if m = n then new_uslot else u_slot m el)"
  "u_waiters el' = u_waiters el \<Longrightarrow> u_slot m el' = u_slot m el"
  by (simp_all add: u_slot_def update_conv' delete_conv')

lemma u_slot_Some: "map_of (u_waiters el) n = Some s \<Longrightarrow> u_slot n el = s"
  by (simp add: u_slot_def)

lemma ucounts_slot:
  assumes "ucounts el" "map_of (u_waiters el) n = Some s"
  shows "uslot_ok (u_next_deadline el) s" "0 \<le> n" "n \<le> int_max"
    "uslot_pending s \<le> u_pending_waiter_count el" "uslot_timed s \<le> u_timed_waiter_count el"
  using assms map_of_SomeD[OF assms(2)] alist_sum_ge[OF assms(2)] by (force simp: ucounts_def)+

lemma ureg_armed_slot:
  assumes "handle (ureg n rd el) \<noteq> 0"
  obtains s where "map_of (u_waiters el) n = Some s" "ureg n rd el = uslot_reg rd s"
  using assms by (cases "map_of (u_waiters el) n") (auto simp: ureg_def u_slot_def)

lemma uring_counters_bounded:
  assumes "ucounts el"
  shows "u_pending_waiter_count el \<le> 2 ^ 32"
proof -
  have "length (u_waiters el) \<le> card {0..int_max}"
    using assms by (intro length_le_card_keys) (auto simp: ucounts_def)
  then have "length (u_waiters el) \<le> 2 ^ 31" by simp
  moreover have "uslot_pending s \<le> 2" for s by (simp add: uslot_pending_def)
  then have "alist_sum uslot_pending (u_waiters el) \<le> 2 * length (u_waiters el)" by (rule alist_sum_bound)
  ultimately show ?thesis using assms by (simp add: ucounts_def)
qed

subsection \<open>Changing one registration\<close>

lemma ucounts_set:
  assumes inv: "ucounts el" and at: "map_of (u_waiters el) n = Some s"
    and ws: "u_waiters el' = AList.update n (set_uslot_reg rd r s) (u_waiters el)"
    and p: "u_pending_waiter_count el' + of_bool (handle (uslot_reg rd s) \<noteq> 0)
      = u_pending_waiter_count el + of_bool (handle r \<noteq> 0)"
    and t: "u_timed_waiter_count el' + of_bool (reg_deadline (uslot_reg rd s) \<noteq> None)
      = u_timed_waiter_count el + of_bool (reg_deadline r \<noteq> None)"
    and nd: "le_opt (u_next_deadline el') (u_next_deadline el)" "le_opt (u_next_deadline el') (reg_deadline r)"
    and clean: "ureg_clean r"
  shows "ucounts el'"
proof -
  let ?s = "set_uslot_reg rd r s"
  note slot = ucounts_slot[OF inv at]
  have ok: "uslot_ok (u_next_deadline el') ?s" using slot(1) nd clean by (rule uslot_ok_set)
  have slots: "\<forall>(m, u) \<in> set (u_waiters el'). uslot_ok (u_next_deadline el') u"
    using inv ok uslot_ok_mono[OF _ nd(1)] by (fastforce simp: ws ucounts_def dest: set_update_cases)
  have keys: "map fst (u_waiters el') = map fst (u_waiters el)"
    unfolding ws using at by (rule keys_update_present)
  note sums = alist_sum_update_old[OF at, of uslot_pending ?s] alist_sum_update_old[OF at, of uslot_timed ?s]
  have "u_pending_waiter_count el' = alist_sum uslot_pending (u_waiters el')"
    "u_timed_waiter_count el' = alist_sum uslot_timed (u_waiters el')"
    using inv p t sums uslot_counts_set[of rd r s] by (simp_all add: ws ucounts_def)
  moreover have "fst ` set (u_waiters el') = fst ` set (u_waiters el)" using keys by (metis list.set_map)
  ultimately show ?thesis using keys slots inv by (simp add: ucounts_def)
qed

lemma uinflight_delete:
  assumes "uinflight el" "map_of (inflight_polls el) t = Some ctx"
    and "inflight_polls el' = AList.delete t (inflight_polls el)"
    and "u_pending_waiter_count el' + 1 = u_pending_waiter_count el"
  shows "uinflight el'"
proof -
  have "alist_sum (\<lambda>_. 1) xs = length xs" for xs :: "(64 word \<times> poll_context) list"
    by (induction xs) auto
  with alist_sum_delete[OF _ assms(2), of "\<lambda>_. 1"] assms show ?thesis
    by (simp add: uinflight_def distinct_delete)
qed

lemma uinflight_insert:
  assumes "uinflight el" "map_of (inflight_polls el) t = None"
    and "inflight_polls el' = AList.update t ctx (inflight_polls el)"
    and "u_pending_waiter_count el' = u_pending_waiter_count el + 1"
  shows "uinflight el'"
proof -
  have "alist_sum (\<lambda>_. 1) xs = length xs" for xs :: "(64 word \<times> poll_context) list"
    by (induction xs) auto
  with alist_sum_update_new[OF assms(2), of "\<lambda>_. 1" ctx] assms show ?thesis
    by (simp add: uinflight_def distinct_update)
qed

lemma utokensI:
  assumes "next_token el \<noteq> 0"
    and "\<And>n rd. handle (ureg n rd el) \<noteq> 0 \<Longrightarrow>
      map_of (inflight_polls el) (token (ureg n rd el)) = Some \<lparr>pc_fd = n, pc_readable = rd\<rparr>"
    and "\<And>t n rd. map_of (inflight_polls el) t = Some \<lparr>pc_fd = n, pc_readable = rd\<rparr> \<Longrightarrow>
      t \<noteq> 0 \<and> handle (ureg n rd el) \<noteq> 0 \<and> t = token (ureg n rd el)"
  shows "utokens el"
  using assms unfolding utokens_def by blast

lemma utokensD:
  assumes "utokens el"
  shows "next_token el \<noteq> 0"
    and "handle (ureg n rd el) \<noteq> 0 \<Longrightarrow>
      map_of (inflight_polls el) (token (ureg n rd el)) = Some \<lparr>pc_fd = n, pc_readable = rd\<rparr>"
    and "map_of (inflight_polls el) t = Some \<lparr>pc_fd = n, pc_readable = rd\<rparr> \<Longrightarrow>
      t \<noteq> 0 \<and> handle (ureg n rd el) \<noteq> 0 \<and> t = token (ureg n rd el)"
  using assms unfolding utokens_def by blast+

lemma utokens_end:
  assumes inv: "utokens el" and armed: "handle (ureg n rd el) \<noteq> 0"
    and reg: "\<And>m d. ureg m d el' = (if m = n \<and> d = rd then no_uregistration else ureg m d el)"
    and m: "map_of (inflight_polls el') = (map_of (inflight_polls el))(token (ureg n rd el) := None)"
    and nt: "next_token el' \<noteq> 0"
  shows "utokens el'"
proof (rule utokensI[OF nt])
  fix k d assume h: "handle (ureg k d el') \<noteq> 0"
  then have k: "\<not> (k = n \<and> d = rd)" "ureg k d el' = ureg k d el" by (auto simp: reg split: if_splits)
  with h have at: "map_of (inflight_polls el) (token (ureg k d el)) = Some \<lparr>pc_fd = k, pc_readable = d\<rparr>"
    using utokensD(2)[OF inv] by simp
  have "token (ureg k d el) \<noteq> token (ureg n rd el)"
    using at utokensD(2)[OF inv armed] k(1) by auto
  with at k(2) show "map_of (inflight_polls el') (token (ureg k d el')) = Some \<lparr>pc_fd = k, pc_readable = d\<rparr>"
    by (simp add: m)
next
  fix t k d assume "map_of (inflight_polls el') t = Some \<lparr>pc_fd = k, pc_readable = d\<rparr>"
  then have t: "t \<noteq> token (ureg n rd el)" "map_of (inflight_polls el) t = Some \<lparr>pc_fd = k, pc_readable = d\<rparr>"
    by (auto simp: m split: if_splits)
  note old = utokensD(3)[OF inv t(2)]
  with t(1) have "\<not> (k = n \<and> d = rd)" by blast
  with old show "t \<noteq> 0 \<and> handle (ureg k d el') \<noteq> 0 \<and> t = token (ureg k d el')" unfolding reg by auto
qed

lemma utokens_start:
  assumes inv: "utokens el" and free: "handle (ureg n rd el) = 0" and r: "handle r \<noteq> 0" "token r \<noteq> 0"
    and fresh: "map_of (inflight_polls el) (token r) = None"
    and reg: "\<And>m d. ureg m d el' = (if m = n \<and> d = rd then r else ureg m d el)"
    and m: "map_of (inflight_polls el') = (map_of (inflight_polls el))(token r \<mapsto> \<lparr>pc_fd = n, pc_readable = rd\<rparr>)"
    and nt: "next_token el' \<noteq> 0"
  shows "utokens el'"
proof (rule utokensI[OF nt])
  fix k d assume h: "handle (ureg k d el') \<noteq> 0"
  show "map_of (inflight_polls el') (token (ureg k d el')) = Some \<lparr>pc_fd = k, pc_readable = d\<rparr>"
  proof (cases "k = n \<and> d = rd")
    case True
    then show ?thesis by (simp add: reg m)
  next
    case False
    with h have at: "map_of (inflight_polls el) (token (ureg k d el)) = Some \<lparr>pc_fd = k, pc_readable = d\<rparr>"
      using utokensD(2)[OF inv, of k d] by (simp add: reg)
    with fresh have "token (ureg k d el) \<noteq> token r" by auto
    with at False show ?thesis by (simp add: reg m)
  qed
next
  fix t k d assume t: "map_of (inflight_polls el') t = Some \<lparr>pc_fd = k, pc_readable = d\<rparr>"
  show "t \<noteq> 0 \<and> handle (ureg k d el') \<noteq> 0 \<and> t = token (ureg k d el')"
  proof (cases "t = token r")
    case True
    with t r show ?thesis by (auto simp: m reg)
  next
    case False
    with t have "map_of (inflight_polls el) t = Some \<lparr>pc_fd = k, pc_readable = d\<rparr>" by (simp add: m)
    note old = utokensD(3)[OF inv this]
    have "\<not> (k = n \<and> d = rd)"
    proof (rule notI, elim conjE)
      assume "k = n" "d = rd"
      with old free show False by simp
    qed
    with old show ?thesis unfolding reg by auto
  qed
qed

lemma utokens_cong:
  assumes inv: "utokens el" and reg: "\<And>m d. ureg m d el' = ureg m d el"
    and same: "inflight_polls el' = inflight_polls el" and nt: "next_token el' \<noteq> 0"
  shows "utokens el'"
proof (rule utokensI[OF nt])
qed (unfold reg same, fact utokensD(2)[OF inv], fact utokensD(3)[OF inv])

text \<open>The three ways a registration changes: it is made, it ends, its empty slot is erased.\<close>

lemma uring_inv_start:
  assumes inv: "uring_inv el" and at: "map_of (u_waiters el) n = Some s" and free: "handle (uslot_reg rd s) = 0"
    and r: "handle r \<noteq> 0" "token r \<noteq> 0" "map_of (inflight_polls el) (token r) = None"
    and ws: "u_waiters el' = AList.update n (set_uslot_reg rd r s) (u_waiters el)"
    and infl: "inflight_polls el' = AList.update (token r) \<lparr>pc_fd = n, pc_readable = rd\<rparr> (inflight_polls el)"
    and cnt: "u_pending_waiter_count el' = u_pending_waiter_count el + 1"
      "u_timed_waiter_count el' = u_timed_waiter_count el + of_bool (deadline r \<noteq> None)"
    and nd: "le_opt (u_next_deadline el') (u_next_deadline el)" "le_opt (u_next_deadline el') (deadline r)"
    and nt: "next_token el' \<noteq> 0"
  shows "uring_inv el'"
proof -
  have dl: "reg_deadline r = deadline r" "reg_deadline (uslot_reg rd s) = None" "ureg_clean r"
    using r free by (simp_all add: reg_deadline_def ureg_clean_def)
  have "ucounts el'"
    using inv cnt nd free r dl by (intro ucounts_set[OF _ at ws]) (simp_all add: uring_inv_def)
  moreover have "uinflight el'"
    using inv by (intro uinflight_insert[OF _ r(3) infl cnt(1)]) (simp add: uring_inv_def)
  moreover have reg: "ureg m d el' = (if m = n \<and> d = rd then r else ureg m d el)" for m d
    using u_slot_conv(1)[OF ws refl, of m] u_slot_Some[OF at] by (simp add: ureg_def uslot_reg_set)
  have "utokens el'"
  proof (rule utokens_start)
    show "utokens el" using inv by (simp add: uring_inv_def)
    show "handle (ureg n rd el) = 0" using free at by (simp add: ureg_def u_slot_def)
    show "map_of (inflight_polls el') = (map_of (inflight_polls el))(token r \<mapsto> \<lparr>pc_fd = n, pc_readable = rd\<rparr>)"
      by (simp add: infl update_conv')
  qed (fact r nt reg)+
  ultimately show ?thesis by (simp add: uring_inv_def)
qed

lemma uring_inv_end:
  assumes inv: "uring_inv el" and at: "map_of (u_waiters el) n = Some s" and armed: "handle (uslot_reg rd s) \<noteq> 0"
    and ws: "u_waiters el' = AList.update n (set_uslot_reg rd no_uregistration s) (u_waiters el)"
    and infl: "inflight_polls el' = AList.delete (token (uslot_reg rd s)) (inflight_polls el)"
    and cnt: "u_pending_waiter_count el' = u_pending_waiter_count el - 1"
      "u_timed_waiter_count el' = u_timed_waiter_count el - of_bool (deadline (uslot_reg rd s) \<noteq> None)"
    and nd: "u_next_deadline el' = u_next_deadline el" and nt: "next_token el' \<noteq> 0"
  shows "uring_inv el'"
proof -
  have dl: "reg_deadline (uslot_reg rd s) = deadline (uslot_reg rd s)" using armed by (simp add: reg_deadline_def)
  have c: "ucounts el" and tok: "utokens el" and f: "uinflight el" using inv by (simp_all add: uring_inv_def)
  have reg0: "ureg n rd el = uslot_reg rd s" using at by (simp add: ureg_def u_slot_def)
  have in_map: "map_of (inflight_polls el) (token (uslot_reg rd s)) = Some \<lparr>pc_fd = n, pc_readable = rd\<rparr>"
    using tok armed unfolding utokens_def reg0[symmetric] by blast
  have "of_bool (handle (uslot_reg rd s) \<noteq> 0) \<le> uslot_pending s"
    "of_bool (reg_deadline (uslot_reg rd s) \<noteq> None) \<le> uslot_timed s"
    by (cases rd; simp add: uslot_pending_def uslot_timed_def)+
  then have pos: "u_pending_waiter_count el' + 1 = u_pending_waiter_count el"
    "u_timed_waiter_count el' + of_bool (deadline (uslot_reg rd s) \<noteq> None) = u_timed_waiter_count el"
    using ucounts_slot(4,5)[OF c at] cnt armed dl by auto
  have "ucounts el'"
    using pos nd armed dl by (intro ucounts_set[OF c at ws]) simp_all
  moreover have "uinflight el'"
    using pos(1) by (intro uinflight_delete[OF f in_map infl])
  moreover have "ureg m d el' = (if m = n \<and> d = rd then no_uregistration else ureg m d el)" for m d
    using u_slot_conv(1)[OF ws refl, of m] u_slot_Some[OF at] by (simp add: ureg_def uslot_reg_set)
  then have "utokens el'"
    using armed reg0 nt infl by (intro utokens_end[OF tok, of n rd]) (simp_all add: delete_conv')
  ultimately show ?thesis by (simp add: uring_inv_def)
qed

lemma uring_inv_erase:
  assumes inv: "uring_inv el" and at: "map_of (u_waiters el) n = Some s" and idle: "uslot_idle s"
  shows "uring_inv (el\<lparr>u_waiters := AList.delete n (u_waiters el)\<rparr>)"
    and "ureg m d (el\<lparr>u_waiters := AList.delete n (u_waiters el)\<rparr>) = ureg m d el"
proof -
  let ?el = "el\<lparr>u_waiters := AList.delete n (u_waiters el)\<rparr>"
  have c: "ucounts el" using inv by (simp add: uring_inv_def)
  have d: "distinct (map fst (u_waiters el))" using c by (simp add: ucounts_def)
  note sums = alist_sum_delete[OF d at, of uslot_pending] alist_sum_delete[OF d at, of uslot_timed]
  have "ucounts ?el"
    using c sums uslot_idle_counts[OF idle] set_delete_subset[of n "u_waiters el"]
    by (force simp: ucounts_def distinct_delete)
  moreover show reg: "ureg m d ?el = ureg m d el" for m d
    using u_slot_conv(2)[of ?el n _ el m] u_slot_Some[OF at] uslot_idle_clean[OF ucounts_slot(1)[OF c at] idle]
    by (simp add: ureg_def)
  moreover have "utokens ?el"
    using inv utokensD(1)[of el] by (intro utokens_cong[OF _ reg]) (simp_all add: uring_inv_def)
  ultimately show "uring_inv ?el" using inv by (simp add: uring_inv_def uinflight_def)
qed

lemma uring_inv_entry:
  assumes inv: "uring_inv el" and n: "0 \<le> n" "n \<le> int_max"
  defines "el0 \<equiv> el\<lparr>u_waiters := AList.update n (u_slot n el) (u_waiters el)\<rparr>"
  shows "uring_inv el0" "map_of (u_waiters el0) n = Some (u_slot n el)" "ureg m d el0 = ureg m d el"
proof -
  show "map_of (u_waiters el0) n = Some (u_slot n el)" by (simp add: el0_def update_conv')
  have reg: "ureg m d el0 = ureg m d el" for m d
    using u_slot_conv(1)[of el0 n "u_slot n el" _ el m] by (simp add: ureg_def el0_def)
  then show "ureg m d el0 = ureg m d el" .
  have c: "ucounts el" using inv by (simp add: uring_inv_def)
  have "ucounts el0"
  proof (cases "map_of (u_waiters el) n")
    case None
    with c n show ?thesis
      by (auto simp: ucounts_def el0_def u_slot_def alist_sum_update_new distinct_update dest!: set_update_cases)
  next
    case (Some s)
    with c show ?thesis by (simp add: el0_def u_slot_def alist_update_same)
  qed
  moreover have "utokens el0"
    using inv utokensD(1)[of el] by (intro utokens_cong[OF _ reg]) (simp_all add: uring_inv_def el0_def)
  ultimately show "uring_inv el0" using inv by (simp add: uring_inv_def uinflight_def el0_def)
qed

subsection \<open>Tokens are fresh\<close>

lemma next_token_of_nonzero: "next_token_of t \<noteq> 0"
  by (simp add: next_token_of_def Let_def)

lemma next_token_of_unat:
  assumes "t \<noteq> 0"
  shows "unat (next_token_of t) = Suc (unat t mod (2 ^ 64 - 1))"
proof (cases "t + 1 = 0")
  case True
  then have "t = - 1" by (simp add: eq_neg_iff_add_eq_0)
  then have "unat t = 2 ^ 64 - 1" by (simp add: unsigned_minus_1_eq_mask mask_eq_exp_minus_1)
  with True show ?thesis by (simp add: next_token_of_def)
next
  case False
  then have "unat (t + 1) = Suc (unat t)" by (metis Suc_eq_plus1 add.commute unatSuc)
  moreover have "unat t < 2 ^ 64 - 1"
  proof -
    have "unat (t + 1) < 2 ^ 64" using unsigned_less[of "t + 1"] by simp
    with calculation show ?thesis by simp
  qed
  ultimately show ?thesis using False by (simp add: next_token_of_def Let_def)
qed

lemma next_token_of_iterate:
  assumes "t \<noteq> 0"
  shows "(next_token_of ^^ i) t \<noteq> 0 \<and> unat ((next_token_of ^^ i) t) = Suc ((unat t - 1 + i) mod (2 ^ 64 - 1))"
proof (induction i)
  case 0
  have "0 < unat t" using assms by (simp add: unat_gt_0)
  moreover have "unat t < 2 ^ 64" using unsigned_less[of t] by simp
  ultimately have "unat t - 1 < 2 ^ 64 - 1" by linarith
  with \<open>0 < unat t\<close> assms show ?case by simp
next
  case (Suc i)
  have "unat ((next_token_of ^^ Suc i) t) = Suc (Suc ((unat t - 1 + i) mod (2 ^ 64 - 1)) mod (2 ^ 64 - 1))"
    using next_token_of_unat[of "(next_token_of ^^ i) t"] Suc by simp
  then show ?case by (simp add: next_token_of_nonzero mod_Suc_eq)
qed

lemma nat_mod_add_left_cancel: "((k::nat) + i) mod m = (k + j) mod m \<Longrightarrow> i mod m = j mod m"
  by (auto simp: nat_mod_eq_iff add.assoc)

lemma next_token_of_iterate_inj:
  assumes "t \<noteq> 0" "i < 2 ^ 64 - 1" "j < 2 ^ 64 - 1" "(next_token_of ^^ i) t = (next_token_of ^^ j) t"
  shows "i = j"
proof -
  have "(unat t - 1 + i) mod (2 ^ 64 - 1) = (unat t - 1 + j) mod (2 ^ 64 - 1)"
    using next_token_of_iterate[OF assms(1), of i] next_token_of_iterate[OF assms(1), of j] assms(4) by simp
  then have "i mod (2 ^ 64 - 1) = j mod (2 ^ 64 - 1)" by (rule nat_mod_add_left_cancel)
  with assms(2,3) show ?thesis by simp
qed

lemma allocate_token_loop_None:
  "allocate_token_loop k infl t = None \<Longrightarrow> t \<noteq> 0 \<Longrightarrow> i < k \<Longrightarrow> map_of infl ((next_token_of ^^ i) t) \<noteq> None"
proof (induction k arbitrary: t i)
  case (Suc k)
  then have here: "map_of infl t \<noteq> None" and rest: "allocate_token_loop k infl (next_token_of t) = None"
    by (auto simp: Let_def split: if_splits)
  show ?case
  proof (cases i)
    case 0
    with here show ?thesis by simp
  next
    case (Suc j)
    with Suc.IH[OF rest next_token_of_nonzero, of j] Suc.prems(3) show ?thesis
      by (simp add: funpow_swap1)
  qed
qed simp

lemma allocate_token_loop_Some:
  "allocate_token_loop k infl t = Some (t', nt) \<Longrightarrow> t' \<noteq> 0 \<and> map_of infl t' = None \<and> nt \<noteq> 0"
  by (induction k arbitrary: t) (auto simp: Let_def next_token_of_nonzero split: if_splits)

text \<open>
  The loop of \<^verbatim>\<open>allocate_token\<close> ends: among more tokens than polls in flight one is free.
\<close>

lemma allocate_token_loop_total:
  assumes "t \<noteq> 0" "length infl < k" "k < 2 ^ 64"
  shows "allocate_token_loop k infl t \<noteq> None"
proof
  assume none: "allocate_token_loop k infl t = None"
  let ?f = "\<lambda>i. (next_token_of ^^ i) t"
  have "inj_on ?f {..<k}"
    using assms(3) next_token_of_iterate_inj[OF assms(1)] by (intro inj_onI) auto
  then have "card (?f ` {..<k}) = k" by (simp add: card_image)
  moreover have "?f ` {..<k} \<subseteq> fst ` set infl"
    using allocate_token_loop_None[OF none assms(1)] by (auto simp: map_of_eq_None_iff)
  then have "card (?f ` {..<k}) \<le> card (fst ` set infl)" by (intro card_mono) auto
  moreover have "card (fst ` set infl) \<le> length infl"
    by (metis card_length length_map list.set_map)
  ultimately show False using assms(2) by linarith
qed

lemma allocate_token_ok:
  assumes "uring_inv el" "allocate_token el = (t, el')"
  obtains nt where "el' = el\<lparr>next_token := nt\<rparr>" "nt \<noteq> 0" "t \<noteq> 0" "map_of (inflight_polls el) t = None"
proof -
  have "length (inflight_polls el) \<le> 2 ^ 32"
    using assms(1) uring_counters_bounded[of el] by (simp add: uring_inv_def uinflight_def)
  moreover have "next_token el \<noteq> 0" using assms(1) utokensD(1) by (auto simp: uring_inv_def)
  ultimately obtain t' nt where loop: "allocate_token_loop (length (inflight_polls el) + 2) (inflight_polls el)
      (next_token el) = Some (t', nt)"
    using allocate_token_loop_total[of "next_token el" "inflight_polls el" "length (inflight_polls el) + 2"] by auto
  with assms(2) allocate_token_loop_Some[OF loop] show thesis
    by (intro that[of nt]) (auto simp: allocate_token_def)
qed

subsection \<open>Submissions change only the submission flag\<close>

lemma flush_submissions_frame:
  assumes "flush_submissions K el w = (r, el', w')"
  obtains b where "el' = el\<lparr>submission_pending := b\<rparr>" "r = Inr () \<Longrightarrow> \<not> b"
proof -
  have "el' = el\<lparr>submission_pending := submission_pending el'\<rparr>" "r = Inr () \<Longrightarrow> \<not> submission_pending el'"
    using assms by (auto simp: flush_submissions_def split: if_splits prod.splits sum.splits)
  then show thesis by (rule that)
qed

lemma queue_poll_add_frame:
  assumes "queue_poll_add K t n m el w = (r, el', w')"
  shows "el' = el\<lparr>submission_pending := submission_pending el'\<rparr>"
proof -
  obtain r1 w1 where s1: "submit_poll_add K t n m (u_reactor el) w = (r1, w1)" by fastforce
  obtain r2 el2 w2 where f: "flush_submissions K el w1 = (r2, el2, w2)" by (metis prod_cases3)
  obtain b where el2: "el2 = el\<lparr>submission_pending := b\<rparr>" using flush_submissions_frame[OF f] by blast
  from assms s1 f show ?thesis
    by (auto simp: queue_poll_add_def el2 split: sum.splits if_splits prod.splits)
qed

lemma queue_poll_remove_frame:
  assumes "queue_poll_remove K t el w = (r, el', w')"
  shows "el' = el\<lparr>submission_pending := submission_pending el'\<rparr>"
proof -
  obtain r1 w1 where s1: "submit_poll_remove K t (u_reactor el) w = (r1, w1)" by fastforce
  obtain r2 el2 w2 where f: "flush_submissions K el w1 = (r2, el2, w2)" by (metis prod_cases3)
  obtain b where el2: "el2 = el\<lparr>submission_pending := b\<rparr>" using flush_submissions_frame[OF f] by blast
  from assms s1 f show ?thesis
    by (auto simp: queue_poll_remove_def removed_status_def el2 Let_def split: sum.splits if_splits prod.splits)
qed

subsection \<open>The abstraction\<close>

definition uring_abs :: "uring_loop \<Rightarrow> sched_spec" where
  "uring_abs el = \<lparr>sp_regs = (\<lambda>n rd. view_reg (ureg n rd el)),
     sp_ready = u_ready_queue el, sp_results = u_wait_results el, sp_active = u_active_task_count el\<rparr>"

lemma uring_abs_simps [simp]:
  "sp_regs (uring_abs el) n rd = view_reg (ureg n rd el)"
  "sp_ready (uring_abs el) = u_ready_queue el" "sp_results (uring_abs el) = u_wait_results el"
  "sp_active (uring_abs el) = u_active_task_count el"
  by (simp_all add: uring_abs_def)

lemma uring_abs_eqI:
  assumes "\<And>n rd. view_reg (ureg n rd el) = sp_regs a n rd"
    "u_ready_queue el = sp_ready a" "u_wait_results el = sp_results a" "u_active_task_count el = sp_active a"
  shows "uring_abs el = a"
  using assms by (intro sched_spec.equality) (auto simp: fun_eq_iff)

lemma ureg_cong: "u_waiters el' = u_waiters el \<Longrightarrow> ureg m d el' = ureg m d el"
  by (simp add: ureg_def u_slot_def)

text \<open>Fields the invariant does not look at.\<close>

lemma uring_inv_cong:
  assumes "uring_inv el" "u_waiters el' = u_waiters el" "inflight_polls el' = inflight_polls el"
    "u_pending_waiter_count el' = u_pending_waiter_count el" "u_timed_waiter_count el' = u_timed_waiter_count el"
    "u_next_deadline el' = u_next_deadline el" "next_token el' \<noteq> 0"
  shows "uring_inv el'"
  using assms utokens_cong[of el el', OF _ ureg_cong]
  by (simp add: uring_inv_def ucounts_def uinflight_def)

lemma uring_inv_next_token: "uring_inv el \<Longrightarrow> next_token el \<noteq> 0"
  using utokensD(1) by (auto simp: uring_inv_def)

subsection \<open>Arming a waiter\<close>

abbreviation u_entry :: "int \<Rightarrow> uring_loop \<Rightarrow> uring_loop" where
  "u_entry n el \<equiv> el\<lparr>u_waiters := AList.update n (u_slot n el) (u_waiters el)\<rparr>"

lemma u_arm_register_facts:
  assumes "u_arm_register K n h rd timeout terr t s el w = (s1, el1, w1)"
  defines "r \<equiv> \<lparr>handle = h, deadline = arm_deadline K w timeout, timeout_error = terr, token = t\<rparr>"
  shows "s1 = set_uslot_reg rd r s" "u_waiters el1 = AList.update n s1 (u_waiters el)"
    "inflight_polls el1 = AList.update t \<lparr>pc_fd = n, pc_readable = rd\<rparr> (inflight_polls el)"
    "u_pending_waiter_count el1 = u_pending_waiter_count el + 1"
    "u_timed_waiter_count el1 = u_timed_waiter_count el + of_bool (deadline r \<noteq> None)"
    "le_opt (u_next_deadline el1) (u_next_deadline el)" "le_opt (u_next_deadline el1) (deadline r)"
    "next_token el1 = next_token el" "u_ready_queue el1 = u_ready_queue el"
    "u_wait_results el1 = u_wait_results el" "u_active_task_count el1 = u_active_task_count el"
    "u_reactor el1 = u_reactor el" "u_init_error el1 = u_init_error el" "u_loop_error el1 = u_loop_error el"
    "u_root_tasks el1 = u_root_tasks el"
  using assms
  by (auto simp: u_arm_register_def arm_deadline_def clock_now_eq Let_def split: option.splits if_splits)

text \<open>After a failed submission everything visible is as before.\<close>

lemma u_arm_rollback_facts:
  assumes inv: "uring_inv el0" and at: "map_of (u_waiters el0) n = Some s" and free: "handle (uslot_reg rd s) = 0"
    and reg: "u_arm_register K n h rd timeout terr t s (el0\<lparr>next_token := nt\<rparr>) w = (s1, el1, w1)"
    and fresh: "map_of (inflight_polls el0) t = None" and nt: "nt \<noteq> 0"
    and el2: "el2 = el1\<lparr>submission_pending := b\<rparr>"
  shows "uring_inv (u_arm_rollback n rd t s1 el2)" "uring_abs (u_arm_rollback n rd t s1 el2) = uring_abs el0"
proof -
  note r = u_arm_register_facts[OF reg]
  have c: "ucounts el0" using inv by (simp add: uring_inv_def)
  have "ureg_clean (uslot_reg rd s)" using ucounts_slot(1)[OF c at] by (simp add: uslot_ok_def)
  then have "uslot_reg rd s = no_uregistration" using free by (simp add: ureg_clean_def)
  then have undo: "set_uslot_reg rd no_uregistration s1 = s"
    unfolding r(1) by (cases rd) auto
  have dl: "deadline (uslot_reg rd s1) = arm_deadline K w timeout" unfolding r(1) by (simp add: uslot_reg_set)
  have infl: "AList.delete t (AList.update t x (inflight_polls el0)) = inflight_polls el0" for x
    using fresh by (simp add: alist_delete_absent delete_update_same)
  define el3 where "el3 = el2\<lparr>inflight_polls := inflight_polls el0,
      u_timed_waiter_count := u_timed_waiter_count el0, u_pending_waiter_count := u_pending_waiter_count el0,
      u_waiters := u_waiters el0, u_deadline_index_dirty := True\<rparr>"
  have eq: "u_arm_rollback n rd t s1 el2 =
      (if uslot_idle s then el3\<lparr>u_waiters := AList.delete n (u_waiters el3)\<rparr> else el3)"
    using r(2-5)
    by (intro uring_loop.equality) (simp_all add: u_arm_rollback_def Let_def undo dl el2 el3_def alist_update_same[OF at] infl)
  have c3: "ucounts el3"
  proof -
    have "le_opt (u_next_deadline el3) (u_next_deadline el0)" using r(6) by (simp add: el3_def el2)
    then show ?thesis using c uslot_ok_mono by (fastforce simp: ucounts_def el3_def)
  qed
  have reg3: "ureg m d el3 = ureg m d el0" for m d by (rule ureg_cong) (simp add: el3_def)
  have "utokens el3"
    using inv nt r(8) by (intro utokens_cong[OF _ reg3]) (simp_all add: uring_inv_def el3_def el2)
  then have inv3: "uring_inv el3" using c3 inv by (simp add: uring_inv_def uinflight_def el3_def)
  have at3: "map_of (u_waiters el3) n = Some s" using at by (simp add: el3_def)
  show "uring_inv (u_arm_rollback n rd t s1 el2)"
    unfolding eq using inv3 uring_inv_erase(1)[OF inv3 at3] by simp
  have "ureg m d (u_arm_rollback n rd t s1 el2) = ureg m d el0" for m d
    unfolding eq using uring_inv_erase(2)[OF inv3 at3] reg3 by simp
  moreover have "u_ready_queue (u_arm_rollback n rd t s1 el2) = u_ready_queue el0"
    "u_wait_results (u_arm_rollback n rd t s1 el2) = u_wait_results el0"
    "u_active_task_count (u_arm_rollback n rd t s1 el2) = u_active_task_count el0"
    unfolding eq using r(9-11) by (simp_all add: el3_def el2)
  ultimately show "uring_abs (u_arm_rollback n rd t s1 el2) = uring_abs el0"
    by (intro uring_abs_eqI) simp_all
qed

lemma u_arm_waiter_cases [consumes 3, case_names invalid bad elapsed busy failed armed]:
  assumes "u_arm_waiter K n h rd timeout terr el w = (res, el', w')" "uring_inv el" "n \<le> int_max"
  obtains
    "\<not> uring_loop_valid el" "res = Inl (u_init_failure el)" "el' = el" "w' = w"
  | "uring_loop_valid el" "n < 0 \<or> h = 0" "res = errno_error EBADF" "el' = el" "w' = w"
  | t where "uring_loop_valid el" "0 \<le> n" "h \<noteq> 0" "timeout = Some t" "t \<le> 0" "res = Inr ()"
      "el' = u_schedule h (el\<lparr>u_wait_results := (u_wait_results el)(h \<mapsto> Inl terr)\<rparr>)" "w' = w"
  | "uring_loop_valid el" "0 \<le> n" "h \<noteq> 0" "handle (ureg n rd el) \<noteq> 0" "res = errno_error EBUSY" "el' = el" "w' = w"
  | e where "uring_loop_valid el" "0 \<le> n" "h \<noteq> 0" "handle (ureg n rd el) = 0" "res = Inl e"
      "uring_inv el'" "uring_abs el' = uring_abs el"
  | "uring_loop_valid el" "0 \<le> n" "h \<noteq> 0" "handle (ureg n rd el) = 0" "res = Inr ()" "uring_inv el'"
      "uring_abs el' = sp_register n rd (Some (h, arm_deadline K w timeout, terr)) (uring_abs el)"
      "timeout = None \<or> (\<exists>t. timeout = Some t \<and> 0 < t)"
proof -
  consider "\<not> uring_loop_valid el" | "uring_loop_valid el" "n < 0 \<or> h = 0"
    | t where "uring_loop_valid el" "0 \<le> n" "h \<noteq> 0" "timeout = Some t" "t \<le> 0"
    | "uring_loop_valid el" "0 \<le> n" "h \<noteq> 0" "timeout = None \<or> (\<exists>t. timeout = Some t \<and> 0 < t)"
        "handle (ureg n rd el) \<noteq> 0"
    | "uring_loop_valid el" "0 \<le> n" "h \<noteq> 0" "timeout = None \<or> (\<exists>t. timeout = Some t \<and> 0 < t)"
        "handle (ureg n rd el) = 0"
    by (cases timeout) force+
  then show thesis
  proof cases
    case 1
    with assms(1) show thesis by (intro that(1)) (auto simp: u_arm_waiter_def)
  next
    case 2
    with assms(1) show thesis by (intro that(2)) (auto simp: u_arm_waiter_def)
  next
    case (3 t)
    with assms(1) show thesis by (intro that(3)[OF 3]) (auto simp: u_arm_waiter_def)
  next
    case 4
    obtain s where s: "map_of (u_waiters el) n = Some s" "ureg n rd el = uslot_reg rd s"
      using ureg_armed_slot[OF 4(5)] by blast
    have "\<not> (case timeout of Some t \<Rightarrow> t \<le> 0 | None \<Rightarrow> False)" using 4(4) by auto
    with assms(1) 4(1-3,5) s have "(res, el', w') = (errno_error EBUSY, el, w)"
      by (simp add: u_arm_waiter_def Let_def alist_update_same)
    then show thesis by (intro that(4)[OF 4(1-3,5)]) simp_all
  next
    case 5
    let ?s = "u_slot n el" and ?el0 = "u_entry n el"
    note entry = uring_inv_entry[OF assms(2) 5(2) assms(3)]
    have free: "handle (uslot_reg rd ?s) = 0" using 5(5) by (simp add: ureg_def)
    obtain t el1 where al: "allocate_token ?el0 = (t, el1)" by fastforce
    obtain nt where nt: "el1 = ?el0\<lparr>next_token := nt\<rparr>" "nt \<noteq> 0" "t \<noteq> 0"
      and fresh: "map_of (inflight_polls ?el0) t = None"
      using allocate_token_ok[OF entry(1) al] by metis
    obtain s1 el2 w1 where reg: "u_arm_register K n h rd timeout terr t ?s el1 w = (s1, el2, w1)"
      by (metis prod_cases3)
    obtain r el3 w2 where q: "queue_poll_add K t n (if rd then kReadPollMask else kWritePollMask) el2 w1 = (r, el3, w2)"
      by (metis prod_cases3)
    define b where "b = submission_pending el3"
    have el3: "el3 = el2\<lparr>submission_pending := b\<rparr>" using queue_poll_add_frame[OF q] by (simp add: b_def)
    have "\<not> (case timeout of Some t \<Rightarrow> t \<le> 0 | None \<Rightarrow> False)" using 5(4) by auto
    then have eq: "u_arm_waiter K n h rd timeout terr el w = (case r of
        Inl e \<Rightarrow> (Inl e, u_arm_rollback n rd t s1 el3, w2) | Inr _ \<Rightarrow> (Inr (), el3, w2))"
      using 5(1-3) free al reg q by (simp add: u_arm_waiter_def Let_def split: sum.splits flip: u_slot_def)
    show thesis
    proof (cases r)
      case (Inl e)
      note back_facts = u_arm_rollback_facts[OF entry(1,2) free reg[unfolded nt(1)] fresh nt(2) el3]
      have "uring_abs ?el0 = uring_abs el" by (intro uring_abs_eqI) (simp_all add: entry(3))
      with Inl eq assms(1) back_facts show thesis by (intro that(5)[OF 5(1-3,5)]) auto
    next
      case (Inr u)
      note rf = u_arm_register_facts[OF reg]
      let ?r = "\<lparr>handle = h, deadline = arm_deadline K w timeout, timeout_error = terr, token = t\<rparr>"
      have "uring_inv el3"
        by (rule uring_inv_start[OF entry(1,2) free, of ?r])
          (use rf nt 5(3) fresh in \<open>auto simp: el3\<close>)
      moreover have "ureg m d el3 = (if m = n \<and> d = rd then ?r else ureg m d el)" for m d
        using rf(1,2) by (simp add: ureg_def u_slot_def nt(1) el3 update_conv' uslot_reg_set)
      then have "uring_abs el3 = sp_register n rd (Some (h, arm_deadline K w timeout, terr)) (uring_abs el)"
        using rf nt(1) 5(3) by (intro uring_abs_eqI) (auto simp: el3 view_reg_def)
      ultimately show thesis using Inr eq assms(1) by (intro that(6)[OF 5(1-3,5) _ _ _ 5(4)]) auto
    qed
  qed
qed

subsection \<open>The loop implements the scheduler\<close>

definition uring_scheduler :: "kernel \<Rightarrow> (uring_loop \<times> world) scheduler" where
  "uring_scheduler K = \<lparr>
     schedule_fn = (\<lambda>h (el, w). (u_schedule h el, w)),
     on_task_completed_fn = (\<lambda>(el, w). (u_on_task_completed el, w)),
     wait_for_readable_fn = (\<lambda>n h t e (el, w). u_wait_for_readable K n h t e el w),
     wait_for_writable_fn = (\<lambda>n h t e (el, w). u_wait_for_writable K n h t e el w),
     consume_wait_result_fn = (\<lambda>h (el, w). let (r, el1) = u_consume_wait_result h el in (r, (el1, w)))\<rparr>"

lemma uring_wait_for:
  "wait_for_fn (uring_scheduler K) rd n h timeout terr (el, w) = u_arm_waiter K n h rd timeout terr el w"
  by (simp add: wait_for_fn_def uring_scheduler_def u_wait_for_readable_def u_wait_for_writable_def)

lemma uring_inv_simple_ops:
  "uring_inv el \<Longrightarrow> uring_inv (u_schedule h el)" "uring_inv el \<Longrightarrow> uring_inv (u_on_task_completed el)"
  "uring_inv el \<Longrightarrow> uring_inv (u_spawn h el)"
  "uring_inv el \<Longrightarrow> u_consume_wait_result h el = (r, el') \<Longrightarrow> uring_inv el'"
  using uring_inv_next_token[of el]
  by (auto simp: u_schedule_def u_on_task_completed_def u_spawn_def u_consume_wait_result_def
      elim!: uring_inv_cong split: if_splits option.splits)

lemma u_arm_waiter_inv:
  assumes "uring_inv el" "n \<le> int_max" "u_arm_waiter K n h rd timeout terr el w = (r, el', w')"
  shows "uring_inv el'"
  using assms(3,1,2)
proof (cases rule: u_arm_waiter_cases)
  case (elapsed t)
  have "uring_inv (el\<lparr>u_wait_results := (u_wait_results el)(h \<mapsto> Inl terr)\<rparr>)"
    using assms(1) uring_inv_next_token[OF assms(1)] by (elim uring_inv_cong) simp_all
  then show ?thesis using elapsed(7) uring_inv_simple_ops(1) by simp
qed (use assms in simp_all)

interpretation uring: scheduler_impl "uring_scheduler K" "\<lambda>s. uring_abs (fst s)" "\<lambda>s. uring_inv (fst s)"
  "\<lambda>s. uring_loop_valid (fst s)" "\<lambda>s. arm_deadline K (snd s)" for K
proof (unfold_locales, goal_cases)
  case (1 h s)
  then show ?case
    by (cases s) (auto simp: uring_scheduler_def u_schedule_def sp_schedule_def ureg_def u_slot_def
        intro!: uring_abs_eqI)
next
  case (2 s)
  then show ?case
    by (cases s) (auto simp: uring_scheduler_def u_on_task_completed_def sp_complete_def ureg_def u_slot_def
        intro!: uring_abs_eqI)
next
  case (3 h s r s')
  then show ?case
    by (cases s) (auto simp: uring_scheduler_def u_consume_wait_result_def sp_consume_def ureg_def u_slot_def
        intro!: uring_abs_eqI split: if_splits option.splits)
next
  case (4 s n h rd timeout terr)
  then show ?case by (cases s) (auto simp: uring_wait_for u_arm_waiter_def)
next
  case (5 s n h t rd terr r s')
  then show ?case
    by (cases s) (auto simp: uring_wait_for u_arm_waiter_def u_schedule_def sp_schedule_def ureg_def u_slot_def
        intro!: uring_abs_eqI)
next
  case (6 s n h timeout rd terr r s')
  obtain el w where s: "s = (el, w)" by (cases s)
  have armed: "handle (ureg n rd el) \<noteq> 0" using 6(6) by (simp add: s)
  then obtain sl where sl: "map_of (u_waiters el) n = Some sl" "ureg n rd el = uslot_reg rd sl"
    by (rule ureg_armed_slot)
  have "\<not> (case timeout of Some t \<Rightarrow> t \<le> 0 | None \<Rightarrow> False)" using 6(5) by (auto split: option.splits)
  with 6 armed sl show ?case by (simp add: s uring_wait_for u_arm_waiter_def Let_def alist_update_same)
next
  case (7 s n h timeout rd terr r s')
  then have "u_arm_waiter K n h rd timeout terr (fst s) (snd s) = (r, fst s', snd s')"
    by (cases s; cases s') (simp add: uring_wait_for)
  from this 7(2,4) show ?case
  proof (cases rule: u_arm_waiter_cases)
    case (elapsed t)
    with 7(6) show ?thesis by simp
  qed (use 7 in auto)
next
  case (8 s h)
  then show ?case by (cases s) (simp add: uring_scheduler_def uring_inv_simple_ops(1))
next
  case (9 s)
  then show ?case by (cases s) (simp add: uring_scheduler_def uring_inv_simple_ops(2))
next
  case (10 s h r s')
  then show ?case
    by (cases s) (auto simp: uring_scheduler_def dest: uring_inv_simple_ops(4) split: prod.splits)
next
  case (11 s n rd h timeout terr r s')
  then show ?case
    using u_arm_waiter_inv[of "fst s" n K h rd timeout terr "snd s" r "fst s'" "snd s'"]
    by (cases s; cases s') (simp add: uring_wait_for)
qed

end
