(* ===== verification/Uring_Event_Loop_Run.thy ===== *)
theory Uring_Event_Loop_Run
  imports Uring_Event_Loop_Facts
begin

section \<open>The io_uring event loop while it runs\<close>

text \<open>
  What expiry and completions do to the registrations, that they are deliveries of the abstract
  scheduler, and the invariant in every state a loop can reach.
\<close>

subsection \<open>Ending one registration\<close>

lemma uring_deliver_one:
  assumes "handle (ureg n rd el) \<noteq> 0"
    and "\<And>m d. ureg m d el' = (if m = n \<and> d = rd then no_uregistration else ureg m d el)"
    and "delivery_allowed k (handle (ureg n rd el), deadline (ureg n rd el), timeout_error (ureg n rd el))"
    and "u_wait_results el' = (u_wait_results el)(handle (ureg n rd el) \<mapsto>
      delivery_result k (handle (ureg n rd el), deadline (ureg n rd el), timeout_error (ureg n rd el)))"
    and "u_ready_queue el' = u_ready_queue el @ [handle (ureg n rd el)]"
    and "u_active_task_count el' = u_active_task_count el"
  shows "deliver k (uring_abs el) (uring_abs el')"
proof -
  let ?v = "(handle (ureg n rd el), deadline (ureg n rd el), timeout_error (ureg n rd el))"
  have eq: "uring_abs el' = sp_post (fst ?v) (delivery_result k ?v) (sp_register n rd None (uring_abs el))"
    using assms(1,4-6) by (intro uring_abs_eqI) (auto simp: assms(2) fun_eq_iff)
  have "sp_regs (uring_abs el) n rd = Some ?v" using assms(1) by (simp add: view_reg_def)
  from deliver.intros[OF this assms(3)] show ?thesis by (simp only: eq)
qed

text \<open>
  \<open>u_expire_one\<close>: what \<^verbatim>\<open>expire_registration\<close> does to a registration that is due, before the poll is
  removed from the ring.
\<close>

definition u_expire_one :: "int \<Rightarrow> bool \<Rightarrow> uring_loop \<Rightarrow> uring_loop" where
  "u_expire_one n rd el = el\<lparr>
     u_wait_results := (u_wait_results el)(handle (ureg n rd el) \<mapsto> Inl (timeout_error (ureg n rd el))),
     u_ready_queue := u_ready_queue el @ [handle (ureg n rd el)],
     u_timed_waiter_count := u_timed_waiter_count el - 1,
     u_pending_waiter_count := u_pending_waiter_count el - 1,
     u_waiters := AList.update n (set_uslot_reg rd no_uregistration (u_slot n el)) (u_waiters el),
     inflight_polls := AList.delete (token (ureg n rd el)) (inflight_polls el)\<rparr>"

lemma u_expired_armed: "expired now r \<Longrightarrow> handle r \<noteq> 0 \<and> deadline r \<noteq> None"
  by (auto simp: expired_def split: option.splits)

lemma u_expire_one_facts:
  assumes inv: "uring_inv el" and due: "expired now (ureg n rd el)"
  shows "uring_inv (u_expire_one n rd el)"
    and "deliver (Timed_out now) (uring_abs el) (uring_abs (u_expire_one n rd el))"
    and "ureg m d (u_expire_one n rd el) = (if m = n \<and> d = rd then no_uregistration else ureg m d el)"
proof -
  note armed = u_expired_armed[OF due]
  obtain s where s: "map_of (u_waiters el) n = Some s" "ureg n rd el = uslot_reg rd s"
    using armed ureg_armed_slot by metis
  have slot: "u_slot n el = s" using s(1) by (rule u_slot_Some)
  show reg: "ureg m d (u_expire_one n rd el) = (if m = n \<and> d = rd then no_uregistration else ureg m d el)" for m d
    by (simp add: u_expire_one_def ureg_def u_slot_def update_conv' uslot_reg_set)
  show "uring_inv (u_expire_one n rd el)"
    using armed uring_inv_next_token[OF inv]
    by (intro uring_inv_end[OF inv s(1), of rd]) (simp_all add: u_expire_one_def s slot)
  show "deliver (Timed_out now) (uring_abs el) (uring_abs (u_expire_one n rd el))"
    by (rule uring_deliver_one[OF _ reg])
      (use armed due in \<open>auto simp: u_expire_one_def expired_def split: option.splits\<close>)
qed

lemma uring_abs_cong:
  assumes "u_waiters el' = u_waiters el" "u_ready_queue el' = u_ready_queue el"
    "u_wait_results el' = u_wait_results el" "u_active_task_count el' = u_active_task_count el"
  shows "uring_abs el' = uring_abs el"
  using assms ureg_cong[OF assms(1)] by (intro uring_abs_eqI) simp_all

lemma u_expire_registration_cases [consumes 2, case_names kept ended]:
  assumes "u_expire_registration K now n rd nd el w = (nd', el', w')" "uring_inv el"
  obtains "\<not> expired now (ureg n rd el)" "el' = el" "w' = w" "nd' = min_opt nd (reg_deadline (ureg n rd el))"
  | b el1 where "expired now (ureg n rd el)" "nd' = nd" "el1 = (u_expire_one n rd el)\<lparr>submission_pending := b\<rparr>"
      "el' = el1 \<or> (\<exists>e. el' = el1\<lparr>u_loop_error := Some e, u_stop_requested := True\<rparr>)"
proof (cases "map_of (u_waiters el) n")
  case None
  then have "ureg n rd el = no_uregistration" by (simp add: ureg_def u_slot_def)
  with assms(1) None show thesis
    by (intro that(1)) (auto simp: u_expire_registration_def expired_def)
next
  case (Some s)
  then have r: "ureg n rd el = uslot_reg rd s" "u_slot n el = s" by (simp_all add: ureg_def u_slot_def)
  show thesis
  proof (cases "expired now (uslot_reg rd s)")
    case False
    with assms(1) Some r show thesis by (intro that(1)) (auto simp: u_expire_registration_def Let_def)
  next
    case True
    note armed = u_expired_armed[OF True]
    have tok: "token (uslot_reg rd s) \<noteq> 0"
      using assms(2) armed utokensD(2,3)[of el] r unfolding uring_inv_def by metis
    have eq: "(let r = uslot_reg rd s;
          el1 = u_schedule (handle r) (el\<lparr>u_wait_results := (u_wait_results el)(handle r \<mapsto> Inl (timeout_error r))\<rparr>);
          el2 = (if 0 < u_timed_waiter_count el1
                 then el1\<lparr>u_timed_waiter_count := u_timed_waiter_count el1 - 1\<rparr> else el1);
          el3 = el2\<lparr>u_waiters := AList.update n (set_uslot_reg rd no_uregistration s) (u_waiters el2)\<rparr>;
          el4 = (if 0 < u_pending_waiter_count el3
                 then el3\<lparr>u_pending_waiter_count := u_pending_waiter_count el3 - 1\<rparr> else el3)
        in el4\<lparr>inflight_polls := AList.delete (token r) (inflight_polls el4)\<rparr>) = u_expire_one n rd el"
      using armed by (simp add: u_expire_one_def u_schedule_def r Let_def)
    obtain res el5 w1 where q: "queue_poll_remove K (token (uslot_reg rd s)) (u_expire_one n rd el) w = (res, el5, w1)"
      by (metis prod_cases3)
    note el5 = queue_poll_remove_frame[OF q]
    have "(nd', el', w') = (case res of
        Inl e \<Rightarrow> (nd, el5\<lparr>u_loop_error := Some e, u_stop_requested := True\<rparr>, w1) | Inr _ \<Rightarrow> (nd, el5, w1))"
      using assms(1) Some True tok q eq
      by (simp add: u_expire_registration_def Let_def split: sum.splits)
    with True r show thesis
      by (intro that(2)[OF _ _ el5]) (auto split: sum.splits)
  qed
qed

lemma uring_inv_flags:
  assumes "uring_inv el"
  shows "uring_inv (el\<lparr>submission_pending := b\<rparr>)"
    "uring_inv (el\<lparr>u_loop_error := e, u_stop_requested := b\<rparr>)" "uring_inv (el\<lparr>u_stop_requested := b\<rparr>)"
    "uring_inv (el\<lparr>u_stop_requested := b, u_loop_error := e\<rparr>)"
    "uring_inv (el\<lparr>u_ready_queue := q\<rparr>)" "uring_inv (el\<lparr>u_root_tasks := q\<rparr>)"
    "uring_inv (el\<lparr>u_loop_error := e\<rparr>)"
  by (rule uring_inv_cong[OF assms]; simp add: uring_inv_next_token[OF assms])+

text \<open>What one call of the lambda does, whichever way it ends.\<close>

lemma u_expire_registration_facts:
  assumes run: "u_expire_registration K now n rd nd el w = (nd', el', w')" and inv: "uring_inv el"
  shows "uring_inv el' \<and> deliveries (Timed_out now) (uring_abs el) (uring_abs el')
    \<and> (\<forall>m d. ureg m d el' = (if m = n \<and> d = rd \<and> expired now (ureg n rd el) then no_uregistration else ureg m d el))
    \<and> map fst (u_waiters el') = map fst (u_waiters el)
    \<and> u_next_deadline el' = u_next_deadline el
    \<and> nd' = min_opt nd (reg_deadline (ureg n rd el'))
    \<and> u_ready_queue el' = u_ready_queue el @ map handle (filter (expired now) [ureg n rd el])
    \<and> u_wait_results el' = post_timeouts (filter (expired now) [ureg n rd el]) (u_wait_results el)
    \<and> u_active_task_count el' = u_active_task_count el"
  using run inv
proof (cases rule: u_expire_registration_cases)
  case kept
  with inv show ?thesis by (simp add: post_timeouts_def)
next
  case (ended b el1)
  note one = u_expire_one_facts[OF inv ended(1)]
  obtain s where s: "map_of (u_waiters el) n = Some s"
    using u_expired_armed[OF ended(1)] ureg_armed_slot by metis
  have same: "uring_abs el' = uring_abs (u_expire_one n rd el)" "u_waiters el' = u_waiters (u_expire_one n rd el)"
    using ended(3,4) by (auto intro: uring_abs_cong)
  have reg: "ureg m d el' = (if m = n \<and> d = rd then no_uregistration else ureg m d el)" for m d
    using one(3)[of m d] ureg_cong[OF same(2)] by simp
  have "uring_inv el'"
    using ended(3,4) uring_inv_flags(1)[OF one(1), of b] uring_inv_flags(2)[OF uring_inv_flags(1)[OF one(1), of b]]
    by auto
  moreover have "deliveries (Timed_out now) (uring_abs el) (uring_abs el')" using one(2) same(1) by auto
  moreover have "map fst (u_waiters el') = map fst (u_waiters el)"
    using s by (simp add: same(2) u_expire_one_def keys_update_present)
  ultimately show ?thesis
    using ended reg by (auto simp: u_expire_one_def post_timeouts_def)
qed

lemma u_erase_idle_facts:
  assumes "uring_inv el"
  shows "uring_inv (u_erase_idle n el)" "uring_abs (u_erase_idle n el) = uring_abs el"
    "ureg m d (u_erase_idle n el) = ureg m d el" "u_next_deadline (u_erase_idle n el) = u_next_deadline el"
    "u_loop_error (u_erase_idle n el) = u_loop_error el"
    "u_ready_queue (u_erase_idle n el) = u_ready_queue el" "u_wait_results (u_erase_idle n el) = u_wait_results el"
    "fst ` set (u_waiters (u_erase_idle n el)) \<subseteq> fst ` set (u_waiters el)"
proof -
  have *: "uring_inv (u_erase_idle n el) \<and> (\<forall>m d. ureg m d (u_erase_idle n el) = ureg m d el)"
  proof (cases "map_of (u_waiters el) n")
    case None
    with assms show ?thesis by (simp add: u_erase_idle_def)
  next
    case (Some s)
    with assms uring_inv_erase[OF assms Some] show ?thesis by (simp add: u_erase_idle_def)
  qed
  then show "uring_inv (u_erase_idle n el)" "ureg m d (u_erase_idle n el) = ureg m d el" by blast+
  show fields: "u_next_deadline (u_erase_idle n el) = u_next_deadline el"
    "u_loop_error (u_erase_idle n el) = u_loop_error el"
    "u_ready_queue (u_erase_idle n el) = u_ready_queue el" "u_wait_results (u_erase_idle n el) = u_wait_results el"
    "fst ` set (u_waiters (u_erase_idle n el)) \<subseteq> fst ` set (u_waiters el)"
    using set_delete_subset[of n "u_waiters el"] by (auto simp: u_erase_idle_def split: option.splits)
  show "uring_abs (u_erase_idle n el) = uring_abs el"
    using * by (intro uring_abs_eqI) (auto simp: u_erase_idle_def split: option.splits)
qed

subsection \<open>Expiry\<close>

text \<open>The registrations of the given descriptors that are due, in iteration order.\<close>

definition u_due :: "time \<Rightarrow> uring_loop \<Rightarrow> int list \<Rightarrow> uwait_registration list" where
  "u_due now el ns = concat (map (\<lambda>n. filter (expired now) [ureg n True el, ureg n False el]) ns)"

lemma u_due_simps [simp]:
  "u_due now el [] = []"
  "u_due now el (n # ns) = filter (expired now) [ureg n True el, ureg n False el] @ u_due now el ns"
  by (simp_all add: u_due_def)

lemma u_due_cong: "(\<And>m d. m \<in> set ns \<Longrightarrow> ureg m d el' = ureg m d el) \<Longrightarrow> u_due now el' ns = u_due now el ns"
  by (induction ns) auto

definition u_scan_effect ::
    "time \<Rightarrow> int list \<Rightarrow> time option \<Rightarrow> uring_loop \<Rightarrow> time option \<Rightarrow> uring_loop \<Rightarrow> bool" where
  "u_scan_effect now ns nd el nd' el' = (
     (\<forall>m d. ureg m d el' = (if m \<in> set ns \<and> expired now (ureg m d el) then no_uregistration else ureg m d el))
     \<and> u_ready_queue el' = u_ready_queue el @ map handle (u_due now el ns)
     \<and> u_wait_results el' = post_timeouts (u_due now el ns) (u_wait_results el)
     \<and> le_opt nd' nd \<and> (\<forall>m \<in> set ns. \<forall>d. le_opt nd' (reg_deadline (ureg m d el'))))"

text \<open>Both registrations of one descriptor, and the erasing of its slot.\<close>

lemma u_expire_both:
  assumes e1: "u_expire_registration K now n True nd el w = (nd1, el1, w1)" and inv: "uring_inv el"
    and e2: "u_expire_registration K now n False nd1 el1 w1 = (nd2, el2, w2)"
  shows "uring_inv el2" "deliveries (Timed_out now) (uring_abs el) (uring_abs el2)"
    "map fst (u_waiters el2) = map fst (u_waiters el)" "u_next_deadline el2 = u_next_deadline el"
    "u_scan_effect now [n] nd el nd2 (u_erase_idle n el2)"
proof -
  note f1 = u_expire_registration_facts[OF e1 inv]
  then have inv1: "uring_inv el1" by blast
  note f2 = u_expire_registration_facts[OF e2 inv1]
  show "uring_inv el2" "map fst (u_waiters el2) = map fst (u_waiters el)" "u_next_deadline el2 = u_next_deadline el"
    using f1 f2 by simp_all
  show "deliveries (Timed_out now) (uring_abs el) (uring_abs el2)"
    using f1 f2 by (blast intro: rtranclp_trans)
  have r1: "ureg m d el1 = (if m = n \<and> d \<and> expired now (ureg n True el) then no_uregistration else ureg m d el)" for m d
    using f1 by simp
  have r2: "ureg m d el2 = (if m = n \<and> expired now (ureg n d el) then no_uregistration else ureg m d el)" for m d
    using f2 r1 by (cases d) simp_all
  have nd: "nd2 = min_opt (min_opt nd (reg_deadline (ureg n True el1))) (reg_deadline (ureg n False el2))"
    using f1 f2 by simp
  have "ureg n True el2 = ureg n True el1" using r1 r2 by simp
  then have "le_opt nd2 (reg_deadline (ureg n d el2))" for d
    unfolding nd by (cases d) (auto intro!: le_opt_min_optI)
  moreover have "le_opt nd2 nd" unfolding nd by (auto intro!: le_opt_min_optI)
  moreover have "u_ready_queue el2 = u_ready_queue el @ map handle (u_due now el [n])"
    "u_wait_results el2 = post_timeouts (u_due now el [n]) (u_wait_results el)"
    using f1 f2 r1 by (simp_all flip: post_timeouts_append)
  ultimately show "u_scan_effect now [n] nd el nd2 (u_erase_idle n el2)"
    using r2 u_erase_idle_facts[OF \<open>uring_inv el2\<close>] by (auto simp: u_scan_effect_def)
qed

lemma u_scan_effect_Cons:
  assumes one: "u_scan_effect now [n] nd el nd1 el1" and rest: "u_scan_effect now ns nd1 el1 nd2 el2"
    and n: "n \<notin> set ns"
  shows "u_scan_effect now (n # ns) nd el nd2 el2"
proof -
  have r1: "\<And>m d. ureg m d el1 = (if m = n \<and> expired now (ureg m d el) then no_uregistration else ureg m d el)"
    using one by (simp add: u_scan_effect_def)
  have r2: "\<And>m d. ureg m d el2 = (if m \<in> set ns \<and> expired now (ureg m d el1) then no_uregistration else ureg m d el1)"
    using rest by (simp add: u_scan_effect_def)
  have due: "u_due now el1 ns = u_due now el ns" using n r1 by (intro u_due_cong) auto
  have nd: "le_opt nd2 nd1" "le_opt nd1 nd" "\<And>d. le_opt nd1 (reg_deadline (ureg n d el1))"
    using one rest unfolding u_scan_effect_def by (blast, blast, metis list.set_intros(1))
  have "le_opt nd2 (reg_deadline (ureg m d el2))" if "m \<in> set (n # ns)" for m d
  proof (cases "m = n")
    case True
    with r2 n have "ureg m d el2 = ureg n d el1" by simp
    with nd(1) nd(3)[of d] show ?thesis by (auto intro: le_opt_trans)
  next
    case False
    with that have "m \<in> set ns" by simp
    with rest show ?thesis unfolding u_scan_effect_def by blast
  qed
  moreover have "u_ready_queue el2 = u_ready_queue el @ map handle (u_due now el (n # ns))"
    "u_wait_results el2 = post_timeouts (u_due now el (n # ns)) (u_wait_results el)"
    using one rest due by (simp_all add: u_scan_effect_def del: filter.simps)
  moreover have "ureg m d el2 = (if m \<in> set (n # ns) \<and> expired now (ureg m d el) then no_uregistration else ureg m d el)" for m d
    using r1 r2 n by auto
  moreover have "le_opt nd2 nd" using nd by (auto intro: le_opt_trans)
  ultimately show ?thesis unfolding u_scan_effect_def by blast
qed

lemma u_expire_scan_facts:
  assumes "u_expire_scan K now ns nd el w = (fin, nd', el', w')" "uring_inv el" "distinct ns"
  shows "uring_inv el' \<and> deliveries (Timed_out now) (uring_abs el) (uring_abs el')
    \<and> u_next_deadline el' = u_next_deadline el \<and> fst ` set (u_waiters el') \<subseteq> fst ` set (u_waiters el)
    \<and> (if fin then u_scan_effect now ns nd el nd' el' else u_loop_error el' \<noteq> None)"
  using assms
proof (induction ns arbitrary: nd el w)
  case Nil
  then show ?case by (auto simp: u_scan_effect_def post_timeouts_def)
next
  case (Cons n ns)
  obtain nd1 el1 w1 where e1: "u_expire_registration K now n True nd el w = (nd1, el1, w1)" by (metis prod_cases3)
  obtain nd2 el2 w2 where e2: "u_expire_registration K now n False nd1 el1 w1 = (nd2, el2, w2)" by (metis prod_cases3)
  note one = u_expire_registration_facts[OF e1 Cons.prems(2)]
  note both = u_expire_both[OF e1 Cons.prems(2) e2]
  have keys: "fst ` set (u_waiters el1) = fst ` set (u_waiters el)" "fst ` set (u_waiters el2) = fst ` set (u_waiters el)"
    using one both(3) by (metis list.set_map)+
  show ?case
  proof (cases "u_loop_error el1 \<noteq> None \<or> u_loop_error el2 \<noteq> None")
    case True
    with Cons.prems(1) one both keys e1 e2 show ?thesis by (auto split: if_splits)
  next
    case False
    let ?el3 = "u_erase_idle n el2"
    note er = u_erase_idle_facts[OF both(1), of n]
    from False Cons.prems(1) e1 e2 have rest: "u_expire_scan K now ns nd2 ?el3 w2 = (fin, nd', el', w')" by simp
    have d: "distinct ns" "n \<notin> set ns" using Cons.prems(3) by auto
    note ih = Cons.IH[OF rest er(1) d(1)]
    have "deliveries (Timed_out now) (uring_abs el) (uring_abs el')"
      using both(2) ih er(2) by (simp add: rtranclp_trans)
    moreover have "fin \<Longrightarrow> u_scan_effect now (n # ns) nd el nd' el'"
      using u_scan_effect_Cons[OF both(5) _ d(2)] ih by auto
    moreover have "fst ` set (u_waiters el') \<subseteq> fst ` set (u_waiters el)"
      using ih er(8) unfolding keys(2) by blast
    ultimately show ?thesis using ih er(4) both(4) by auto
  qed
qed

lemma u_process_expired_cases [consumes 1, case_names none early scanned]:
  assumes "u_process_expired_waiters K el w = (el', w')"
  defines "now \<equiv> a_num (K (trace w) Clock_now)" and "w1 \<equiv> snd (sys K Clock_now w)"
  obtains
    "u_timed_waiter_count el = 0" "el' = el\<lparr>u_next_deadline := None, u_deadline_index_dirty := False\<rparr>" "w' = w"
  | nd where "0 < u_timed_waiter_count el" "u_next_deadline el = Some nd" "now < nd" "el' = el" "w' = w1"
  | fin nd el1 where "0 < u_timed_waiter_count el"
      "u_expire_scan K now (map fst (u_waiters el)) None el w1 = (fin, nd, el1, w')"
      "el' = (if fin then el1\<lparr>u_next_deadline := nd, u_deadline_index_dirty := False\<rparr> else el1)"
proof -
  have clk: "clock_now K w = (now, w1)" by (simp add: now_def w1_def clock_now_eq)
  obtain fin nd el1 w2 where sc: "u_expire_scan K now (map fst (u_waiters el)) None el w1 = (fin, nd, el1, w2)"
    by (metis prod_cases4)
  consider "u_timed_waiter_count el = 0"
    | (early) nd where "0 < u_timed_waiter_count el" "\<not> u_deadline_index_dirty el"
        "u_next_deadline el = Some nd" "now < nd"
    | (scan) "0 < u_timed_waiter_count el" "\<not> (\<not> u_deadline_index_dirty el
        \<and> (case u_next_deadline el of None \<Rightarrow> False | Some nd \<Rightarrow> now < nd))"
    by (fastforce split: option.splits)
  then show thesis
  proof cases
    case 1
    with assms(1) show thesis by (intro that(1)) (simp_all add: u_process_expired_waiters_def)
  next
    case (early nd)
    with assms(1) show thesis
      by (intro that(2)[of nd]) (simp_all add: u_process_expired_waiters_def clk)
  next
    case scan
    with assms(1) have "el' = (if fin then el1\<lparr>u_next_deadline := nd, u_deadline_index_dirty := False\<rparr> else el1)"
      "w' = w2"
      by (cases fin; simp add: u_process_expired_waiters_def clk sc del: de_Morgan_conj)+
    with sc show thesis by (intro that(3)[OF scan(1)]) simp_all
  qed
qed

lemma ucounts_new_deadline:
  assumes inv: "uring_inv el" and nd: "\<And>m d. m \<in> fst ` set (u_waiters el) \<Longrightarrow> le_opt nd (reg_deadline (ureg m d el))"
  shows "uring_inv (el\<lparr>u_next_deadline := nd, u_deadline_index_dirty := b\<rparr>)"
proof -
  let ?el = "el\<lparr>u_next_deadline := nd, u_deadline_index_dirty := b\<rparr>"
  have c: "ucounts el" and d: "distinct (map fst (u_waiters el))" using inv by (simp_all add: uring_inv_def ucounts_def)
  have "uslot_ok nd s" if "(m, s) \<in> set (u_waiters el)" for m s
  proof -
    have at: "map_of (u_waiters el) m = Some s" using that d by simp
    have "m \<in> fst ` set (u_waiters el)" using that by force
    with nd[of m] ucounts_slot(1)[OF c at] show ?thesis
      by (simp add: uslot_ok_def ureg_def u_slot_Some[OF at])
  qed
  with c have "ucounts ?el" by (auto simp: ucounts_def)
  moreover have "ureg m d ?el = ureg m d el" for m d by (rule ureg_cong) simp
  then have "utokens ?el"
    using inv utokensD(1)[of el] by (intro utokens_cong[of el ?el]) (simp_all add: uring_inv_def)
  ultimately show ?thesis using inv by (simp add: uring_inv_def uinflight_def)
qed

lemma uring_untimed:
  assumes "uring_inv el" "u_timed_waiter_count el = 0"
  shows "reg_deadline (ureg m d el) = None"
proof (cases "map_of (u_waiters el) m")
  case None
  then show ?thesis by (simp add: ureg_def u_slot_def)
next
  case (Some s)
  with assms ucounts_slot(5)[OF _ Some] have "uslot_timed s = 0" by (simp add: uring_inv_def)
  then show ?thesis by (cases d) (simp_all add: ureg_def u_slot_Some[OF Some] uslot_timed_def)
qed

lemma uring_deadline_bound:
  assumes "uring_inv el"
  shows "le_opt (u_next_deadline el) (reg_deadline (ureg m d el))"
proof (cases "map_of (u_waiters el) m")
  case None
  then show ?thesis by (simp add: ureg_def u_slot_def)
next
  case (Some s)
  from assms ucounts_slot(1)[OF _ Some] show ?thesis
    by (simp add: uring_inv_def uslot_ok_def ureg_def u_slot_Some[OF Some])
qed

lemma not_expired_before: "le_opt (Some nd) (reg_deadline r) \<Longrightarrow> now < nd \<Longrightarrow> \<not> expired now r"
  by (auto simp: expired_def reg_deadline_def split: option.splits)

lemma u_not_expired_untimed: "reg_deadline r = None \<Longrightarrow> \<not> expired now r"
  by (auto simp: expired_def reg_deadline_def split: option.splits)

text \<open>A pass of \<^verbatim>\<open>process_expired_waiters\<close>: the invariant, the refinement, and exactness without errors.\<close>

lemma u_process_expired_facts:
  assumes inv: "uring_inv el" and run: "u_process_expired_waiters K el w = (el', w')"
  defines "now \<equiv> a_num (K (trace w) Clock_now)"
  shows "uring_inv el'" "deliveries (Timed_out now) (uring_abs el) (uring_abs el')"
    "u_loop_error el' = None \<Longrightarrow>
       (\<forall>m d. ureg m d el' = (if expired now (ureg m d el) then no_uregistration else ureg m d el))
       \<and> u_ready_queue el' = u_ready_queue el @ map handle (u_due now el (map fst (u_waiters el)))
       \<and> u_wait_results el' = post_timeouts (u_due now el (map fst (u_waiters el))) (u_wait_results el)"
proof -
  have none_due: "u_due now el ns = []" if "\<And>m d. \<not> expired now (ureg m d el)" for ns
    using that by (induction ns) auto
  have "uring_inv el' \<and> deliveries (Timed_out now) (uring_abs el) (uring_abs el') \<and>
    (u_loop_error el' = None \<longrightarrow>
       (\<forall>m d. ureg m d el' = (if expired now (ureg m d el) then no_uregistration else ureg m d el))
       \<and> u_ready_queue el' = u_ready_queue el @ map handle (u_due now el (map fst (u_waiters el)))
       \<and> u_wait_results el' = post_timeouts (u_due now el (map fst (u_waiters el))) (u_wait_results el))"
    using run
  proof (cases rule: u_process_expired_cases)
    case none
    have "uring_inv el'" unfolding none(2) using uring_untimed[OF inv none(1)] by (intro ucounts_new_deadline[OF inv]) simp
    moreover have "uring_abs el' = uring_abs el" unfolding none(2) by (rule uring_abs_cong) simp_all
    moreover have "ureg m d el' = ureg m d el" for m d unfolding none(2) by (rule ureg_cong) simp
    ultimately show ?thesis
      using u_not_expired_untimed[OF uring_untimed[OF inv none(1)]] none_due none(2) by (simp add: post_timeouts_def)
  next
    case (early nd)
    have "\<not> expired now (ureg m d el)" for m d
      using uring_deadline_bound[OF inv, of m d] not_expired_before[of nd "ureg m d el" now] early(2,3)
      by (simp add: now_def)
    with early inv none_due show ?thesis by (simp add: post_timeouts_def)
  next
    case (scanned fin nd el1)
    have d: "distinct (map fst (u_waiters el))" using inv by (simp add: uring_inv_def ucounts_def)
    note f = u_expire_scan_facts[OF scanned(2) inv d]
    have same: "uring_abs el' = uring_abs el1" "u_loop_error el' = u_loop_error el1" "\<And>m d. ureg m d el' = ureg m d el1"
      "u_ready_queue el' = u_ready_queue el1" "u_wait_results el' = u_wait_results el1"
      using scanned(3) by (auto intro: uring_abs_cong ureg_cong)
    have outside: "ureg m d el = no_uregistration" if "m \<notin> fst ` set (u_waiters el)" for m d
      using that by (simp add: ureg_def u_slot_def map_of_eq_None_iff[THEN iffD2])
    show ?thesis
    proof (cases fin)
      case True
      with f have eff: "u_scan_effect now (map fst (u_waiters el)) None el nd el1" by (simp add: now_def)
      have "le_opt nd (reg_deadline (ureg m d el1))" if "m \<in> fst ` set (u_waiters el1)" for m d
      proof -
        have "m \<in> set (map fst (u_waiters el))" using that f by auto
        with eff show ?thesis unfolding u_scan_effect_def by blast
      qed
      then have "uring_inv el'" using True scanned(3) f ucounts_new_deadline[of el1 nd] by simp
      moreover have "ureg m d el1 = (if expired now (ureg m d el) then no_uregistration else ureg m d el)" for m d
        using eff outside[of m d] unfolding u_scan_effect_def by (auto simp: expired_def)
      ultimately show ?thesis using f eff same by (simp add: u_scan_effect_def now_def)
    next
      case False
      with f have "u_loop_error el1 \<noteq> None" by simp
      with False f same scanned(3) show ?thesis by (auto simp: now_def)
    qed
  qed
  then show "uring_inv el'" "deliveries (Timed_out now) (uring_abs el) (uring_abs el')"
    "u_loop_error el' = None \<Longrightarrow>
       (\<forall>m d. ureg m d el' = (if expired now (ureg m d el) then no_uregistration else ureg m d el))
       \<and> u_ready_queue el' = u_ready_queue el @ map handle (u_due now el (map fst (u_waiters el)))
       \<and> u_wait_results el' = post_timeouts (u_due now el (map fst (u_waiters el))) (u_wait_results el)"
    by blast+
qed

subsection \<open>Completions\<close>

text \<open>
  A completion whose token is in flight ends exactly the wait the token stands for; the two
  defensive tests of \<^verbatim>\<open>process_completion\<close> (no slot, another token) never apply. One whose token is not
  in flight changes nothing.
\<close>

definition u_complete_one :: "completion \<Rightarrow> int \<Rightarrow> bool \<Rightarrow> uring_loop \<Rightarrow> uring_loop" where
  "u_complete_one c n rd el = el\<lparr>
     u_wait_results := (u_wait_results el)(handle (ureg n rd el) \<mapsto>
       (if 0 \<le> cqe_result c then Inr () else errno_error (- cqe_result c))),
     u_ready_queue := u_ready_queue el @ [handle (ureg n rd el)],
     u_timed_waiter_count := u_timed_waiter_count el - of_bool (deadline (ureg n rd el) \<noteq> None),
     u_deadline_index_dirty := (u_deadline_index_dirty el
       \<or> deadline (ureg n rd el) \<noteq> None \<and> 0 < u_timed_waiter_count el),
     u_pending_waiter_count := u_pending_waiter_count el - 1,
     u_waiters := AList.update n (set_uslot_reg rd no_uregistration (u_slot n el)) (u_waiters el),
     inflight_polls := AList.delete (token (ureg n rd el)) (inflight_polls el)\<rparr>"

lemma process_poll_completion_eq:
  assumes inv: "uring_inv el" and at: "map_of (inflight_polls el) (user_data c) = Some \<lparr>pc_fd = n, pc_readable = rd\<rparr>"
  shows "process_poll_completion c el = u_erase_idle n (u_complete_one c n rd el)"
    and "handle (ureg n rd el) \<noteq> 0" "token (ureg n rd el) = user_data c"
proof -
  have tok: "handle (ureg n rd el) \<noteq> 0 \<and> user_data c = token (ureg n rd el)"
    using inv utokensD(3)[of el, OF _ at] by (simp add: uring_inv_def)
  then show "handle (ureg n rd el) \<noteq> 0" "token (ureg n rd el) = user_data c" by simp_all
  obtain s where s: "map_of (u_waiters el) n = Some s" "ureg n rd el = uslot_reg rd s"
    using tok ureg_armed_slot by metis
  have r: "handle (uslot_reg rd s) \<noteq> 0" "token (uslot_reg rd s) = user_data c" using tok s(2) by simp_all
  show "process_poll_completion c el = u_erase_idle n (u_complete_one c n rd el)"
    by (intro uring_loop.equality)
      (simp_all add: process_poll_completion_def at s r Let_def u_complete_one_def u_erase_idle_def u_slot_def
        update_conv' u_schedule_def)
qed

lemma process_poll_completion_facts:
  assumes inv: "uring_inv el" and at: "map_of (inflight_polls el) (user_data c) = Some \<lparr>pc_fd = n, pc_readable = rd\<rparr>"
  defines "k \<equiv> if 0 \<le> cqe_result c then Became_ready else Poll_failed (make_error_from_errno (- cqe_result c))"
  shows "uring_inv (process_poll_completion c el)"
    "deliver k (uring_abs el) (uring_abs (process_poll_completion c el))"
    "ureg m d (process_poll_completion c el) = (if m = n \<and> d = rd then no_uregistration else ureg m d el)"
    "u_ready_queue (process_poll_completion c el) = u_ready_queue el @ [handle (ureg n rd el)]"
    "u_wait_results (process_poll_completion c el) = (u_wait_results el)(handle (ureg n rd el) \<mapsto>
       (if 0 \<le> cqe_result c then Inr () else errno_error (- cqe_result c)))"
proof -
  let ?el = "u_complete_one c n rd el"
  note eq = process_poll_completion_eq[OF inv at]
  obtain s where s: "map_of (u_waiters el) n = Some s" "ureg n rd el = uslot_reg rd s"
    using eq(2) ureg_armed_slot by metis
  have reg: "ureg m d ?el = (if m = n \<and> d = rd then no_uregistration else ureg m d el)" for m d
    by (simp add: u_complete_one_def ureg_def u_slot_def update_conv' uslot_reg_set)
  have inv1: "uring_inv ?el"
    using eq(2) uring_inv_next_token[OF inv]
    by (intro uring_inv_end[OF inv s(1), of rd]) (simp_all add: u_complete_one_def s(2) u_slot_Some[OF s(1)])
  note er = u_erase_idle_facts[OF inv1, where n = n]
  have "deliver k (uring_abs el) (uring_abs ?el)"
    by (rule uring_deliver_one[OF eq(2) reg]) (auto simp: k_def u_complete_one_def)
  moreover have "u_ready_queue ?el = u_ready_queue el @ [handle (ureg n rd el)]"
    "u_wait_results ?el = (u_wait_results el)(handle (ureg n rd el) \<mapsto>
       (if 0 \<le> cqe_result c then Inr () else errno_error (- cqe_result c)))"
    by (simp_all add: u_complete_one_def)
  ultimately show "uring_inv (process_poll_completion c el)"
    "deliver k (uring_abs el) (uring_abs (process_poll_completion c el))"
    "ureg m d (process_poll_completion c el) = (if m = n \<and> d = rd then no_uregistration else ureg m d el)"
    "u_ready_queue (process_poll_completion c el) = u_ready_queue el @ [handle (ureg n rd el)]"
    "u_wait_results (process_poll_completion c el) = (u_wait_results el)(handle (ureg n rd el) \<mapsto>
       (if 0 \<le> cqe_result c then Inr () else errno_error (- cqe_result c)))"
    using er reg by (simp_all add: eq(1))
qed

subsection \<open>The invariant in every state\<close>

text \<open>What a resumed coroutine may do to the loop; its own calls leave the loop alone.\<close>

inductive u_client_step :: "kernel \<Rightarrow> uring_loop \<times> world \<Rightarrow> uring_loop \<times> world \<Rightarrow> bool" for K where
  ucl_schedule: "u_client_step K (el, w) (u_schedule h el, w)"
| ucl_completed: "u_client_step K (el, w) (u_on_task_completed el, w)"
| ucl_spawn: "u_client_step K (el, w) (u_spawn h el, w)"
| ucl_wait: "n \<le> int_max \<Longrightarrow> u_arm_waiter K n h rd timeout terr el w = (r, el', w') \<Longrightarrow>
     u_client_step K (el, w) (el', w')"
| ucl_consume: "u_consume_wait_result h el = (r, el') \<Longrightarrow> u_client_step K (el, w) (el', w)"
| ucl_stop: "u_stop fuel K el w = Some (el', w') \<Longrightarrow> u_client_step K (el, w) (el', w')"
| ucl_call: "extends w w' \<Longrightarrow> u_client_step K (el, w) (el, w')"

definition u_library_client :: "kernel \<Rightarrow> ('c, uring_loop) coro_env \<Rightarrow> bool" where
  "u_library_client K E = (\<forall>h c el w c' el' w'. co_resume E h c el w = (c', el', w') \<longrightarrow>
     (u_client_step K)\<^sup>*\<^sup>* (el, w) (el', w'))"

inductive uring_reachable ::
    "kernel \<Rightarrow> ('c, uring_loop) coro_env \<Rightarrow> 'c \<Rightarrow> uring_loop \<Rightarrow> world \<Rightarrow> bool" for K E where
  ur_construct: "uring_loop_construct K depth w = (el, w') \<Longrightarrow> uring_reachable K E c el w'"
| ur_client: "uring_reachable K E c el w \<Longrightarrow> u_client_step K (el, w) (el', w') \<Longrightarrow> uring_reachable K E c' el' w'"
| ur_run: "uring_reachable K E c el w \<Longrightarrow> u_run fuel K E c el w = Some (r, c', el', w') \<Longrightarrow>
     uring_reachable K E c' el' w'"

lemma fresh_uring_loop_inv: "uring_inv (fresh_uring_loop\<lparr>u_reactor := r, u_wake_fd := f\<rparr>)"
proof -
  let ?el = "fresh_uring_loop\<lparr>u_reactor := r, u_wake_fd := f\<rparr>"
  have "utokens ?el" by (rule utokensI) (simp_all add: fresh_uring_loop_def ureg_def u_slot_def)
  then show ?thesis by (simp add: uring_inv_def ucounts_def uinflight_def fresh_uring_loop_def)
qed

lemma queue_poll_add_inv: "uring_inv el \<Longrightarrow> queue_poll_add K t n m el w = (r, el', w') \<Longrightarrow> uring_inv el'"
  using queue_poll_add_frame uring_inv_flags(1) by metis

lemma flush_submissions_inv: "uring_inv el \<Longrightarrow> flush_submissions K el w = (r, el', w') \<Longrightarrow> uring_inv el'"
  using flush_submissions_frame uring_inv_flags(1) by metis

lemma uring_construct_inv:
  assumes "uring_loop_construct K depth w = (el, w')"
  shows "uring_inv el"
proof -
  have irrel: "uring_inv (el1\<lparr>u_init_error := e\<rparr>)" "uring_inv (el1\<lparr>wake_token := t\<rparr>)" if "uring_inv el1" for el1 e t
    by (rule uring_inv_cong[OF that]; simp add: uring_inv_next_token[OF that])+
  have tok: "uring_inv (el1\<lparr>next_token := nt\<rparr>)" if "uring_inv el1" "nt \<noteq> 0" for el1 nt
    using that by (elim uring_inv_cong) simp_all
  have fresh: "uring_inv fresh_uring_loop" "\<And>r. uring_inv (fresh_uring_loop\<lparr>u_reactor := r\<rparr>)"
    using fresh_uring_loop_inv[where r = "\<lparr>ring = False\<rparr>" and f = empty_fd] fresh_uring_loop_inv[where f = empty_fd]
    by (simp_all add: fresh_uring_loop_def)
  obtain cr w1 where c: "uring_create K depth w = (cr, w1)" by fastforce
  show ?thesis
  proof (cases cr)
    case (Inl e)
    with assms c irrel(1)[OF fresh(1)] show ?thesis by (auto simp: uring_loop_construct_def)
  next
    case (Inr r)
    obtain a w2 where ev: "sys K Eventfd w1 = (a, w2)" by fastforce
    show ?thesis
    proof (cases "a_ret a < 0")
      case True
      with assms c Inr ev irrel(1)[OF fresh(2)] show ?thesis by (auto simp: uring_loop_construct_def)
    next
      case False
      let ?el2 = "fresh_uring_loop\<lparr>u_reactor := r, u_wake_fd := make_fd (a_ret a)\<rparr>"
      obtain t el3 where al: "allocate_token ?el2 = (t, el3)" by fastforce
      have "uring_inv el3" using allocate_token_ok[OF fresh_uring_loop_inv al] tok fresh_uring_loop_inv by metis
      then have inv4: "uring_inv (el3\<lparr>wake_token := t\<rparr>)" by (rule irrel)
      obtain qr el5 w3 where q: "queue_poll_add K t (fd_get (u_wake_fd (el3\<lparr>wake_token := t\<rparr>))) kReadPollMask
          (el3\<lparr>wake_token := t\<rparr>) w2 = (qr, el5, w3)" by (metis prod_cases3)
      obtain fr el6 w4 where fl: "flush_submissions K el5 w3 = (fr, el6, w4)" by (metis prod_cases3)
      have inv5: "uring_inv el5" using queue_poll_add_inv[OF inv4 q] .
      have inv6: "uring_inv el6" using flush_submissions_inv[OF inv5 fl] .
      from assms c Inr ev False al q fl inv5 inv6 irrel show ?thesis
        by (auto simp: uring_loop_construct_def Let_def split: sum.splits)
    qed
  qed
qed

lemma u_client_step_inv:
  assumes "uring_inv el" "u_client_step K (el, w) (el', w')"
  shows "uring_inv el'"
  using assms(2)
proof cases
  case (ucl_wait n h rd timeout terr r)
  with assms(1) u_arm_waiter_inv show ?thesis by blast
next
  case (ucl_stop fuel)
  then have "el' = el\<lparr>u_stop_requested := True\<rparr>" by (auto simp: u_stop_def Let_def split: if_splits)
  with assms(1) show ?thesis by (simp add: uring_inv_flags)
qed (use assms(1) uring_inv_simple_ops in auto)

text \<open>What every step of the loop keeps, \<^verbatim>\<open>run\<close> keeps.\<close>

locale uring_property =
  fixes K :: kernel and P :: "uring_loop \<Rightarrow> bool"
  assumes client: "P el \<Longrightarrow> u_client_step K (el, w) (el', w') \<Longrightarrow> P el'"
    and flags: "P el \<Longrightarrow> P (el\<lparr>submission_pending := b\<rparr>)" "P el \<Longrightarrow> P (el\<lparr>u_stop_requested := b\<rparr>)"
      "P el \<Longrightarrow> P (el\<lparr>u_loop_error := e\<rparr>)" "P el \<Longrightarrow> P (el\<lparr>u_loop_error := e, u_stop_requested := b\<rparr>)"
      "P el \<Longrightarrow> P (el\<lparr>u_stop_requested := b, u_loop_error := e\<rparr>)"
      "P el \<Longrightarrow> P (el\<lparr>u_ready_queue := q\<rparr>)" "P el \<Longrightarrow> P (el\<lparr>u_root_tasks := q\<rparr>)"
    and expiry: "P el \<Longrightarrow> u_process_expired_waiters K el w = (el', w') \<Longrightarrow> P el'"
    and poll_completion: "P el \<Longrightarrow> P (process_poll_completion c el)"
begin

lemma queued: "P el \<Longrightarrow> queue_poll_add K t n m el w = (r, el', w') \<Longrightarrow> P el'"
  using queue_poll_add_frame flags(1) by metis

lemma flushed: "P el \<Longrightarrow> flush_submissions K el w = (r, el', w') \<Longrightarrow> P el'"
  using flush_submissions_frame flags(1) by metis

lemma resumed:
  assumes "(u_client_step K)\<^sup>*\<^sup>* (el, w) (el', w')" "P el"
  shows "P el'"
  using assms by (induction rule: rtranclp_induct2) (auto intro: client)

lemma stop_load: "P el \<Longrightarrow> u_load_stop K el w = (b, el', w') \<Longrightarrow> P el'"
  by (auto simp: u_load_stop_def Let_def flags split: prod.splits if_splits)

lemma completed:
  assumes inv: "P el" and run: "process_completion fuel K c el w = Some (el', w')"
  shows "P el'"
proof -
  consider "user_data c = 0" | "user_data c \<noteq> 0" "user_data c = wake_token el"
    | (poll) "user_data c \<noteq> 0" "user_data c \<noteq> wake_token el" by blast
  then show ?thesis
  proof cases
    case 1
    with assms show ?thesis by (simp add: process_completion_def)
  next
    case 2
    then obtain w1 where w1: "u_consume_wakeup fuel K el w = Some w1"
      using run by (auto simp: process_completion_def process_wake_completion_def split: option.splits)
    obtain b el1 w2 where st: "u_load_stop K el w1 = (b, el1, w2)" by (metis prod_cases3)
    obtain r el2 w3 where q: "queue_poll_add K (wake_token el1) (fd_get (u_wake_fd el1)) kReadPollMask el1 w2 = (r, el2, w3)"
      by (metis prod_cases3)
    obtain r' el3 w4 where f: "flush_submissions K el2 w3 = (r', el3, w4)" by (metis prod_cases3)
    have i1: "P el1" using stop_load[OF inv st] .
    have i2: "P el2" using queued[OF i1 q] .
    have i3: "P el3" using flushed[OF i2 f] .
    from run 2 w1 st q f i1 i2 i3 show ?thesis
      by (auto simp: process_completion_def process_wake_completion_def u_fail_def flags
          split: if_splits sum.splits)
  next
    case poll
    with run inv poll_completion show ?thesis by (auto simp: process_completion_def)
  qed
qed

lemma completions:
  "process_completions fuel K cs el w = Some (el', w') \<Longrightarrow> P el \<Longrightarrow> P el'"
  by (induction cs arbitrary: el w) (auto split: option.splits if_splits dest: completed)

lemma cleanup: "P el \<Longrightarrow> u_cleanup_completed_roots E c el = (c', el') \<Longrightarrow> P el'"
  by (auto simp: u_cleanup_completed_roots_def flags split: prod.splits)

lemma drained:
  assumes E: "u_library_client K E"
  shows "u_drain_ready k K E c el w = Some (c', el', w') \<Longrightarrow> P el \<Longrightarrow> P el'"
proof (induction k arbitrary: c el w)
  case (Suc k)
  show ?case
  proof (cases "u_ready_queue el")
    case Nil
    with Suc.prems show ?thesis by simp
  next
    case (Cons h q)
    let ?el1 = "el\<lparr>u_ready_queue := q\<rparr>"
    have i1: "P ?el1" using Suc.prems(2) by (simp add: flags)
    show ?thesis
    proof (cases "h = 0 \<or> co_done E c h")
      case True
      with Suc i1 Cons show ?thesis by simp
    next
      case False
      obtain c2 el2 w2 where r: "co_resume E h c ?el1 w = (c2, el2, w2)" by (metis prod_cases3)
      obtain c3 el3 where cl: "u_cleanup_completed_roots E c2 el2 = (c3, el3)" by fastforce
      obtain el4 w4 where ex: "u_process_expired_waiters K el3 w2 = (el4, w4)" by fastforce
      obtain b el5 w5 where st: "u_load_stop K el4 w4 = (b, el5, w5)" by (metis prod_cases3)
      have "P el2" using E r i1 resumed unfolding u_library_client_def by blast
      then have "P el5"
        using stop_load[OF expiry[OF cleanup[OF _ cl] ex] st] by blast
      with Suc Cons False r cl ex st show ?thesis by (auto split: if_splits)
    qed
  qed
qed simp

lemma looped:
  assumes E: "u_library_client K E"
  shows "u_run_loop k K E c el w = Some (ex, c', el', w') \<Longrightarrow> P el \<Longrightarrow> P el'"
proof (induction k arbitrary: c el w)
  case (Suc k)
  obtain b0 el0 w0 where s0: "u_load_stop K el w = (b0, el0, w0)" by (metis prod_cases3)
  obtain el1 w1 where ex: "u_process_expired_waiters K el0 w0 = (el1, w1)" by fastforce
  obtain b1 el2 w2 where s1: "u_load_stop K el1 w1 = (b1, el2, w2)" by (metis prod_cases3)
  have i0: "P el0" using stop_load[OF Suc.prems(2) s0] .
  have i2: "P el2" using stop_load[OF expiry[OF i0 ex] s1] .
  show ?case
  proof (cases "b0 \<or> b1 \<or> u_loop_error el2 \<noteq> None \<or> u_drain_ready k K E c el2 w2 = None")
    case True
    with Suc.prems(1) i0 i2 s0 ex s1 show ?thesis by (auto split: if_splits)
  next
    case False
    then obtain c3 el3 w3 where dr: "u_drain_ready k K E c el2 w2 = Some (c3, el3, w3)" by force
    obtain b3 el4 w4 where s3: "u_load_stop K el3 w3 = (b3, el4, w4)" by (metis prod_cases3)
    obtain t w5 where wt: "u_wait_timeout K el4 w4 = (t, w5)" by fastforce
    obtain r el5 w6 where fl: "flush_submissions K el4 w5 = (r, el5, w6)" by (metis prod_cases3)
    obtain res w7 where rw: "uring_wait K 64 t (u_reactor el5) w6 = (res, w7)" by fastforce
    have i4: "P el4" using stop_load[OF drained[OF E dr i2] s3] .
    have i5: "P el5" using flushed[OF i4 fl] .
    have i6: "P el6" if "process_completions k K cs el5 w7 = Some (el6, w8)" for cs el6 w8
      using completions[OF that i5] .
    from Suc.prems(1) False s0 ex s1 dr s3 wt fl rw i4 i5 i6 Suc.IH show ?thesis
      by (auto split: if_splits sum.splits option.splits)
  qed
qed simp

lemma ran:
  assumes E: "u_library_client K E" and run: "u_run fuel K E c el w = Some (r, c', el', w')" and inv: "P el"
  shows "P el'"
proof (cases "uring_loop_valid el")
  case True
  let ?el0 = "el\<lparr>u_stop_requested := False, u_loop_error := None\<rparr>"
  from True run obtain ex c1 el1 w1 where l: "u_run_loop fuel K E c ?el0 w = Some (ex, c1, el1, w1)"
    by (auto simp: u_run_def split: option.splits)
  have i1: "P el1" using looped[OF E l] inv by (simp add: flags)
  obtain c2 el2 where cl: "u_cleanup_completed_roots E c1 el1 = (c2, el2)" by fastforce
  obtain fr el3 w2 where fl: "flush_submissions K el2 w1 = (fr, el3, w2)" by (metis prod_cases3)
  have i3: "P el3" using flushed[OF cleanup[OF i1 cl] fl] .
  from run True l cl fl i1 i3 show ?thesis
    by (auto simp: u_run_def Let_def flags split: loop_exit.splits option.splits sum.splits if_splits)
next
  case False
  with run inv show ?thesis by (simp add: u_run_def)
qed

end

interpretation uring_tables: uring_property K uring_inv for K
proof (unfold_locales, goal_cases)
  case (1 el w el' w')
  then show ?case by (rule u_client_step_inv)
next
  case (9 el w el' w')
  then show ?case by (rule u_process_expired_facts(1))
next
  case (10 el c)
  show ?case
  proof (cases "map_of (inflight_polls el) (user_data c)")
    case None
    with 10 show ?thesis by (simp add: process_poll_completion_def)
  next
    case (Some ctx)
    then obtain n rd where "map_of (inflight_polls el) (user_data c) = Some \<lparr>pc_fd = n, pc_readable = rd\<rparr>"
      by (cases ctx) simp
    from process_poll_completion_facts(1)[OF 10 this] show ?thesis .
  qed
qed (simp_all add: uring_inv_flags)

lemma uring_reachable_inv:
  assumes "u_library_client K E" "uring_reachable K E c el w"
  shows "uring_inv el"
  using assms(2)
  by induction (auto intro: uring_construct_inv u_client_step_inv uring_tables.ran[OF assms(1)])

end
