(* ===== verification/Uring_Event_Loop_Claims.thy ===== *)
theory Uring_Event_Loop_Claims
  imports Uring_Event_Loop_Run
begin

section \<open>The io_uring event loop: what is claimed\<close>

text \<open>
  The properties of the loop, stated over its own definitions, with an example of each: a ring
  that always has a free submission entry, the wake-up event on descriptor 4, a clock that shows
  one millisecond per call made, and the wait of coroutine 11 to read descriptor 7 for at most
  five milliseconds.
\<close>

definition ring_kernel :: kernel where
  "ring_kernel tr c = (case c of
       Eventfd \<Rightarrow> ok_answer\<lparr>a_ret := 4\<rparr>
     | Clock_now \<Rightarrow> ok_answer\<lparr>a_num := ns_per_ms * int (length tr)\<rparr>
     | _ \<Rightarrow> ok_answer\<lparr>a_ptr := True\<rparr>)"

definition ring_env :: "(co_handle list, uring_loop) coro_env" where
  "ring_env = \<lparr>co_done = (\<lambda>c h. h \<in> set c),
     co_resume = (\<lambda>h c el w. (h # c, u_on_task_completed el, w)),
     co_destroy = (\<lambda>h c. removeAll h c)\<rparr>"

definition ring_loop :: "uring_loop \<times> world" where
  "ring_loop = uring_loop_construct ring_kernel 256 init_world"

definition ring_armed :: "uring_loop \<times> world" where
  "ring_armed = snd (u_arm_waiter ring_kernel 7 11 True (Some 5) (make_error_from_errno ETIMEDOUT)
     (fst ring_loop) (snd ring_loop))"

lemma ring_client: "u_library_client ring_kernel ring_env"
  by (auto simp: u_library_client_def ring_env_def intro: ucl_completed)

lemma ring_armed_ok:
  "u_arm_waiter ring_kernel 7 11 True (Some 5) (make_error_from_errno ETIMEDOUT) (fst ring_loop) (snd ring_loop)
     = (Inr (), fst ring_armed, snd ring_armed)"
proof -
  have "fst (u_arm_waiter ring_kernel 7 11 True (Some 5) (make_error_from_errno ETIMEDOUT)
      (fst ring_loop) (snd ring_loop)) = Inr ()" by code_simp
  then show ?thesis by (simp add: ring_armed_def prod_eq_iff)
qed

lemma ring_reachable: "uring_reachable ring_kernel ring_env [] (fst ring_armed) (snd ring_armed)"
proof -
  have "uring_reachable ring_kernel ring_env [] (fst ring_loop) (snd ring_loop)"
    by (rule ur_construct[of ring_kernel 256 init_world]) (simp add: ring_loop_def)
  moreover have "u_client_step ring_kernel (fst ring_loop, snd ring_loop) (fst ring_armed, snd ring_armed)"
    by (rule ucl_wait[OF _ ring_armed_ok]) simp
  ultimately show ?thesis by (rule ur_client)
qed

lemmas ring_inv = uring_reachable_inv[OF ring_client ring_reachable]

lemma ring_armed_state:
  "u_waiters (fst ring_armed) = [(7, \<lparr>u_readable = \<lparr>handle = 11, deadline = Some 11000000,
     timeout_error = make_error_from_errno ETIMEDOUT, token = 2\<rparr>, u_writable = no_uregistration\<rparr>)]"
  "inflight_polls (fst ring_armed) = [(2, \<lparr>pc_fd = 7, pc_readable = True\<rparr>)]"
  "u_pending_waiter_count (fst ring_armed) = 1" "u_ready_queue (fst ring_armed) = []"
  "u_next_deadline (fst ring_armed) = Some 11000000"
  by code_simp+

text \<open>
  C8. In every state an io_uring loop can reach, whatever its kernel answers and its coroutines
  do: a token is in \<^verbatim>\<open>inflight_polls_\<close> with a descriptor and a direction exactly if a coroutine waits
  there and its registration carries that token, which is then not zero; so tokens and pending
  waits correspond one to one, their number is the pending counter, and it stays far below the
  range of \<^verbatim>\<open>size_t\<close>.
\<close>

theorem uring_tokens_match_waits:
  assumes "u_library_client K E" "uring_reachable K E c el w"
  shows "(\<forall>t n rd. map_of (inflight_polls el) t = Some \<lparr>pc_fd = n, pc_readable = rd\<rparr> \<longleftrightarrow>
       handle (ureg n rd el) \<noteq> 0 \<and> token (ureg n rd el) = t \<and> t \<noteq> 0)
    \<and> distinct (map fst (inflight_polls el)) \<and> length (inflight_polls el) = u_pending_waiter_count el
    \<and> u_pending_waiter_count el \<le> 2 ^ 32"
proof -
  have inv: "ucounts el" "utokens el" "uinflight el"
    using uring_reachable_inv[OF assms] by (simp_all add: uring_inv_def)
  have "map_of (inflight_polls el) t = Some \<lparr>pc_fd = n, pc_readable = rd\<rparr> \<longleftrightarrow>
       handle (ureg n rd el) \<noteq> 0 \<and> token (ureg n rd el) = t \<and> t \<noteq> 0" for t n rd
    using utokensD(2)[OF inv(2), of n rd] utokensD(3)[OF inv(2), of t n rd] by blast
  with inv(3) uring_counters_bounded[OF inv(1)] show ?thesis by (simp add: uinflight_def)
qed

theorem uring_tokens_match_waits_witness:
  "handle (ureg 7 True (fst ring_armed)) \<noteq> 0 \<and> token (ureg 7 True (fst ring_armed)) = 2
     \<and> u_pending_waiter_count (fst ring_armed) \<le> 2 ^ 32"
proof -
  have at: "map_of (inflight_polls (fst ring_armed)) 2 = Some \<lparr>pc_fd = 7, pc_readable = True\<rparr>"
    by (simp add: ring_armed_state)
  note all = uring_tokens_match_waits[OF ring_client ring_reachable]
  from all at have "handle (ureg 7 True (fst ring_armed)) \<noteq> 0 \<and> token (ureg 7 True (fst ring_armed)) = 2" by blast
  with all show ?thesis by blast
qed

text \<open>
  C3. A completion ends exactly the wait it belongs to. If its token is in flight, the
  registration it was issued for ends, every other one is untouched, and its coroutine is made
  ready once, behind those already ready, with success for a poll that reported events and the
  completion's own error otherwise; a completion whose token is not in flight (its wait timed
  out before, or it was seen before) changes nothing.
\<close>

theorem poll_completion_exact:
  assumes "uring_inv el"
  shows "case map_of (inflight_polls el) (user_data c) of
      None \<Rightarrow> process_poll_completion c el = el
    | Some ctx \<Rightarrow>
        let r = ureg (pc_fd ctx) (pc_readable ctx) el; el' = process_poll_completion c el
        in handle r \<noteq> 0 \<and> token r = user_data c
         \<and> (\<forall>m d. ureg m d el' = (if m = pc_fd ctx \<and> d = pc_readable ctx then no_uregistration else ureg m d el))
         \<and> u_ready_queue el' = u_ready_queue el @ [handle r]
         \<and> u_wait_results el' = (u_wait_results el)(handle r \<mapsto>
             (if 0 \<le> cqe_result c then Inr () else errno_error (- cqe_result c)))"
proof (cases "map_of (inflight_polls el) (user_data c)")
  case None
  then show ?thesis by (simp add: process_poll_completion_def)
next
  case (Some ctx)
  then have at: "map_of (inflight_polls el) (user_data c) = Some \<lparr>pc_fd = pc_fd ctx, pc_readable = pc_readable ctx\<rparr>"
    by simp
  note f = process_poll_completion_facts(3-5)[OF assms at]
  have "utokens el" using assms by (simp add: uring_inv_def)
  from utokensD(3)[OF this at] f Some show ?thesis by (simp add: Let_def)
qed

theorem poll_completion_exact_witness:
  "u_ready_queue (process_poll_completion \<lparr>user_data = 2, cqe_result = -110\<rparr> (fst ring_armed)) = [11]
   \<and> process_poll_completion \<lparr>user_data = 9, cqe_result = 1\<rparr> (fst ring_armed) = fst ring_armed"
  using poll_completion_exact[OF ring_inv, of "\<lparr>user_data = 2, cqe_result = -110\<rparr>"]
    poll_completion_exact[OF ring_inv, of "\<lparr>user_data = 9, cqe_result = 1\<rparr>"]
  by (simp add: ring_armed_state ureg_def u_slot_def Let_def)

text \<open>
  Expiry in the io_uring loop is exact as well: a pass that met no error ends exactly the
  registrations whose deadline is not after the clock reading of the pass, takes exactly their
  tokens out of flight, and makes exactly their coroutines ready, once each, with the error their
  wait was registered with.
\<close>

theorem uring_expired_waiters_exact:
  assumes "uring_inv el" "u_process_expired_waiters K el w = (el', w')" "u_loop_error el' = None"
  defines "now \<equiv> a_num (K (trace w) Clock_now)"
  shows "(\<forall>m d. ureg m d el' = (if expired now (ureg m d el) then no_uregistration else ureg m d el))
    \<and> u_ready_queue el' = u_ready_queue el @ map handle (u_due now el (map fst (u_waiters el)))
    \<and> u_wait_results el' = post_timeouts (u_due now el (map fst (u_waiters el))) (u_wait_results el)
    \<and> (\<forall>t n rd. map_of (inflight_polls el') t = Some \<lparr>pc_fd = n, pc_readable = rd\<rparr> \<longleftrightarrow>
         handle (ureg n rd el') \<noteq> 0 \<and> token (ureg n rd el') = t)"
proof -
  have tok: "utokens el'" using u_process_expired_facts(1)[OF assms(1,2)] by (simp add: uring_inv_def)
  have "map_of (inflight_polls el') t = Some \<lparr>pc_fd = n, pc_readable = rd\<rparr> \<longleftrightarrow>
       handle (ureg n rd el') \<noteq> 0 \<and> token (ureg n rd el') = t" for t n rd
    using utokensD(2)[OF tok, of n rd] utokensD(3)[OF tok, of t n rd] by blast
  with u_process_expired_facts(3)[OF assms(1,2,3)] show ?thesis unfolding now_def by blast
qed

definition late_ring :: kernel where
  "late_ring tr c = (if c = Clock_now then ok_answer\<lparr>a_num := 14000000\<rparr> else ring_kernel tr c)"

theorem uring_expired_waiters_exact_witness:
  "u_ready_queue (fst (u_process_expired_waiters late_ring (fst ring_armed) (snd ring_armed))) = [11]
   \<and> u_wait_results (fst (u_process_expired_waiters late_ring (fst ring_armed) (snd ring_armed))) 11
       = Some (errno_error ETIMEDOUT)"
proof -
  let ?r = "u_process_expired_waiters late_ring (fst ring_armed) (snd ring_armed)"
  have err: "u_loop_error (fst ?r) = None" by code_simp
  have eq: "?r = (fst ?r, snd ?r)" by simp
  from uring_expired_waiters_exact[OF ring_inv eq err] show ?thesis
    by (simp add: late_ring_def ring_armed_state ok_answer_def expired_def post_timeouts_def ureg_def u_slot_def)
qed

text \<open>
  Both loops implement one specification: expiry in the io_uring loop, also when it is cut
  short by a failed submission, is a sequence of timeouts of registrations that were due, as it is
  in the epoll loop.
\<close>

theorem uring_expiry_refines:
  assumes "uring_inv el" "u_process_expired_waiters K el w = (el', w')"
  shows "deliveries (Timed_out (a_num (K (trace w) Clock_now))) (uring_abs el) (uring_abs el')"
  using assms by (rule u_process_expired_facts)

theorem uring_expiry_refines_witness:
  "deliveries (Timed_out 14000000) (uring_abs (fst ring_armed))
     (uring_abs (fst (u_process_expired_waiters late_ring (fst ring_armed) (snd ring_armed))))"
  using uring_expiry_refines[OF ring_inv, of late_ring "snd ring_armed"]
  by (simp add: late_ring_def ok_answer_def prod_eq_iff)

text \<open>
  C13. The loop of \<^verbatim>\<open>allocate_token\<close> ends, also across the wrap-around of the 64-bit counter past zero:
  in a reachable state one more turn than there are polls in flight suffices, and the token it
  finds is not zero and not in flight, nor is the next one it will try zero.
\<close>

theorem allocate_token_terminates:
  assumes "uring_inv el" "length (inflight_polls el) < k" "k < 2 ^ 64"
  shows "\<exists>t nt. allocate_token_loop k (inflight_polls el) (next_token el) = Some (t, nt)
    \<and> t \<noteq> 0 \<and> map_of (inflight_polls el) t = None \<and> nt \<noteq> 0"
  using allocate_token_loop_total[OF uring_inv_next_token[OF assms(1)] assms(2,3)] allocate_token_loop_Some
  by fastforce

theorem allocate_token_terminates_witness:
  "\<exists>t nt. allocate_token_loop 2 (inflight_polls (fst ring_armed)) (next_token (fst ring_armed)) = Some (t, nt)
     \<and> t \<noteq> 2"
proof -
  have "length (inflight_polls (fst ring_armed)) < 2" by (simp add: ring_armed_state)
  from allocate_token_terminates[OF ring_inv this] show ?thesis by (fastforce simp: ring_armed_state)
qed

text \<open>
  C12. A wait the io_uring loop refuses leaves no trace: if arming fails, for whatever reason (a bad
  descriptor, a second waiter, a full or failing submission queue), the registrations, the ready
  coroutines and the results are as before, and the tables stay consistent.
\<close>

theorem uring_failed_wait_undone:
  assumes "uring_inv el" "n \<le> int_max" "u_arm_waiter K n h rd timeout terr el w = (Inl e, el', w')"
  shows "uring_abs el' = uring_abs el \<and> uring_inv el'"
proof (cases "uring_loop_valid el")
  case True
  then show ?thesis
    using uring.wait_error_abs[of "(el, w)" K rd n h timeout terr e "(el', w')"] assms
      u_arm_waiter_inv[OF assms] by (simp add: uring_wait_for)
next
  case False
  with assms show ?thesis by (simp add: u_arm_waiter_def)
qed

definition full_ring :: kernel where
  "full_ring tr c = (if c = Uring_get_sqe then ok_answer else ring_kernel tr c)"

theorem uring_failed_wait_undone_witness:
  "\<exists>el w. u_arm_waiter full_ring 8 12 True (Some 9) (make_error_from_errno ETIMEDOUT) (fst ring_armed) (snd ring_armed)
       = (errno_error EBUSY, el, w) \<and> uring_abs el = uring_abs (fst ring_armed) \<and> uring_inv el"
proof -
  let ?a = "u_arm_waiter full_ring 8 12 True (Some 9) (make_error_from_errno ETIMEDOUT) (fst ring_armed) (snd ring_armed)"
  have "fst ?a = errno_error EBUSY" by code_simp
  then obtain el w where run: "?a = (errno_error EBUSY, el, w)" by (cases ?a) auto
  from uring_failed_wait_undone[OF ring_inv _ run] run show ?thesis by simp
qed

text \<open>
  The io_uring loop never sleeps past a deadline: while a coroutine waits with a deadline,
  the timeout for the ring is present, is zero or ends no later than that deadline, and reaches
  the kernel unchanged as seconds and nanoseconds in range.
\<close>

theorem uring_wait_never_oversleeps:
  assumes "uring_inv el" "reg_deadline (ureg n rd el) = Some d" "u_wait_timeout K el w = (timeout, w')"
  shows "\<exists>t. timeout = Some t \<and> 0 \<le> t \<and> t \<le> int_max
    \<and> (t = 0 \<or> a_num (K (trace w) Clock_now) + t * ns_per_ms \<le> d)
    \<and> (case to_kernel_timespec t of (s, ns) \<Rightarrow> s * 1000000000 + ns = t * ns_per_ms \<and> 0 \<le> ns \<and> ns < 1000000000)"
proof -
  obtain nd where nd: "u_next_deadline el = Some nd" "nd \<le> d"
    using uring_deadline_bound[OF assms(1), of n rd] assms(2) by (cases "u_next_deadline el") auto
  let ?now = "a_num (K (trace w) Clock_now)"
  define t where "t = (if nd - ?now \<le> 0 then 0 else min ((nd - ?now) div ns_per_ms) int_max)"
  have t: "timeout = Some t" using assms(3) nd by (auto simp: u_wait_timeout_def clock_now_eq Let_def t_def)
  have range: "0 \<le> t" "t \<le> int_max" by (auto simp: t_def pos_imp_zdiv_nonneg_iff)
  have "?now + t * ns_per_ms \<le> d" if "t \<noteq> 0"
  proof -
    from that have "t \<le> (nd - ?now) div ns_per_ms" by (auto simp: t_def split: if_splits)
    then have "t * ns_per_ms \<le> nd - ?now" by linarith
    with nd(2) show ?thesis by simp
  qed
  with t range to_kernel_timespec_exact[of t] show ?thesis by (fastforce split: prod.splits)
qed

theorem uring_wait_never_oversleeps_witness:
  "\<exists>t w. u_wait_timeout ring_kernel (fst ring_armed) (snd ring_armed) = (Some t, w) \<and> 0 \<le> t \<and> t \<le> int_max"
proof -
  obtain timeout w where run: "u_wait_timeout ring_kernel (fst ring_armed) (snd ring_armed) = (timeout, w)" by fastforce
  have "reg_deadline (ureg 7 True (fst ring_armed)) = Some 11000000"
    by (simp add: ring_armed_state ureg_def u_slot_def reg_deadline_def)
  from uring_wait_never_oversleeps[OF ring_inv this run] run show ?thesis by auto
qed

end
