(* ===== verification/Endpoint.thy ===== *)
theory Endpoint
  imports Core "HOL-Library.Char_ord"
begin

section \<open>Endpoints and socket addresses\<close>

text \<open>
  \<^verbatim>\<open>blocking/endpoint\<close> and \<^verbatim>\<open>blocking/socket_helpers\<close>: the textual host and port of an endpoint and
  its conversion to and from \<^verbatim>\<open>sockaddr_in\<close>. \<^verbatim>\<open>inet_pton\<close> and \<^verbatim>\<open>inet_ntop\<close> are libc's; they are a
  parameter, the record \<open>inet\<close>, with the documented fact that each undoes the other as the
  hypothesis \<open>inet_ok\<close>. \<^verbatim>\<open>htons\<close> and \<^verbatim>\<open>ntohs\<close> swap the bytes, as on the little-endian machines the
  library runs on.
\<close>

record endpoint =
  host :: string
  port :: "16 word"

definition loopback :: "16 word \<Rightarrow> endpoint" where
  "loopback p = \<lparr>host = ''127.0.0.1'', port = p\<rparr>"

definition endpoint_any :: "16 word \<Rightarrow> endpoint" where
  "endpoint_any p = \<lparr>host = ''0.0.0.0'', port = p\<rparr>"

text \<open>
  \<^verbatim>\<open>inet_pton\<close> yields an address exactly if it returns 1; \<^verbatim>\<open>inet_ntop\<close> yields the text or, for a null
  result, the error number.
\<close>

record inet =
  inet_pton :: "string \<Rightarrow> 32 word option"
  inet_ntop :: "32 word \<Rightarrow> int + string"

definition c_str :: "string \<Rightarrow> string" where
  "c_str s = takeWhile (\<lambda>c. c \<noteq> CHR 0x00) s"

definition htons :: "16 word \<Rightarrow> 16 word" where
  "htons p = push_bit 8 p OR drop_bit 8 p"

definition ntohs :: "16 word \<Rightarrow> 16 word" where
  "ntohs p = push_bit 8 p OR drop_bit 8 p"

abbreviation (input) AF_INET :: int where "AF_INET \<equiv> 2"

definition to_sockaddr :: "inet \<Rightarrow> endpoint \<Rightarrow> sockaddr_in result" where
  "to_sockaddr I ep =
     (case inet_pton I (c_str (host ep)) of
        Some a \<Rightarrow> Inr \<lparr>sin_family = AF_INET, sin_port = htons (port ep), sin_addr = a\<rparr>
      | None \<Rightarrow> errno_error EINVAL)"

definition from_sockaddr :: "inet \<Rightarrow> sockaddr_in \<Rightarrow> endpoint result" where
  "from_sockaddr I addr =
     (case inet_ntop I (sin_addr addr) of
        Inl e \<Rightarrow> Inl (from_errno_value e)
      | Inr s \<Rightarrow> Inr \<lparr>host = s, port = ntohs (sin_port addr)\<rparr>)"

definition set_reuse_addr :: "kernel \<Rightarrow> int \<Rightarrow> world \<Rightarrow> unit result \<times> world" where
  "set_reuse_addr K n w =
     (let (a, w1) = sys K (Setsockopt n SO_REUSEADDR 1) w
      in if a_ret a = 0 then (Inr (), w1) else (Inl (from_errno w1), w1))"

subsection \<open>Decimal text\<close>

text \<open>\<^verbatim>\<open>std::to_string\<close> of an unsigned number, and the number a digit string denotes.\<close>

definition digit_char :: "nat \<Rightarrow> char" where
  "digit_char d = char_of (48 + d)"

definition is_digit :: "char \<Rightarrow> bool" where
  "is_digit c = (48 \<le> (of_char c :: nat) \<and> (of_char c :: nat) \<le> 57)"

definition digit_val :: "char \<Rightarrow> nat" where
  "digit_val c = of_char c - 48"

fun to_string :: "nat \<Rightarrow> string" where
  "to_string n = (if n < 10 then [digit_char n] else to_string (n div 10) @ [digit_char (n mod 10)])"

declare to_string.simps [simp del]

definition dec_value :: "string \<Rightarrow> nat" where
  "dec_value ds = foldl (\<lambda>a c. 10 * a + digit_val c) 0 ds"

lemma digit_char_facts [simp]:
  assumes "d < 10"
  shows "is_digit (digit_char d)" "digit_val (digit_char d) = d"
  using assms by (simp_all add: is_digit_def digit_char_def digit_val_def)

lemma dec_value_snoc [simp]: "dec_value (ds @ [c]) = 10 * dec_value ds + digit_val c"
  by (simp add: dec_value_def)

lemma to_string_facts:
  "dec_value (to_string n) = n" "list_all is_digit (to_string n)" "to_string n \<noteq> []"
proof (induction n rule: to_string.induct)
  case (1 n)
  {
    case 1
    show ?case using "1.IH"(1) by (cases "n < 10") (simp_all add: to_string.simps[of n] dec_value_def)
  next
    case 2
    show ?case using "1.IH"(2) by (cases "n < 10") (simp_all add: to_string.simps[of n])
  next
    case 3
    show ?case by (simp add: to_string.simps[of n])
  }
qed

lemma is_digit_not:
  "is_digit c \<Longrightarrow> c \<noteq> CHR '':''" "is_digit c \<Longrightarrow> c \<noteq> CHR ''.''" "is_digit c \<Longrightarrow> c \<noteq> CHR 0x00"
  by (auto simp: is_digit_def)

subsection \<open>Byte order and round trips\<close>

lemma byte_swap_involution: "ntohs (htons p) = p" "htons (ntohs p) = p"
proof -
  have "push_bit 8 (push_bit 8 p OR drop_bit 8 p) OR drop_bit 8 (push_bit 8 p OR drop_bit 8 p) = p"
    by (rule bit_eqI) (auto simp: bit_simps bit_push_bit_iff_nat)
  then show "ntohs (htons p) = p" "htons (ntohs p) = p" by (simp_all add: htons_def ntohs_def)
qed

text \<open>
  What is documented of the two conversions: the text of an address is dotted decimal, so it has
  neither a null nor a colon, and parsing it gives the address back.
\<close>

definition inet_ok :: "inet \<Rightarrow> bool" where
  "inet_ok I = (\<forall>a. \<exists>s. inet_ntop I a = Inr s \<and> inet_pton I s = Some a
     \<and> CHR 0x00 \<notin> set s \<and> CHR '':'' \<notin> set s \<and> s \<noteq> [])"

lemma c_str_id: "CHR 0x00 \<notin> set s \<Longrightarrow> c_str s = s"
  by (induction s) (auto simp: c_str_def)

lemma inet_okE:
  assumes "inet_ok I"
  obtains s where "inet_ntop I a = Inr s" "inet_pton I s = Some a" "c_str s = s" "CHR '':'' \<notin> set s" "s \<noteq> []"
proof -
  from assms obtain s where "inet_ntop I a = Inr s" "inet_pton I s = Some a" "CHR 0x00 \<notin> set s"
    "CHR '':'' \<notin> set s" "s \<noteq> []"
    unfolding inet_ok_def by blast
  with that c_str_id show thesis by blast
qed

text \<open>
  Addresses survive the conversion to an endpoint and back: for every IPv4 socket address,
  whatever its port and host, \<^verbatim>\<open>from_sockaddr\<close> gives an endpoint and \<^verbatim>\<open>to_sockaddr\<close> of it is the address
  again; the port passes through host byte order unchanged.
\<close>

theorem sockaddr_roundtrip:
  assumes "inet_ok I" "sin_family a = AF_INET"
  shows "\<exists>ep. from_sockaddr I a = Inr ep \<and> to_sockaddr I ep = Inr a \<and> htons (port ep) = sin_port a"
proof -
  obtain s where "inet_ntop I (sin_addr a) = Inr s" "inet_pton I s = Some (sin_addr a)" "c_str s = s"
    using inet_okE[OF assms(1)] by blast
  with assms(2) show ?thesis by (simp add: from_sockaddr_def to_sockaddr_def byte_swap_involution)
qed

subsection \<open>Dotted decimal\<close>

text \<open>
  Functions that satisfy \<open>inet_ok\<close>, for concrete examples: four octets in decimal, lowest byte of
  the address word first, separated by dots.
\<close>

fun split_dots :: "string \<Rightarrow> string list" where
  "split_dots [] = [[]]"
| "split_dots (c # cs) = (if c = CHR ''.'' then [] # split_dots cs
     else (case split_dots cs of [] \<Rightarrow> [[c]] | x # xs \<Rightarrow> (c # x) # xs))"

definition quad_octet :: "string \<Rightarrow> bool" where
  "quad_octet d = (d \<noteq> [] \<and> list_all is_digit d \<and> dec_value d \<le> 255)"

definition quad_pton :: "string \<Rightarrow> 32 word option" where
  "quad_pton s = (case split_dots s of
       [a, b, c, d] \<Rightarrow> if list_all quad_octet [a, b, c, d]
         then Some (of_nat (dec_value a) + 256 * of_nat (dec_value b) + 65536 * of_nat (dec_value c)
           + 16777216 * of_nat (dec_value d))
         else None
     | _ \<Rightarrow> None)"

definition octet :: "nat \<Rightarrow> 32 word \<Rightarrow> nat" where
  "octet i a = unat (take_bit 8 (drop_bit (8 * i) a))"

definition quad_ntop :: "32 word \<Rightarrow> int + string" where
  "quad_ntop a = Inr (to_string (octet 0 a) @ ''.'' @ to_string (octet 1 a) @ ''.''
     @ to_string (octet 2 a) @ ''.'' @ to_string (octet 3 a))"

definition quad_inet :: inet where
  "quad_inet = \<lparr>inet_pton = quad_pton, inet_ntop = quad_ntop\<rparr>"

lemma split_dots_digits: "list_all is_digit s \<Longrightarrow> split_dots s = [s]"
  by (induction s) (auto dest: is_digit_not)

lemma split_dots_append: "list_all is_digit s \<Longrightarrow> split_dots (s @ CHR ''.'' # t) = s # split_dots t"
  by (induction s) (auto dest: is_digit_not)

lemma quad_octet_to_string: "n \<le> 255 \<Longrightarrow> quad_octet (to_string n)"
  by (simp add: quad_octet_def to_string_facts)

lemma octet_eq: "octet i a = unat a div 256 ^ i mod 256"
proof -
  have "unat a < 2 ^ 32" using unsigned_less[of a, where 'a = nat] by simp
  then have "take_bit 32 (unat a) = unat a" by (rule take_bit_nat_eq_self)
  then have "octet i a = take_bit 8 (drop_bit (8 * i) (unat a))"
    by (simp add: octet_def unsigned_take_bit_eq unsigned_drop_bit_eq)
  then show ?thesis by (simp add: take_bit_eq_mod drop_bit_eq_div power_mult)
qed

lemma octet_small: "octet i a \<le> 255"
  using mod_less_divisor[of 256 "unat a div 256 ^ i"] by (simp add: octet_eq)

lemma octets_value:
  "of_nat (octet 0 a) + 256 * of_nat (octet 1 a) + 65536 * of_nat (octet 2 a) + 16777216 * of_nat (octet 3 a) = a"
proof -
  let ?n = "unat a"
  have "?n < 2 ^ 32" using unsigned_less[of a, where 'a = nat] by simp
  then have top: "?n div 256 div 256 div 256 < 256" by (simp add: div_mult2_eq[symmetric])
  have o: "octet 0 a = ?n mod 256" "octet 1 a = ?n div 256 mod 256" "octet 2 a = ?n div 256 div 256 mod 256"
    "octet 3 a = ?n div 256 div 256 div 256"
    using top by (simp_all add: octet_eq div_mult2_eq[symmetric] power2_eq_square power3_eq_cube)
  have "256 * (m div 256) + m mod 256 = m" for m :: nat by simp
  from this[of ?n] this[of "?n div 256"] this[of "?n div 256 div 256"]
  have "octet 0 a + 256 * octet 1 a + 65536 * octet 2 a + 16777216 * octet 3 a = ?n" unfolding o by linarith
  then have "of_nat (octet 0 a + 256 * octet 1 a + 65536 * octet 2 a + 16777216 * octet 3 a) = a" by simp
  then show ?thesis by (simp only: of_nat_add of_nat_mult of_nat_numeral)
qed

lemma quad_roundtrip:
  assumes "quad_ntop a = Inr s"
  shows "quad_pton s = Some a" "CHR 0x00 \<notin> set s" "CHR '':'' \<notin> set s" "s \<noteq> []"
proof -
  have digits: "c \<in> set (to_string n) \<Longrightarrow> is_digit c" for c n
    using to_string_facts(2)[of n] by (simp add: list_all_iff)
  have s: "s = to_string (octet 0 a) @ ''.'' @ to_string (octet 1 a) @ ''.''
     @ to_string (octet 2 a) @ ''.'' @ to_string (octet 3 a)"
    using assms by (simp add: quad_ntop_def)
  show "quad_pton s = Some a"
    using octets_value[of a]
    by (simp add: s quad_pton_def split_dots_append split_dots_digits to_string_facts quad_octet_to_string[OF octet_small])
  show "CHR 0x00 \<notin> set s" "CHR '':'' \<notin> set s" unfolding s by (auto dest!: digits simp: is_digit_def)
  show "s \<noteq> []" unfolding s by simp
qed

lemma quad_inet_ok: "inet_ok quad_inet"
proof -
  have "\<exists>s. quad_ntop a = Inr s" for a by (simp add: quad_ntop_def)
  then have "\<exists>s. quad_ntop a = Inr s \<and> quad_pton s = Some a \<and> CHR 0x00 \<notin> set s \<and> CHR '':'' \<notin> set s \<and> s \<noteq> []" for a
    using quad_roundtrip[of a] by blast
  then show ?thesis unfolding inet_ok_def quad_inet_def inet.simps by blast
qed

theorem sockaddr_roundtrip_witness:
  "\<exists>ep. from_sockaddr quad_inet \<lparr>sin_family = AF_INET, sin_port = 0x5000, sin_addr = 0x0100007F\<rparr> = Inr ep
     \<and> to_sockaddr quad_inet ep = Inr \<lparr>sin_family = AF_INET, sin_port = 0x5000, sin_addr = 0x0100007F\<rparr>
     \<and> htons (port ep) = 0x5000"
  using sockaddr_roundtrip[OF quad_inet_ok, of "\<lparr>sin_family = AF_INET, sin_port = 0x5000, sin_addr = 0x0100007F\<rparr>"]
  by simp

end
