(* ===== verification/Socket_Interface.thy ===== *)
theory Socket_Interface
  imports Endpoint "HOL-Library.Sublist"
begin

section \<open>What sockets promise\<close>

text \<open>
  The contracts the socket classes share, whichever of the blocking and non-blocking layers
  provides them: an operation that makes a socket owns what it opened and nothing else
  (\<open>fd_factory\<close>), and an operation that transfers bytes accounts for exactly the bytes it reports
  (\<open>byte_sink\<close>, \<open>byte_source\<close>). The theories of the layers and of the coroutine operations
  interpret them.
\<close>

subsection \<open>Ownership of new descriptors\<close>

text \<open>
  The balance of the descriptor ledger between two histories: what was opened in between is
  closed again or is in \<open>M\<close>.
\<close>

definition ledger :: "world \<Rightarrow> world \<Rightarrow> int multiset \<Rightarrow> bool" where
  "ledger w w' M = (mset (opened (trace w')) + mset (closed (trace w))
     = mset (opened (trace w)) + mset (closed (trace w')) + M)"

lemma ledger_refl [simp]: "ledger w w {#}"
  by (simp add: ledger_def)

lemma ledger_trans:
  assumes "ledger w w1 M" "ledger w1 w2 N"
  shows "ledger w w2 (M + N)"
proof -
  let ?o = "\<lambda>w. mset (opened (trace w))" and ?c = "\<lambda>w. mset (closed (trace w))"
  have "?o w2 + ?c w + (?c w1 + ?o w1) = (?o w2 + ?c w1) + (?o w1 + ?c w)" by (simp add: ac_simps)
  also have "\<dots> = (?o w1 + ?c w2 + N) + (?o w + ?c w1 + M)" using assms by (simp add: ledger_def)
  also have "\<dots> = ?o w + ?c w2 + (M + N) + (?c w1 + ?o w1)" by (simp add: ac_simps)
  finally show ?thesis by (simp add: ledger_def)
qed

lemma ledger_sys:
  "\<not> opens c \<Longrightarrow> (\<forall>n. c \<noteq> Close n) \<Longrightarrow> ledger w (snd (sys K c w)) {#}"
  "opens c \<Longrightarrow> c \<noteq> Pipe2 \<Longrightarrow> ledger w (snd (sys K c w)) (if 0 \<le> a_ret (K (trace w) c) then {#a_ret (K (trace w) c)#} else {#})"
  by (cases c; simp add: ledger_def)+

lemma ledger_destroy:
  assumes "ledger w w1 (owns u)"
  shows "ledger w (fd_destroy K u w1) {#}"
proof -
  have "opened (trace (fd_destroy K u w1)) = opened (trace w1)" by (simp add: fd_destroy_eq)
  with assms show ?thesis by (simp add: ledger_def fd_destroy_closed ac_simps)
qed

text \<open>Returning an object that takes over the local owner: \<^verbatim>\<open>return X{std::move(owned_fd)}\<close>.\<close>

definition return_owned :: "kernel \<Rightarrow> (unique_fd \<Rightarrow> 'a) \<Rightarrow> unique_fd \<Rightarrow> world \<Rightarrow> 'a result \<times> world" where
  "return_owned K mk owned w = (let (u, owned1) = fd_move_construct owned in (Inr (mk u), fd_destroy K owned1 w))"

text \<open>Returning an error while a local owner is in scope.\<close>

definition return_error :: "kernel \<Rightarrow> error \<Rightarrow> unique_fd \<Rightarrow> world \<Rightarrow> 'a result \<times> world" where
  "return_error K e owned w = (Inl e, fd_destroy K owned w)"

text \<open>
  The contract of an operation that makes an object: an error leaves nothing open, an object owns
  exactly what was opened.
\<close>

definition made :: "('a \<Rightarrow> unique_fd) \<Rightarrow> world \<Rightarrow> 'a result \<times> world \<Rightarrow> bool" where
  "made f w res = (case res of
       (Inl e, w') \<Rightarrow> ledger w w' {#}
     | (Inr x, w') \<Rightarrow> fd_valid (f x) \<and> ledger w w' {#fd (f x)#})"

lemma return_owned_eq: "return_owned K mk (make_fd n) w = (Inr (mk (make_fd n)), w)"
  by (simp add: return_owned_def fd_move_construct_def fd_destroy_eq fd_valid_def)

text \<open>What an operation that makes an object is computed with, to check its ledger.\<close>

lemmas made_simps = made_def ledger_def return_error_def return_owned_eq fd_destroy_eq set_reuse_addr_def
  sys_eq fd_valid_def Let_def

text \<open>The world after the returned object, if there is one, has been destroyed again.\<close>

definition disposed :: "kernel \<Rightarrow> ('a \<Rightarrow> unique_fd) \<Rightarrow> 'a result \<times> world \<Rightarrow> world" where
  "disposed K f res = (case res of (Inl e, w') \<Rightarrow> w' | (Inr x, w') \<Rightarrow> fd_destroy K (f x) w')"

locale fd_factory =
  fixes make :: "kernel \<Rightarrow> world \<Rightarrow> 'a result \<times> world"
    and fd_of :: "'a \<Rightarrow> unique_fd"
  assumes make_ok: "make K w = (Inr x, w') \<Longrightarrow> fd_valid (fd_of x) \<and> ledger w w' {#fd (fd_of x)#}"
    and make_err: "make K w = (Inl e, w') \<Longrightarrow> ledger w w' {#}"
begin

text \<open>
  Making an object and destroying it leaves the ledger balanced, on every path.
\<close>

lemma make_made: "made fd_of w (make K w)"
  using make_ok[of K w] make_err[of K w] by (auto simp: made_def split: prod.split sum.split)

lemma make_then_destroy: "ledger w (disposed K fd_of (make K w)) {#}"
proof (cases "make K w")
  case (Pair r w')
  show ?thesis
  proof (cases r)
    case (Inl e)
    with Pair make_err show ?thesis by (simp add: disposed_def)
  next
    case (Inr x)
    with Pair make_ok[of K w x w'] ledger_destroy[of w w' "fd_of x" K] show ?thesis
      by (simp add: owns_def disposed_def)
  qed
qed

end

lemma fd_factoryI:
  assumes "\<And>K w. made f w (mk K w)"
  shows "fd_factory mk f"
proof
  show "fd_valid (f x) \<and> ledger w w' {#fd (f x)#}" if "mk K w = (Inr x, w')" for K w x w'
    using assms[of w K] that by (simp add: made_def)
  show "ledger w w' {#}" if "mk K w = (Inl e, w')" for K w e w'
    using assms[of w K] that by (simp add: made_def)
qed

subsection \<open>Transferring bytes\<close>

text \<open>
  \<open>put buf w r w'\<close>: writing \<open>buf\<close> in world \<open>w\<close> may end with result \<open>r\<close> in world \<open>w'\<close>. A reported count is
  at most the length and exactly that prefix was accepted by the kernel; after an error nothing
  was.
\<close>

locale byte_sink =
  fixes put :: "byte list \<Rightarrow> world \<Rightarrow> nat result \<Rightarrow> world \<Rightarrow> bool"
    and sink :: int
  assumes put_ok: "put buf w (Inr k) w' \<Longrightarrow>
      k \<le> length buf \<and> sent sink (trace w') = sent sink (trace w) @ take k buf"
    and put_err: "put buf w (Inl e) w' \<Longrightarrow> sent sink (trace w') = sent sink (trace w)"
begin

text \<open>Nothing is lost or repeated: what was sent, then what is left, is what there was to send.\<close>

lemma put_conserves:
  assumes "put buf w (Inr k) w'"
  shows "sent sink (trace w') @ drop k buf = sent sink (trace w) @ buf" "k \<le> length buf"
  using put_ok[OF assms] by simp_all

end

text \<open>Storing received bytes at the front of a buffer.\<close>

definition store :: "byte list \<Rightarrow> byte list \<Rightarrow> byte list" where
  "store d buf = take (length buf) d @ drop (length d) buf"

lemma store_length [simp]: "length (store d buf) = length buf"
  by (simp add: store_def)

lemma store_nil [simp]: "store [] buf = buf"
  by (simp add: store_def)

lemma store_fits: "length d \<le> length buf \<Longrightarrow> store d buf = d @ drop (length d) buf"
  by (simp add: store_def)

text \<open>
  \<open>get buf w r buf' w'\<close>: reading into \<open>buf\<close> may leave it as \<open>buf'\<close>; the reported count is the number of
  bytes stored at its front, and they are the next bytes the kernel delivered.
\<close>

locale byte_source =
  fixes get :: "byte list \<Rightarrow> world \<Rightarrow> nat result \<Rightarrow> byte list \<Rightarrow> world \<Rightarrow> bool"
    and source :: int
  assumes get_ok: "get buf w (Inr k) buf' w' \<Longrightarrow>
      \<exists>d. length d = k \<and> k \<le> length buf \<and> buf' = d @ drop k buf
        \<and> received source (trace w') = received source (trace w) @ d"
    and get_err: "get buf w (Inl e) buf' w' \<Longrightarrow>
      buf' = buf \<and> received source (trace w') = received source (trace w)"
begin

text \<open>
  Reading on behind \<open>done\<close> bytes that are in place, as the loops over a buffer do: the bytes in place
  stay, and they and what was received before them stay in step with the kernel.
\<close>

lemma get_extends:
  assumes "get (drop i buf) w (Inr k) rest w'" "i \<le> length buf"
  defines "buf' \<equiv> take i buf @ rest"
  shows "\<exists>d. length d = k \<and> i + k \<le> length buf \<and> take (i + k) buf' = take i buf @ d
    \<and> drop (i + k) buf' = drop (i + k) buf \<and> length buf' = length buf
    \<and> received source (trace w') = received source (trace w) @ d"
proof -
  from get_ok[OF assms(1)] obtain d where "length d = k" "k \<le> length buf - i" "rest = d @ drop k (drop i buf)"
    "received source (trace w') = received source (trace w) @ d" by auto
  with assms(2) show ?thesis by (intro exI[of _ d]) (auto simp: buf'_def add.commute)
qed

end

lemma recv_boundedD:
  assumes "recv_bounded K" "0 \<le> a_ret (K tr (Recv n m))"
  shows "length (a_data (K tr (Recv n m))) = nat (a_ret (K tr (Recv n m)))" "nat (a_ret (K tr (Recv n m))) \<le> m"
  using assms unfolding recv_bounded_def by (simp_all add: nat_le_iff)

lemma send_boundedD: "send_bounded K \<Longrightarrow> nat (a_ret (K tr (Send n buf))) \<le> length buf"
  unfolding send_bounded_def by (simp add: nat_le_iff)

subsection \<open>Interruptions\<close>

text \<open>
  A system call that was interrupted by a signal before it transferred anything, and the
  hypothesis that a thread is interrupted only finitely often.
\<close>

definition interrupted_answer :: "answer \<Rightarrow> bool" where
  "interrupted_answer a = (a_ret a < 0 \<and> a_errno a = EINTR)"

definition interruptions :: "history \<Rightarrow> nat" where
  "interruptions tr = length (filter (interrupted_answer \<circ> snd) tr)"

definition interrupts_at_most :: "nat \<Rightarrow> kernel \<Rightarrow> bool" where
  "interrupts_at_most m K = (\<forall>tr c. m \<le> interruptions tr \<longrightarrow> \<not> interrupted_answer (K tr c))"

lemma interruptions_Cons [simp]:
  "interruptions ((c, a) # tr) = of_bool (interrupted_answer a) + interruptions tr"
  by (simp add: interruptions_def)

end
