(* ===== verification/Blocking_Sockets.thy ===== *)
theory Blocking_Sockets
  imports Socket_Interface
begin

section \<open>Blocking sockets\<close>

text \<open>
  \<^verbatim>\<open>blocking/tcp.cpp\<close> and \<^verbatim>\<open>blocking/udp.cpp\<close>. A buffer to fill is passed as its contents and returned
  with what was stored. A function that leaves the scope of a local \<^verbatim>\<open>unique_fd\<close> destroys it; the
  value it returns, \<^verbatim>\<open>error::from_errno()\<close> included, is computed before.
\<close>

record tcp_stream =
  stream_fd :: unique_fd

record tcp_listener =
  listener_fd :: unique_fd

record udp_socket =
  udp_fd :: unique_fd

record received_datagram =
  dg_size :: nat
  dg_from :: endpoint

subsection \<open>Streams\<close>

definition stream_valid :: "tcp_stream \<Rightarrow> bool" where
  "stream_valid s = fd_valid (stream_fd s)"

definition stream_native_handle :: "tcp_stream \<Rightarrow> int" where
  "stream_native_handle s = fd_get (stream_fd s)"

definition stream_connect :: "inet \<Rightarrow> endpoint \<Rightarrow> kernel \<Rightarrow> world \<Rightarrow> tcp_stream result \<times> world" where
  "stream_connect I remote K w =
     (case to_sockaddr I remote of
        Inl e \<Rightarrow> (Inl e, w)
      | Inr addr \<Rightarrow>
          let (a, w1) = sys K (Socket SOCK_STREAM True False) w
          in if a_ret a < 0 then (Inl (from_errno w1), w1)
             else
               let owned = make_fd (a_ret a);
                   (b, w2) = sys K (Connect (fd_get owned) addr) w1
               in if a_ret b \<noteq> 0 then return_error K (from_errno w2) owned w2
                  else return_owned K (\<lambda>u. \<lparr>stream_fd = u\<rparr>) owned w2)"

definition stream_read_some ::
    "kernel \<Rightarrow> byte list \<Rightarrow> tcp_stream \<Rightarrow> world \<Rightarrow> nat result \<times> byte list \<times> world" where
  "stream_read_some K buf s w =
     (if \<not> stream_valid s then (errno_error EBADF, buf, w)
      else if buf = [] then (Inr 0, buf, w)
      else
        let (a, w1) = sys K (Recv (fd_get (stream_fd s)) (length buf)) w
        in if a_ret a < 0 then (Inl (from_errno w1), buf, w1)
           else (Inr (nat (a_ret a)), store (a_data a) buf, w1))"

definition stream_write_some ::
    "kernel \<Rightarrow> byte list \<Rightarrow> tcp_stream \<Rightarrow> world \<Rightarrow> nat result \<times> world" where
  "stream_write_some K buf s w =
     (if \<not> stream_valid s then (errno_error EBADF, w)
      else if buf = [] then (Inr 0, w)
      else
        let (a, w1) = sys K (Send (fd_get (stream_fd s)) buf) w
        in if a_ret a < 0 then (Inl (from_errno w1), w1)
           else (Inr (nat (a_ret a)), w1))"

definition stream_shutdown_write :: "kernel \<Rightarrow> tcp_stream \<Rightarrow> world \<Rightarrow> unit result \<times> world" where
  "stream_shutdown_write K s w =
     (if \<not> stream_valid s then (errno_error EBADF, w)
      else
        let (a, w1) = sys K (Shutdown_write (fd_get (stream_fd s))) w
        in if a_ret a = 0 then (Inr (), w1) else (Inl (from_errno w1), w1))"

subsection \<open>Listeners\<close>

definition listener_valid :: "tcp_listener \<Rightarrow> bool" where
  "listener_valid l = fd_valid (listener_fd l)"

definition listener_native_handle :: "tcp_listener \<Rightarrow> int" where
  "listener_native_handle l = fd_get (listener_fd l)"

definition listener_bind ::
    "inet \<Rightarrow> endpoint \<Rightarrow> int \<Rightarrow> kernel \<Rightarrow> world \<Rightarrow> tcp_listener result \<times> world" where
  "listener_bind I local_ep backlog K w =
     (case to_sockaddr I local_ep of
        Inl e \<Rightarrow> (Inl e, w)
      | Inr addr \<Rightarrow>
          let (a, w1) = sys K (Socket SOCK_STREAM True False) w
          in if a_ret a < 0 then (Inl (from_errno w1), w1)
             else
               let owned = make_fd (a_ret a)
               in case set_reuse_addr K (fd_get owned) w1 of
                    (Inl e, w2) \<Rightarrow> return_error K e owned w2
                  | (Inr _, w2) \<Rightarrow>
                      let (b, w3) = sys K (Bind (fd_get owned) addr) w2
                      in if a_ret b \<noteq> 0 then return_error K (from_errno w3) owned w3
                         else
                           let (c, w4) = sys K (Listen (fd_get owned) backlog) w3
                           in if a_ret c \<noteq> 0 then return_error K (from_errno w4) owned w4
                              else return_owned K (\<lambda>u. \<lparr>listener_fd = u\<rparr>) owned w4)"

definition listener_accept :: "tcp_listener \<Rightarrow> kernel \<Rightarrow> world \<Rightarrow> tcp_stream result \<times> world" where
  "listener_accept l K w =
     (if \<not> listener_valid l then (errno_error EBADF, w)
      else
        let (a, w1) = sys K (Accept4 (fd_get (listener_fd l)) True False) w
        in if a_ret a < 0 then (Inl (from_errno w1), w1)
           else (Inr \<lparr>stream_fd = make_fd (a_ret a)\<rparr>, w1))"

text \<open>\<^verbatim>\<open>local_port\<close> of a TCP listener and of a UDP socket, over their owned descriptor.\<close>

definition fd_local_port :: "kernel \<Rightarrow> unique_fd \<Rightarrow> world \<Rightarrow> 16 word result \<times> world" where
  "fd_local_port K u w =
     (if \<not> fd_valid u then (errno_error EBADF, w)
      else
        let (a, w1) = sys K (Getsockname (fd_get u)) w
        in if a_ret a \<noteq> 0 then (Inl (from_errno w1), w1)
           else (Inr (ntohs (sin_port (a_addr a))), w1))"

definition listener_local_port :: "kernel \<Rightarrow> tcp_listener \<Rightarrow> world \<Rightarrow> 16 word result \<times> world" where
  "listener_local_port K l w = fd_local_port K (listener_fd l) w"

subsection \<open>Whole buffers\<close>

text \<open>
  The loops of \<^verbatim>\<open>write_all\<close> and \<^verbatim>\<open>read_exact\<close>; \<open>buf\<close> is the part that remains. They may be interrupted
  without bound, so a turn costs one unit of fuel. \<open>read_loop\<close> returns the bytes it stored.
\<close>

fun write_loop :: "nat \<Rightarrow> kernel \<Rightarrow> int \<Rightarrow> byte list \<Rightarrow> world \<Rightarrow> (unit result \<times> world) option" where
  "write_loop 0 K n buf w = None"
| "write_loop (Suc fuel) K n buf w =
     (if buf = [] then Some (Inr (), w)
      else
        let (a, w1) = sys K (Send n buf) w
        in if a_ret a < 0
           then if errno w1 = EINTR then write_loop fuel K n buf w1 else Some (Inl (from_errno w1), w1)
           else if a_ret a = 0 then Some (errno_error EPIPE, w1)
           else write_loop fuel K n (drop (nat (a_ret a)) buf) w1)"

definition write_all ::
    "nat \<Rightarrow> kernel \<Rightarrow> byte list \<Rightarrow> tcp_stream \<Rightarrow> world \<Rightarrow> (unit result \<times> world) option" where
  "write_all fuel K buf s w =
     (if \<not> stream_valid s then Some (errno_error EBADF, w)
      else if buf = [] then Some (Inr (), w)
      else write_loop fuel K (stream_native_handle s) buf w)"

fun read_loop ::
    "nat \<Rightarrow> kernel \<Rightarrow> int \<Rightarrow> nat \<Rightarrow> byte list \<Rightarrow> world \<Rightarrow> (unit result \<times> byte list \<times> world) option" where
  "read_loop 0 K n remaining got w = None"
| "read_loop (Suc fuel) K n remaining got w =
     (if remaining = 0 then Some (Inr (), got, w)
      else
        let (a, w1) = sys K (Recv n remaining) w
        in if a_ret a < 0
           then if errno w1 = EINTR then read_loop fuel K n remaining got w1
                else Some (Inl (from_errno w1), got, w1)
           else if a_ret a = 0 then Some (errno_error ECONNRESET, got, w1)
           else read_loop fuel K n (remaining - nat (a_ret a)) (got @ a_data a) w1)"

definition read_exact ::
    "nat \<Rightarrow> kernel \<Rightarrow> byte list \<Rightarrow> tcp_stream \<Rightarrow> world \<Rightarrow> (unit result \<times> byte list \<times> world) option" where
  "read_exact fuel K buf s w =
     (if \<not> stream_valid s then Some (errno_error EBADF, buf, w)
      else if buf = [] then Some (Inr (), buf, w)
      else case read_loop fuel K (stream_native_handle s) (length buf) [] w of
             None \<Rightarrow> None
           | Some (r, got, w1) \<Rightarrow> Some (r, store got buf, w1))"

subsection \<open>UDP\<close>

definition udp_valid :: "udp_socket \<Rightarrow> bool" where
  "udp_valid s = fd_valid (udp_fd s)"

definition udp_native_handle :: "udp_socket \<Rightarrow> int" where
  "udp_native_handle s = fd_get (udp_fd s)"

definition udp_bind :: "inet \<Rightarrow> endpoint \<Rightarrow> kernel \<Rightarrow> world \<Rightarrow> udp_socket result \<times> world" where
  "udp_bind I local_ep K w =
     (case to_sockaddr I local_ep of
        Inl e \<Rightarrow> (Inl e, w)
      | Inr addr \<Rightarrow>
          let (a, w1) = sys K (Socket SOCK_DGRAM True False) w
          in if a_ret a < 0 then (Inl (from_errno w1), w1)
             else
               let owned = make_fd (a_ret a)
               in case set_reuse_addr K (fd_get owned) w1 of
                    (Inl e, w2) \<Rightarrow> return_error K e owned w2
                  | (Inr _, w2) \<Rightarrow>
                      let (b, w3) = sys K (Bind (fd_get owned) addr) w2
                      in if a_ret b \<noteq> 0 then return_error K (from_errno w3) owned w3
                         else return_owned K (\<lambda>u. \<lparr>udp_fd = u\<rparr>) owned w3)"

definition udp_send_to ::
    "inet \<Rightarrow> kernel \<Rightarrow> byte list \<Rightarrow> endpoint \<Rightarrow> udp_socket \<Rightarrow> world \<Rightarrow> nat result \<times> world" where
  "udp_send_to I K buf remote s w =
     (if \<not> udp_valid s then (errno_error EBADF, w)
      else case to_sockaddr I remote of
             Inl e \<Rightarrow> (Inl e, w)
           | Inr addr \<Rightarrow>
               let (a, w1) = sys K (Sendto (fd_get (udp_fd s)) buf addr) w
               in if a_ret a < 0 then (Inl (from_errno w1), w1) else (Inr (nat (a_ret a)), w1))"

definition udp_recv_from ::
    "inet \<Rightarrow> kernel \<Rightarrow> byte list \<Rightarrow> udp_socket \<Rightarrow> world \<Rightarrow> received_datagram result \<times> byte list \<times> world" where
  "udp_recv_from I K buf s w =
     (if \<not> udp_valid s then (errno_error EBADF, buf, w)
      else if buf = [] then (errno_error EINVAL, buf, w)
      else
        let (a, w1) = sys K (Recvfrom (fd_get (udp_fd s)) (length buf)) w
        in if a_ret a < 0 then (Inl (from_errno w1), buf, w1)
           else case from_sockaddr I (a_addr a) of
                  Inl e \<Rightarrow> (Inl e, store (a_data a) buf, w1)
                | Inr ep \<Rightarrow> (Inr \<lparr>dg_size = nat (a_ret a), dg_from = ep\<rparr>, store (a_data a) buf, w1))"

definition udp_local_port :: "kernel \<Rightarrow> udp_socket \<Rightarrow> world \<Rightarrow> 16 word result \<times> world" where
  "udp_local_port K s w = fd_local_port K (udp_fd s) w"

subsection \<open>No descriptor is lost\<close>

interpretation tcp_connect: fd_factory "stream_connect I remote" stream_fd for I remote
proof (rule fd_factoryI)
  show "made stream_fd w (stream_connect I remote K w)" for K w
    by (auto simp: stream_connect_def made_simps split: sum.split)
qed

interpretation tcp_bind: fd_factory "listener_bind I local_ep backlog" listener_fd for I local_ep backlog
proof (rule fd_factoryI)
  show "made listener_fd w (listener_bind I local_ep backlog K w)" for K w
    by (auto simp: listener_bind_def made_simps split: sum.split)
qed

interpretation tcp_accept: fd_factory "listener_accept l" stream_fd for l
proof (rule fd_factoryI)
  show "made stream_fd w (listener_accept l K w)" for K w
    by (auto simp: listener_accept_def made_simps split: sum.split)
qed

interpretation udp_bound: fd_factory "udp_bind I local_ep" udp_fd for I local_ep
proof (rule fd_factoryI)
  show "made udp_fd w (udp_bind I local_ep K w)" for K w
    by (auto simp: udp_bind_def made_simps split: sum.split)
qed

subsection \<open>Bytes\<close>

interpretation stream_sink: byte_sink "\<lambda>buf w r w'. send_bounded K \<and> stream_write_some K buf s w = (r, w')"
  "stream_native_handle s" for K s
  using send_boundedD[of K]
  by unfold_locales (auto simp: stream_write_some_def stream_native_handle_def sys_eq split: if_splits)

interpretation stream_source: byte_source
  "\<lambda>buf w r buf' w'. recv_bounded K \<and> stream_read_some K buf s w = (r, buf', w')" "stream_native_handle s" for K s
proof
  fix buf w k buf' w'
  assume "recv_bounded K \<and> stream_read_some K buf s w = (Inr k, buf', w')"
  then show "\<exists>d. length d = k \<and> k \<le> length buf \<and> buf' = d @ drop k buf
      \<and> received (stream_native_handle s) (trace w') = received (stream_native_handle s) (trace w) @ d"
    using recv_boundedD[of K "trace w" "stream_native_handle s" "length buf"]
    by (auto simp: stream_read_some_def stream_native_handle_def sys_eq store_fits split: if_splits)
qed (auto simp: stream_read_some_def stream_native_handle_def sys_eq split: if_splits)

text \<open>
  The loop of \<^verbatim>\<open>write_all\<close> sends a prefix of the buffer, all of it exactly if it returns success;
  the loop of \<^verbatim>\<open>read_exact\<close> stores the bytes that were received, as many as were asked for exactly if
  it returns success.
\<close>

lemma write_loop_sends:
  assumes "send_bounded K" "write_loop fuel K n buf w = Some (r, w')"
  shows "\<exists>k \<le> length buf. sent n (trace w') = sent n (trace w) @ take k buf \<and> (r = Inr () \<longleftrightarrow> k = length buf)"
  using assms(2)
proof (induction fuel arbitrary: buf w)
  case (Suc fuel)
  let ?a = "K (trace w) (Send n buf)"
  let ?w = "snd (sys K (Send n buf) w)"
  consider (stop) "buf = [] \<or> a_ret ?a = 0 \<or> (a_ret ?a < 0 \<and> a_errno ?a \<noteq> EINTR)"
    | (retry) "buf \<noteq> []" "a_ret ?a < 0" "a_errno ?a = EINTR" | (more) "buf \<noteq> []" "0 < a_ret ?a" by linarith
  then show ?case
  proof cases
    case stop
    with Suc.prems show ?thesis
      by (intro exI[of _ "if r = Inr () then length buf else 0"]) (auto simp: sys_eq split: if_splits)
  next
    case retry
    with Suc.prems have "write_loop fuel K n buf ?w = Some (r, w')" by (simp add: sys_eq)
    from Suc.IH[OF this] retry(2) show ?thesis by simp
  next
    case more
    let ?j = "nat (a_ret ?a)"
    from more Suc.prems have "write_loop fuel K n (drop ?j buf) ?w = Some (r, w')" by (simp add: sys_eq)
    from Suc.IH[OF this] obtain k where k: "k \<le> length buf - ?j"
      "sent n (trace w') = sent n (trace w) @ take ?j buf @ take k (drop ?j buf)" "r = Inr () \<longleftrightarrow> k = length buf - ?j"
      by auto
    have "?j \<le> length buf" by (rule send_boundedD[OF assms(1)])
    with k show ?thesis
      by (intro exI[of _ "?j + k"]) (auto simp: take_add)
  qed
qed simp

lemma write_loop_ends:
  assumes "interrupts_at_most m K" "length buf + (m - interruptions (trace w)) < fuel"
  shows "write_loop fuel K n buf w \<noteq> None"
  using assms(2)
proof (induction fuel arbitrary: buf w)
  case (Suc fuel)
  let ?a = "K (trace w) (Send n buf)"
  let ?w = "snd (sys K (Send n buf) w)"
  consider (stop) "buf = [] \<or> a_ret ?a = 0 \<or> (a_ret ?a < 0 \<and> a_errno ?a \<noteq> EINTR)"
    | (retry) "buf \<noteq> []" "a_ret ?a < 0" "a_errno ?a = EINTR" | (more) "buf \<noteq> []" "0 < a_ret ?a" by linarith
  then show ?case
  proof cases
    case stop
    then show ?thesis by (auto simp: sys_eq)
  next
    case retry
    then have "interrupted_answer ?a" by (simp add: interrupted_answer_def)
    with assms(1) have "interruptions (trace w) < m" by (meson interrupts_at_most_def not_le)
    with \<open>interrupted_answer ?a\<close> have "write_loop fuel K n buf ?w \<noteq> None"
      using Suc.prems by (intro Suc.IH) simp
    with retry show ?thesis by (simp add: sys_eq)
  next
    case more
    then have "0 < nat (a_ret ?a)" "0 < length buf" by auto
    then have "length buf - nat (a_ret ?a) + (m - interruptions (trace w)) < fuel" using Suc.prems by linarith
    then have "write_loop fuel K n (drop (nat (a_ret ?a)) buf) ?w \<noteq> None"
      using more(2) by (intro Suc.IH) (simp add: interrupted_answer_def)
    with more show ?thesis by (simp add: sys_eq)
  qed
qed simp

lemma read_loop_receives:
  assumes "recv_bounded K" "read_loop fuel K n m got w = Some (r, got', w')"
  shows "\<exists>d. got' = got @ d \<and> received n (trace w') = received n (trace w) @ d \<and> length d \<le> m
    \<and> (r = Inr () \<longleftrightarrow> length d = m)"
  using assms(2)
proof (induction fuel arbitrary: m got w)
  case (Suc fuel)
  let ?a = "K (trace w) (Recv n m)"
  let ?w = "snd (sys K (Recv n m) w)"
  consider (stop) "m = 0 \<or> a_ret ?a = 0 \<or> (a_ret ?a < 0 \<and> a_errno ?a \<noteq> EINTR)"
    | (retry) "m \<noteq> 0" "a_ret ?a < 0" "a_errno ?a = EINTR" | (more) "m \<noteq> 0" "0 < a_ret ?a" by linarith
  then show ?case
  proof cases
    case stop
    with Suc.prems recv_boundedD[OF assms(1), of "trace w" n m] show ?thesis
      by (auto simp: sys_eq split: if_splits)
  next
    case retry
    with Suc.prems have "read_loop fuel K n m got ?w = Some (r, got', w')" by (simp add: sys_eq)
    from Suc.IH[OF this] retry(2) show ?thesis by simp
  next
    case more
    let ?j = "nat (a_ret ?a)"
    note b = recv_boundedD[OF assms(1), of "trace w" n m]
    from more Suc.prems have "read_loop fuel K n (m - ?j) (got @ a_data ?a) ?w = Some (r, got', w')" by (simp add: sys_eq)
    from Suc.IH[OF this] obtain d where d: "got' = got @ a_data ?a @ d" "length d \<le> m - ?j"
      "received n (trace w') = received n (trace w) @ a_data ?a @ d" "r = Inr () \<longleftrightarrow> length d = m - ?j"
      using more by auto
    with b more show ?thesis by (intro exI[of _ "a_data ?a @ d"]) auto
  qed
qed simp

lemma read_loop_ends:
  assumes "interrupts_at_most m K" "remaining + (m - interruptions (trace w)) < fuel"
  shows "read_loop fuel K n remaining got w \<noteq> None"
  using assms(2)
proof (induction fuel arbitrary: remaining got w)
  case (Suc fuel)
  let ?a = "K (trace w) (Recv n remaining)"
  let ?w = "snd (sys K (Recv n remaining) w)"
  consider (stop) "remaining = 0 \<or> a_ret ?a = 0 \<or> (a_ret ?a < 0 \<and> a_errno ?a \<noteq> EINTR)"
    | (retry) "remaining \<noteq> 0" "a_ret ?a < 0" "a_errno ?a = EINTR" | (more) "remaining \<noteq> 0" "0 < a_ret ?a" by linarith
  then show ?case
  proof cases
    case stop
    then show ?thesis by (auto simp: sys_eq)
  next
    case retry
    then have "interrupted_answer ?a" by (simp add: interrupted_answer_def)
    with assms(1) have "interruptions (trace w) < m" by (meson interrupts_at_most_def not_le)
    with \<open>interrupted_answer ?a\<close> have "read_loop fuel K n remaining got ?w \<noteq> None"
      using Suc.prems by (intro Suc.IH) simp
    with retry show ?thesis by (simp add: sys_eq)
  next
    case more
    then have "remaining - nat (a_ret ?a) + (m - interruptions (trace w)) < fuel" using Suc.prems by linarith
    then have "read_loop fuel K n (remaining - nat (a_ret ?a)) (got @ a_data ?a) ?w \<noteq> None"
      using more(2) by (intro Suc.IH) (simp add: interrupted_answer_def)
    with more show ?thesis by (simp add: sys_eq)
  qed
qed simp

lemma write_all_ends:
  "interrupts_at_most m K \<Longrightarrow> length buf + m < fuel \<Longrightarrow> \<exists>r w'. write_all fuel K buf s w = Some (r, w')"
  using write_loop_ends[of m K buf w fuel "stream_native_handle s"] by (auto simp: write_all_def)

lemma read_exact_ends:
  "interrupts_at_most m K \<Longrightarrow> length buf + m < fuel \<Longrightarrow> \<exists>r buf' w'. read_exact fuel K buf s w = Some (r, buf', w')"
  using read_loop_ends[of m K "length buf" w fuel "stream_native_handle s" "[]"] by (fastforce simp: read_exact_def)

text \<open>
  \<^verbatim>\<open>write_all\<close> is exact: when it returns, the kernel has accepted a prefix of the buffer, in order
  and without a byte repeated or skipped over partial writes and interruptions, and it reports
  success exactly if that prefix is the whole buffer.
\<close>

lemma write_all_exact:
  assumes "send_bounded K" "stream_valid s" "write_all fuel K buf s w = Some (r, w')"
  defines "n \<equiv> stream_native_handle s"
  shows "\<exists>k \<le> length buf. sent n (trace w') = sent n (trace w) @ take k buf \<and> (r = Inr () \<longleftrightarrow> k = length buf)"
proof (cases "buf = []")
  case True
  with assms show ?thesis by (simp add: write_all_def)
next
  case False
  with assms(2,3) have "write_loop fuel K n buf w = Some (r, w')" by (simp add: write_all_def n_def)
  with assms(1) show ?thesis by (rule write_loop_sends)
qed

text \<open>
  A kernel that is interrupted at the first call, then accepts at most three bytes at a time; and
  one that delivers two bytes at a time.
\<close>

definition slow_kernel :: kernel where
  "slow_kernel tr c = (if tr = [] then ok_answer\<lparr>a_ret := -1, a_errno := EINTR\<rparr> else (case c of
       Send n buf \<Rightarrow> ok_answer\<lparr>a_ret := min 3 (int (length buf))\<rparr>
     | Recv n m \<Rightarrow> ok_answer\<lparr>a_ret := int (min 2 m), a_data := replicate (min 2 m) 7\<rparr>
     | _ \<Rightarrow> ok_answer))"

lemma slow_kernel_bounded: "send_bounded slow_kernel" "recv_bounded slow_kernel" "interrupts_at_most 1 slow_kernel"
proof -
  show "send_bounded slow_kernel" "recv_bounded slow_kernel"
    by (auto simp: send_bounded_def recv_bounded_def slow_kernel_def ok_answer_def)
  have "interruptions [] = 0" by (simp add: interruptions_def)
  then show "interrupts_at_most 1 slow_kernel"
    by (auto simp: interrupts_at_most_def interrupted_answer_def slow_kernel_def ok_answer_def split: ext_call.splits)
qed

abbreviation stream5 :: tcp_stream where
  "stream5 \<equiv> \<lparr>stream_fd = make_fd 5\<rparr>"

lemma write_all_exact_example:
  "\<exists>w. write_all 5 slow_kernel [1, 2, 3, 4, 5] stream5 init_world = Some (Inr (), w) \<and> sent 5 (trace w) = [1, 2, 3, 4, 5]"
proof -
  have "map_option fst (write_all 5 slow_kernel [1, 2, 3, 4, 5] stream5 init_world) = Some (Inr ())" by code_simp
  then obtain w where run: "write_all 5 slow_kernel [1, 2, 3, 4, 5] stream5 init_world = Some (Inr (), w)" by auto
  from write_all_exact[OF slow_kernel_bounded(1) _ run] run show ?thesis
    by (simp add: stream_valid_def stream_native_handle_def init_world_def)
qed

text \<open>
  \<^verbatim>\<open>read_exact\<close> is exact: it stores the bytes the kernel delivered, in order, at the front of the
  buffer and leaves the rest of the buffer alone; it reports success exactly if the buffer is full.
\<close>

lemma read_exact_exact:
  assumes "recv_bounded K" "stream_valid s" "read_exact fuel K buf s w = Some (r, buf', w')"
  defines "n \<equiv> stream_native_handle s"
  shows "\<exists>d. buf' = d @ drop (length d) buf \<and> received n (trace w') = received n (trace w) @ d
    \<and> length d \<le> length buf \<and> (r = Inr () \<longleftrightarrow> length d = length buf)"
proof (cases "buf = []")
  case True
  with assms show ?thesis by (simp add: read_exact_def)
next
  case False
  with assms(2,3) obtain d where "read_loop fuel K n (length buf) [] w = Some (r, d, w')" "buf' = store d buf"
    by (auto simp: read_exact_def n_def split: option.splits)
  with read_loop_receives[OF assms(1), of fuel n "length buf" "[]" w r d w'] store_fits[of d buf] show ?thesis
    by auto
qed

lemma read_exact_exact_example:
  "\<exists>w. read_exact 9 slow_kernel [1, 2, 3, 4, 5] stream5 init_world = Some (Inr (), [7, 7, 7, 7, 7], w)
     \<and> received 5 (trace w) = [7, 7, 7, 7, 7]"
proof -
  have "map_option (\<lambda>(r, b, w). (r, b)) (read_exact 9 slow_kernel [1, 2, 3, 4, 5] stream5 init_world)
      = Some (Inr (), [7, 7, 7, 7, 7])" by code_simp
  then obtain w where run: "read_exact 9 slow_kernel [1, 2, 3, 4, 5] stream5 init_world = Some (Inr (), [7, 7, 7, 7, 7], w)"
    by auto
  from read_exact_exact[OF slow_kernel_bounded(2) _ run] run show ?thesis
    by (auto simp: stream_valid_def stream_native_handle_def init_world_def)
qed

text \<open>
  C33. Whole buffers, totally correct. On a thread that is interrupted at most \<open>m\<close> times, \<^verbatim>\<open>write_all\<close> and
  \<^verbatim>\<open>read_exact\<close> return after at most one turn per byte and per interruption, and one more. What was
  written is a prefix of the buffer, what was read is in the buffer, in order, with the rest of the
  buffer as it was; partial transfers and interruptions repeat and skip nothing, and success is
  reported exactly if the whole buffer was transferred.
\<close>

theorem blocking_transfers_total:
  assumes "send_bounded K" "recv_bounded K" "stream_valid s" "n = stream_native_handle s"
    and "interrupts_at_most m K" "length buf + m < fuel"
  shows "(\<exists>r w' k. write_all fuel K buf s w = Some (r, w') \<and> k \<le> length buf
      \<and> sent n (trace w') = sent n (trace w) @ take k buf \<and> (r = Inr () \<longleftrightarrow> k = length buf))
    \<and> (\<exists>r buf' w' d. read_exact fuel K buf s w = Some (r, buf', w') \<and> buf' = d @ drop (length d) buf
      \<and> length d \<le> length buf \<and> received n (trace w') = received n (trace w) @ d
      \<and> (r = Inr () \<longleftrightarrow> length d = length buf))"
proof -
  from write_all_ends[OF assms(5,6)] obtain r w' where "write_all fuel K buf s w = Some (r, w')" by blast
  moreover from read_exact_ends[OF assms(5,6)] obtain r2 buf' w2 where "read_exact fuel K buf s w = Some (r2, buf', w2)" by blast
  ultimately show ?thesis using write_all_exact[OF assms(1,3)] read_exact_exact[OF assms(2,3)] unfolding assms(4) by blast
qed

theorem blocking_transfers_total_witness:
  "(\<exists>r w k. write_all 7 slow_kernel [1, 2, 3, 4, 5] stream5 init_world = Some (r, w)
      \<and> sent 5 (trace w) = take k [1, 2, 3, 4, 5] \<and> (r = Inr () \<longleftrightarrow> k = 5))
   \<and> (\<exists>r b w. read_exact 7 slow_kernel [1, 2, 3, 4, 5] stream5 init_world = Some (r, b, w)
      \<and> (r = Inr () \<longrightarrow> b = received 5 (trace w)))"
  using blocking_transfers_total[OF slow_kernel_bounded(1,2) _ refl slow_kernel_bounded(3), of stream5 "[1, 2, 3, 4, 5]" 7 init_world]
  by (fastforce simp: stream_valid_def stream_native_handle_def init_world_def)

text \<open>
  C34. No socket is leaked or closed early on any path. \<^verbatim>\<open>connect\<close>, \<^verbatim>\<open>bind\<close> (TCP and UDP) and \<^verbatim>\<open>accept\<close>
  either fail and have closed everything they opened, or succeed and exactly the descriptor of the
  returned object is open and not yet closed; destroying what they return balances the ledger.
\<close>

theorem blocking_factories_leak_free:
  "made stream_fd w (stream_connect I remote K w)
   \<and> made listener_fd w (listener_bind I local_ep backlog K w)
   \<and> made stream_fd w (listener_accept l K w)
   \<and> made udp_fd w (udp_bind I local_ep K w)
   \<and> ledger w (disposed K stream_fd (stream_connect I remote K w)) {#}
   \<and> ledger w (disposed K listener_fd (listener_bind I local_ep backlog K w)) {#}
   \<and> ledger w (disposed K stream_fd (listener_accept l K w)) {#}
   \<and> ledger w (disposed K udp_fd (udp_bind I local_ep K w)) {#}"
  by (intro conjI tcp_connect.make_made tcp_bind.make_made tcp_accept.make_made udp_bound.make_made
    tcp_connect.make_then_destroy tcp_bind.make_then_destroy tcp_accept.make_then_destroy
    udp_bound.make_then_destroy)

end
