(* ===== verification/Nonblocking_Sockets.thy ===== *)
theory Nonblocking_Sockets
  imports Socket_Interface
begin

section \<open>Non-blocking sockets\<close>

text \<open>
  \<^verbatim>\<open>nonblocking/tcp.cpp\<close>. The file has its own copies of \<^verbatim>\<open>to_sockaddr\<close> and \<^verbatim>\<open>set_reuse_addr\<close>, so they
  are defined again here, and proved equal to those of the blocking layer.
\<close>

record nb_stream =
  nb_stream_fd :: unique_fd

record nb_listener =
  nb_listener_fd :: unique_fd

abbreviation (input) O_NONBLOCK :: int where "O_NONBLOCK \<equiv> 0x800"

definition nb_to_sockaddr :: "inet \<Rightarrow> endpoint \<Rightarrow> sockaddr_in result" where
  "nb_to_sockaddr I ep =
     (case inet_pton I (c_str (host ep)) of
        Some a \<Rightarrow> Inr \<lparr>sin_family = AF_INET, sin_port = htons (port ep), sin_addr = a\<rparr>
      | None \<Rightarrow> errno_error EINVAL)"

definition nb_set_reuse_addr :: "kernel \<Rightarrow> int \<Rightarrow> world \<Rightarrow> unit result \<times> world" where
  "nb_set_reuse_addr K n w =
     (let (a, w1) = sys K (Setsockopt n SO_REUSEADDR 1) w
      in if a_ret a = 0 then (Inr (), w1) else (Inl (from_errno w1), w1))"

definition set_nonblocking :: "kernel \<Rightarrow> int \<Rightarrow> world \<Rightarrow> unit result \<times> world" where
  "set_nonblocking K n w =
     (if n < 0 then (errno_error EBADF, w)
      else
        let (a, w1) = sys K (Fcntl_getfl n) w
        in if a_ret a < 0 then (Inl (from_errno w1), w1)
           else
             let (b, w2) = sys K (Fcntl_setfl n (a_ret a OR O_NONBLOCK)) w1
             in if a_ret b = 0 then (Inr (), w2) else (Inl (from_errno w2), w2))"

definition is_would_block :: "error \<Rightarrow> bool" where
  "is_would_block e = (error_value e = EAGAIN \<or> error_value e = EWOULDBLOCK)"

definition is_in_progress :: "error \<Rightarrow> bool" where
  "is_in_progress e = (error_value e = EINPROGRESS)"

text \<open>A kernel without \<^verbatim>\<open>SOCK_NONBLOCK\<close> gets a second try and the flag by \<^verbatim>\<open>fcntl\<close>.\<close>

definition make_stream_socket_nonblocking :: "kernel \<Rightarrow> world \<Rightarrow> int result \<times> world" where
  "make_stream_socket_nonblocking K w =
     (let (a, w1) = sys K (Socket SOCK_STREAM True True) w
      in if 0 \<le> a_ret a then (Inr (a_ret a), w1)
         else
           let (b, w2) = sys K (Socket SOCK_STREAM True False) w1
           in if a_ret b < 0 then (Inl (from_errno w2), w2)
              else case set_nonblocking K (a_ret b) w2 of
                     (Inl e, w3) \<Rightarrow> (Inl e, snd (sys K (Close (a_ret b)) w3))
                   | (Inr _, w3) \<Rightarrow> (Inr (a_ret b), w3))"

subsection \<open>Streams\<close>

definition nb_valid :: "nb_stream \<Rightarrow> bool" where
  "nb_valid s = fd_valid (nb_stream_fd s)"

definition nb_native_handle :: "nb_stream \<Rightarrow> int" where
  "nb_native_handle s = fd_get (nb_stream_fd s)"

definition nb_connect :: "inet \<Rightarrow> endpoint \<Rightarrow> kernel \<Rightarrow> world \<Rightarrow> nb_stream result \<times> world" where
  "nb_connect I remote K w =
     (case nb_to_sockaddr I remote of
        Inl e \<Rightarrow> (Inl e, w)
      | Inr addr \<Rightarrow>
          (case make_stream_socket_nonblocking K w of
             (Inl e, w1) \<Rightarrow> (Inl e, w1)
           | (Inr n, w1) \<Rightarrow>
               let owned = make_fd n;
                   (a, w2) = sys K (Connect (fd_get owned) addr) w1
               in if a_ret a = 0 then return_owned K (\<lambda>u. \<lparr>nb_stream_fd = u\<rparr>) owned w2
                  else if errno w2 = EINPROGRESS then return_owned K (\<lambda>u. \<lparr>nb_stream_fd = u\<rparr>) owned w2
                  else return_error K (from_errno w2) owned w2))"

definition finish_connect :: "kernel \<Rightarrow> nb_stream \<Rightarrow> world \<Rightarrow> unit result \<times> world" where
  "finish_connect K s w =
     (if \<not> nb_valid s then (errno_error EBADF, w)
      else
        let (a, w1) = sys K (Getsockopt_error (fd_get (nb_stream_fd s))) w
        in if a_ret a \<noteq> 0 then (Inl (from_errno w1), w1)
           else if a_num a = 0 then (Inr (), w1)
           else (errno_error (a_num a), w1))"

definition nb_read_some ::
    "kernel \<Rightarrow> byte list \<Rightarrow> nb_stream \<Rightarrow> world \<Rightarrow> nat result \<times> byte list \<times> world" where
  "nb_read_some K buf s w =
     (if \<not> nb_valid s then (errno_error EBADF, buf, w)
      else if buf = [] then (Inr 0, buf, w)
      else
        let (a, w1) = sys K (Recv (fd_get (nb_stream_fd s)) (length buf)) w
        in if a_ret a < 0 then (Inl (from_errno w1), buf, w1)
           else (Inr (nat (a_ret a)), store (a_data a) buf, w1))"

definition nb_write_some :: "kernel \<Rightarrow> byte list \<Rightarrow> nb_stream \<Rightarrow> world \<Rightarrow> nat result \<times> world" where
  "nb_write_some K buf s w =
     (if \<not> nb_valid s then (errno_error EBADF, w)
      else if buf = [] then (Inr 0, w)
      else
        let (a, w1) = sys K (Send (fd_get (nb_stream_fd s)) buf) w
        in if a_ret a < 0 then (Inl (from_errno w1), w1) else (Inr (nat (a_ret a)), w1))"

definition nb_shutdown_write :: "kernel \<Rightarrow> nb_stream \<Rightarrow> world \<Rightarrow> unit result \<times> world" where
  "nb_shutdown_write K s w =
     (if \<not> nb_valid s then (errno_error EBADF, w)
      else
        let (a, w1) = sys K (Shutdown_write (fd_get (nb_stream_fd s))) w
        in if a_ret a = 0 then (Inr (), w1) else (Inl (from_errno w1), w1))"

definition set_send_buffer_size :: "kernel \<Rightarrow> int \<Rightarrow> nb_stream \<Rightarrow> world \<Rightarrow> unit result \<times> world" where
  "set_send_buffer_size K bytes s w =
     (if \<not> nb_valid s then (errno_error EBADF, w)
      else if bytes \<le> 0 then (errno_error EINVAL, w)
      else
        let (a, w1) = sys K (Setsockopt (fd_get (nb_stream_fd s)) SO_SNDBUF bytes) w
        in if a_ret a = 0 then (Inr (), w1) else (Inl (from_errno w1), w1))"

subsection \<open>Listeners\<close>

definition nb_listener_valid :: "nb_listener \<Rightarrow> bool" where
  "nb_listener_valid l = fd_valid (nb_listener_fd l)"

definition nb_listener_native_handle :: "nb_listener \<Rightarrow> int" where
  "nb_listener_native_handle l = fd_get (nb_listener_fd l)"

definition nb_bind :: "inet \<Rightarrow> endpoint \<Rightarrow> int \<Rightarrow> kernel \<Rightarrow> world \<Rightarrow> nb_listener result \<times> world" where
  "nb_bind I local_ep backlog K w =
     (case nb_to_sockaddr I local_ep of
        Inl e \<Rightarrow> (Inl e, w)
      | Inr addr \<Rightarrow>
          (case make_stream_socket_nonblocking K w of
             (Inl e, w1) \<Rightarrow> (Inl e, w1)
           | (Inr n, w1) \<Rightarrow>
               let owned = make_fd n
               in case nb_set_reuse_addr K (fd_get owned) w1 of
                    (Inl e, w2) \<Rightarrow> return_error K e owned w2
                  | (Inr _, w2) \<Rightarrow>
                      let (a, w3) = sys K (Bind (fd_get owned) addr) w2
                      in if a_ret a \<noteq> 0 then return_error K (from_errno w3) owned w3
                         else
                           let (b, w4) = sys K (Listen (fd_get owned) backlog) w3
                           in if a_ret b \<noteq> 0 then return_error K (from_errno w4) owned w4
                              else return_owned K (\<lambda>u. \<lparr>nb_listener_fd = u\<rparr>) owned w4))"

definition nb_accept :: "nb_listener \<Rightarrow> kernel \<Rightarrow> world \<Rightarrow> nb_stream result \<times> world" where
  "nb_accept l K w =
     (if \<not> nb_listener_valid l then (errno_error EBADF, w)
      else
        let (a, w1) = sys K (Accept4 (fd_get (nb_listener_fd l)) True True) w
        in if a_ret a < 0 then (Inl (from_errno w1), w1)
           else (Inr \<lparr>nb_stream_fd = make_fd (a_ret a)\<rparr>, w1))"

definition nb_local_port :: "kernel \<Rightarrow> nb_listener \<Rightarrow> world \<Rightarrow> 16 word result \<times> world" where
  "nb_local_port K l w =
     (if \<not> nb_listener_valid l then (errno_error EBADF, w)
      else
        let (a, w1) = sys K (Getsockname (fd_get (nb_listener_fd l))) w
        in if a_ret a \<noteq> 0 then (Inl (from_errno w1), w1)
           else (Inr (ntohs (sin_port (a_addr a))), w1))"

subsection \<open>Facts\<close>

lemma nb_helpers_eq: "nb_to_sockaddr = to_sockaddr" "nb_set_reuse_addr = set_reuse_addr"
  by (simp_all add: fun_eq_iff nb_to_sockaddr_def to_sockaddr_def nb_set_reuse_addr_def set_reuse_addr_def)

lemmas nb_simps = make_stream_socket_nonblocking_def set_nonblocking_def nb_helpers_eq

interpretation nb_connected: fd_factory "nb_connect I remote" nb_stream_fd for I remote
proof (rule fd_factoryI)
  show "made nb_stream_fd w (nb_connect I remote K w)" for K w
    by (auto simp: nb_connect_def nb_simps made_simps split: sum.split)
qed

interpretation nb_bound: fd_factory "nb_bind I local_ep backlog" nb_listener_fd for I local_ep backlog
proof (rule fd_factoryI)
  show "made nb_listener_fd w (nb_bind I local_ep backlog K w)" for K w
    by (auto simp: nb_bind_def nb_simps made_simps split: sum.split)
qed

interpretation nb_accepted: fd_factory "nb_accept l" nb_stream_fd for l
proof (rule fd_factoryI)
  show "made nb_stream_fd w (nb_accept l K w)" for K w
    by (auto simp: nb_accept_def made_simps split: sum.split)
qed

interpretation nb_sink: byte_sink "\<lambda>buf w r w'. send_bounded K \<and> nb_write_some K buf s w = (r, w')"
  "nb_native_handle s" for K s
  using send_boundedD[of K]
  by unfold_locales (auto simp: nb_write_some_def nb_native_handle_def sys_eq split: if_splits)

interpretation nb_source: byte_source
  "\<lambda>buf w r buf' w'. recv_bounded K \<and> nb_read_some K buf s w = (r, buf', w')" "nb_native_handle s" for K s
proof
  fix buf w k buf' w'
  assume "recv_bounded K \<and> nb_read_some K buf s w = (Inr k, buf', w')"
  then show "\<exists>d. length d = k \<and> k \<le> length buf \<and> buf' = d @ drop k buf
      \<and> received (nb_native_handle s) (trace w') = received (nb_native_handle s) (trace w) @ d"
    using recv_boundedD[of K "trace w" "nb_native_handle s" "length buf"]
    by (auto simp: nb_read_some_def nb_native_handle_def sys_eq store_fits split: if_splits)
qed (auto simp: nb_read_some_def nb_native_handle_def sys_eq split: if_splits)

text \<open>The calls that put a descriptor into non-blocking mode, and the calls between two states.\<close>

fun sets_nonblocking :: "int \<Rightarrow> ext_call \<times> answer \<Rightarrow> bool" where
  "sets_nonblocking n (Socket k c nb, a) = (nb \<and> a_ret a = n)"
| "sets_nonblocking n (Accept4 l c nb, a) = (nb \<and> a_ret a = n)"
| "sets_nonblocking n (Fcntl_setfl m flags, a) = (m = n \<and> a_ret a = 0 \<and> flags AND O_NONBLOCK \<noteq> 0)"
| "sets_nonblocking n _ = False"

definition calls_since :: "world \<Rightarrow> world \<Rightarrow> history" where
  "calls_since w w' = take (length (trace w') - length (trace w)) (trace w')"

lemma or_nonblock: "((f::int) OR O_NONBLOCK) AND O_NONBLOCK \<noteq> 0"
proof -
  have "bit ((f OR O_NONBLOCK) AND O_NONBLOCK) 11" by (simp add: bit_simps)
  then show ?thesis by auto
qed

text \<open>
  Every socket the non-blocking layer hands out is in non-blocking mode: it was created or
  accepted with the flag by this call, or \<^verbatim>\<open>fcntl\<close> has set it during this call; and as in the blocking layer no descriptor is leaked
  on any path, also not on the fallback path, where a socket exists before its flag is set.
\<close>

theorem nonblocking_sockets_nonblocking:
  "(case nb_connect I remote K w of (Inl _, _) \<Rightarrow> True
     | (Inr s, w') \<Rightarrow> \<exists>x \<in> set (calls_since w w'). sets_nonblocking (nb_native_handle s) x)
   \<and> (case nb_bind I local_ep backlog K w of (Inl _, _) \<Rightarrow> True
     | (Inr l, w') \<Rightarrow> \<exists>x \<in> set (calls_since w w'). sets_nonblocking (nb_listener_native_handle l) x)
   \<and> (case nb_accept l K w of (Inl _, _) \<Rightarrow> True
     | (Inr s, w') \<Rightarrow> \<exists>x \<in> set (calls_since w w'). sets_nonblocking (nb_native_handle s) x)
   \<and> made nb_stream_fd w (nb_connect I remote K w) \<and> made nb_listener_fd w (nb_bind I local_ep backlog K w)
   \<and> made nb_stream_fd w (nb_accept l K w)"
proof (intro conjI nb_connected.make_made nb_bound.make_made nb_accepted.make_made)
qed (auto simp: nb_connect_def nb_bind_def nb_accept_def nb_simps set_reuse_addr_def return_owned_eq return_error_def
    nb_native_handle_def nb_listener_native_handle_def calls_since_def sys_eq or_nonblock Let_def split: sum.split prod.split)

end
