(* ===== verification/Io_Ops.thy ===== *)
theory Io_Ops
  imports Nonblocking_Sockets Scheduler
begin

section \<open>Coroutine operations\<close>

text \<open>
  \<^verbatim>\<open>runtime/io_ops.cpp\<close> and \<^verbatim>\<open>runtime/cancel.hpp\<close>. The awaitable \<^verbatim>\<open>readiness_wait_awaitable\<close> is modelled
  on both sides of the suspension: its three await functions call the scheduler (the first part
  below), and the coroutine that awaits it sees one call, \<open>Await_ready\<close>, whose answer is the value
  \<^verbatim>\<open>await_resume\<close> returns; between the two anything may happen to the world, which the answer's
  dependence on the whole history covers. Awaiting one of the library's own tasks runs it to its
  end and yields its result, so a \<^verbatim>\<open>co_await\<close> of such a task is a call here. The loops wait for
  events outside the program, so each turn costs one unit of fuel and \<open>None\<close> means \<^emph>\<open>not yet\<close>.
\<close>

subsection \<open>Awaiting readiness\<close>

record 's readiness_wait =
  rw_fd :: int
  rw_readable :: bool
  rw_timeout :: "ms option"
  rw_timeout_error :: error
  rw_scheduler :: "'s scheduler option"
  rw_handle :: co_handle
  rw_status :: "unit result"

definition readiness_wait :: "int \<Rightarrow> bool \<Rightarrow> ms option \<Rightarrow> error \<Rightarrow> 's readiness_wait" where
  "readiness_wait n rd timeout terr = \<lparr>rw_fd = n, rw_readable = rd, rw_timeout = timeout,
     rw_timeout_error = terr, rw_scheduler = None, rw_handle = null_handle, rw_status = Inr ()\<rparr>"

definition rw_await_ready :: "'s readiness_wait \<Rightarrow> bool" where
  "rw_await_ready a = False"

text \<open>
  The argument \<open>promise\<close> is what \<^verbatim>\<open>scheduler_ptr()\<close> of the awaiting promise returns; it is \<open>None\<close> for a
  promise type that has no such function.
\<close>

definition rw_await_suspend ::
    "'s scheduler option option \<Rightarrow> co_handle \<Rightarrow> 's readiness_wait \<Rightarrow> 's \<Rightarrow> bool \<times> 's readiness_wait \<times> 's" where
  "rw_await_suspend promise h a s =
     (case promise of
        None \<Rightarrow> (False, a\<lparr>rw_status := errno_error EINVAL\<rparr>, s)
      | Some sched \<Rightarrow>
          let a1 = a\<lparr>rw_scheduler := sched, rw_handle := h\<rparr>
          in case sched of
               None \<Rightarrow> (False, a1\<lparr>rw_status := errno_error EINVAL\<rparr>, s)
             | Some v \<Rightarrow>
                 let (status, s1) =
                   (if rw_readable a1
                    then wait_for_readable_fn v (rw_fd a1) h (rw_timeout a1) (rw_timeout_error a1) s
                    else wait_for_writable_fn v (rw_fd a1) h (rw_timeout a1) (rw_timeout_error a1) s)
                 in (status = Inr (), a1\<lparr>rw_status := status\<rparr>, s1))"

definition rw_await_resume :: "'s readiness_wait \<Rightarrow> 's \<Rightarrow> unit result \<times> 's" where
  "rw_await_resume a s =
     (if rw_status a \<noteq> Inr () then (rw_status a, s)
      else case rw_scheduler a of
             None \<Rightarrow> (rw_status a, s)
           | Some v \<Rightarrow> if rw_handle a = null_handle then (rw_status a, s)
                       else consume_wait_result_fn v (rw_handle a) s)"

definition await_readiness :: "kernel \<Rightarrow> int \<Rightarrow> bool \<Rightarrow> ms option \<Rightarrow> world \<Rightarrow> unit result \<times> world" where
  "await_readiness K n rd timeout w =
     (let (a, w1) = sys K (Await_ready n rd timeout) w
      in (if a_ret a = 0 then Inr () else errno_error (a_num a), w1))"

definition wait_readable :: "kernel \<Rightarrow> int \<Rightarrow> world \<Rightarrow> unit result \<times> world" where
  "wait_readable K n w = await_readiness K n True None w"

definition wait_writable :: "kernel \<Rightarrow> int \<Rightarrow> world \<Rightarrow> unit result \<times> world" where
  "wait_writable K n w = await_readiness K n False None w"

definition wait_readable_for :: "kernel \<Rightarrow> int \<Rightarrow> ms \<Rightarrow> world \<Rightarrow> unit result \<times> world" where
  "wait_readable_for K n timeout w = await_readiness K n True (Some timeout) w"

definition wait_writable_for :: "kernel \<Rightarrow> int \<Rightarrow> ms \<Rightarrow> world \<Rightarrow> unit result \<times> world" where
  "wait_writable_for K n timeout w = await_readiness K n False (Some timeout) w"

definition is_timeout_error :: "error \<Rightarrow> bool" where
  "is_timeout_error e = (error_value e = ETIMEDOUT)"

subsection \<open>Cancellation\<close>

text \<open>
  A source and its tokens share one atomic flag, named by a number; a default token has none. The
  flag may be set by another thread, so loading and setting it are external calls.
\<close>

record cancel_source =
  source_state :: nat

record cancel_token =
  token_state :: "nat option"

definition no_token :: cancel_token where
  "no_token = \<lparr>token_state = None\<rparr>"

definition source_token :: "cancel_source \<Rightarrow> cancel_token" where
  "source_token src = \<lparr>token_state = Some (source_state src)\<rparr>"

definition request_stop :: "kernel \<Rightarrow> cancel_source \<Rightarrow> world \<Rightarrow> world" where
  "request_stop K src w = snd (sys K (Atomic_store_cancel (source_state src)) w)"

definition token_stop_requested :: "kernel \<Rightarrow> cancel_token \<Rightarrow> world \<Rightarrow> bool \<times> world" where
  "token_stop_requested K tok w =
     (case token_state tok of
        None \<Rightarrow> (False, w)
      | Some i \<Rightarrow> let (a, w1) = sys K (Atomic_load_cancel i) w in (a_ret a \<noteq> 0, w1))"

subsection \<open>Connections\<close>

fun async_accept :: "nat \<Rightarrow> kernel \<Rightarrow> nb_listener \<Rightarrow> world \<Rightarrow> (nb_stream result \<times> world) option" where
  "async_accept 0 K l w = None"
| "async_accept (Suc fuel) K l w =
     (case nb_accept l K w of
        (Inr s, w1) \<Rightarrow> Some (Inr s, w1)
      | (Inl e, w1) \<Rightarrow>
          if \<not> is_would_block e then Some (Inl e, w1)
          else (case wait_readable K (nb_listener_native_handle l) w1 of
                  (Inl e', w2) \<Rightarrow> Some (Inl e', w2)
                | (Inr _, w2) \<Rightarrow> async_accept fuel K l w2))"

text \<open>The loop of \<^verbatim>\<open>async_connect\<close>; leaving it with an error destroys the stream.\<close>

fun async_connect_loop :: "nat \<Rightarrow> kernel \<Rightarrow> nb_stream \<Rightarrow> world \<Rightarrow> (nb_stream result \<times> world) option" where
  "async_connect_loop 0 K s w = None"
| "async_connect_loop (Suc fuel) K s w =
     (case finish_connect K s w of
        (Inr _, w1) \<Rightarrow> Some (return_owned K (\<lambda>u. \<lparr>nb_stream_fd = u\<rparr>) (nb_stream_fd s) w1)
      | (Inl e, w1) \<Rightarrow>
          if \<not> is_in_progress e \<and> \<not> is_would_block e then Some (return_error K e (nb_stream_fd s) w1)
          else (case wait_writable K (nb_native_handle s) w1 of
                  (Inl e', w2) \<Rightarrow> Some (return_error K e' (nb_stream_fd s) w2)
                | (Inr _, w2) \<Rightarrow> async_connect_loop fuel K s w2))"

definition async_connect ::
    "nat \<Rightarrow> inet \<Rightarrow> kernel \<Rightarrow> endpoint \<Rightarrow> world \<Rightarrow> (nb_stream result \<times> world) option" where
  "async_connect fuel I K ep w =
     (case nb_connect I ep K w of
        (Inl e, w1) \<Rightarrow> Some (Inl e, w1)
      | (Inr s, w1) \<Rightarrow> async_connect_loop fuel K s w1)"

subsection \<open>Reading and writing\<close>

fun async_read_some ::
    "nat \<Rightarrow> kernel \<Rightarrow> byte list \<Rightarrow> nb_stream \<Rightarrow> world \<Rightarrow> (nat result \<times> byte list \<times> world) option" where
  "async_read_some 0 K buf s w = None"
| "async_read_some (Suc fuel) K buf s w =
     (case nb_read_some K buf s w of
        (Inr n, buf1, w1) \<Rightarrow> Some (Inr n, buf1, w1)
      | (Inl e, buf1, w1) \<Rightarrow>
          if \<not> is_would_block e then Some (Inl e, buf1, w1)
          else (case wait_readable K (nb_native_handle s) w1 of
                  (Inl e', w2) \<Rightarrow> Some (Inl e', buf1, w2)
                | (Inr _, w2) \<Rightarrow> async_read_some fuel K buf1 s w2))"

fun async_write_some ::
    "nat \<Rightarrow> kernel \<Rightarrow> byte list \<Rightarrow> nb_stream \<Rightarrow> world \<Rightarrow> (nat result \<times> world) option" where
  "async_write_some 0 K buf s w = None"
| "async_write_some (Suc fuel) K buf s w =
     (case nb_write_some K buf s w of
        (Inr n, w1) \<Rightarrow> Some (Inr n, w1)
      | (Inl e, w1) \<Rightarrow>
          if \<not> is_would_block e then Some (Inl e, w1)
          else (case wait_writable K (nb_native_handle s) w1 of
                  (Inl e', w2) \<Rightarrow> Some (Inl e', w2)
                | (Inr _, w2) \<Rightarrow> async_write_some fuel K buf s w2))"

text \<open>
  The loops over a whole buffer, from \<open>tot\<close> on; the fuel bounds both their own turns and those of
  each single transfer. \<^verbatim>\<open>buffer.subspan(total)\<close> is \<open>drop tot buf\<close>.
\<close>

fun async_read_loop ::
    "nat \<Rightarrow> nat \<Rightarrow> kernel \<Rightarrow> nat \<Rightarrow> byte list \<Rightarrow> nb_stream \<Rightarrow> world \<Rightarrow> (unit result \<times> byte list \<times> world) option" where
  "async_read_loop 0 fuel K tot buf s w = None"
| "async_read_loop (Suc turns) fuel K tot buf s w =
     (if tot < length buf then
        (case async_read_some fuel K (drop tot buf) s w of
           None \<Rightarrow> None
         | Some (r, rest, w1) \<Rightarrow>
             let buf1 = take tot buf @ rest
             in case r of
                  Inl e \<Rightarrow> Some (Inl e, buf1, w1)
                | Inr n \<Rightarrow> if n = 0 then Some (errno_error ECONNRESET, buf1, w1)
                           else async_read_loop turns fuel K (tot + n) buf1 s w1)
      else Some (Inr (), buf, w))"

definition async_read_exact ::
    "nat \<Rightarrow> kernel \<Rightarrow> byte list \<Rightarrow> nb_stream \<Rightarrow> world \<Rightarrow> (unit result \<times> byte list \<times> world) option" where
  "async_read_exact fuel K buf s w = async_read_loop (length buf + 1) fuel K 0 buf s w"

fun async_write_loop ::
    "nat \<Rightarrow> nat \<Rightarrow> kernel \<Rightarrow> nat \<Rightarrow> byte list \<Rightarrow> nb_stream \<Rightarrow> world \<Rightarrow> (unit result \<times> world) option" where
  "async_write_loop 0 fuel K tot buf s w = None"
| "async_write_loop (Suc turns) fuel K tot buf s w =
     (if tot < length buf then
        (case async_write_some fuel K (drop tot buf) s w of
           None \<Rightarrow> None
         | Some (Inl e, w1) \<Rightarrow> Some (Inl e, w1)
         | Some (Inr n, w1) \<Rightarrow> if n = 0 then Some (errno_error EPIPE, w1)
                                else async_write_loop turns fuel K (tot + n) buf s w1)
      else Some (Inr (), w))"

definition async_write_all ::
    "nat \<Rightarrow> kernel \<Rightarrow> byte list \<Rightarrow> nb_stream \<Rightarrow> world \<Rightarrow> (unit result \<times> world) option" where
  "async_write_all fuel K buf s w = async_write_loop (length buf + 1) fuel K 0 buf s w"

subsection \<open>Timeouts\<close>

text \<open>
  \<^verbatim>\<open>duration_cast<milliseconds>\<close> of a positive duration rounds down; a slice is at least one
  millisecond and at most \<open>limit\<close>. Clock readings and deadlines are unbounded integers: the sources
  add a caller's timeout to the clock without a range check.
\<close>

definition wait_slice :: "ms \<Rightarrow> time \<Rightarrow> time \<Rightarrow> ms" where
  "wait_slice limit deadline_at now = max 1 (min ((deadline_at - now) div ns_per_ms) limit)"

fun read_timeout_loop ::
    "nat \<Rightarrow> kernel \<Rightarrow> time \<Rightarrow> byte list \<Rightarrow> cancel_token \<Rightarrow> nb_stream \<Rightarrow> world
       \<Rightarrow> (nat result \<times> byte list \<times> world) option" where
  "read_timeout_loop 0 K dl buf tok s w = None"
| "read_timeout_loop (Suc fuel) K dl buf tok s w =
     (case token_stop_requested K tok w of
        (True, w1) \<Rightarrow> Some (errno_error ECANCELED, buf, w1)
      | (False, w1) \<Rightarrow>
          (case nb_read_some K buf s w1 of
             (Inr n, buf1, w2) \<Rightarrow> Some (Inr n, buf1, w2)
           | (Inl e, buf1, w2) \<Rightarrow>
               if \<not> is_would_block e then Some (Inl e, buf1, w2)
               else
                 let (now, w3) = clock_now K w2
                 in if dl \<le> now then Some (errno_error ETIMEDOUT, buf1, w3)
                    else (case wait_readable_for K (nb_native_handle s) (wait_slice 20 dl now) w3 of
                            (Inl e', w4) \<Rightarrow> if \<not> is_timeout_error e' then Some (Inl e', buf1, w4)
                                             else read_timeout_loop fuel K dl buf1 tok s w4
                          | (Inr _, w4) \<Rightarrow> read_timeout_loop fuel K dl buf1 tok s w4)))"

definition async_read_some_with_timeout ::
    "nat \<Rightarrow> kernel \<Rightarrow> byte list \<Rightarrow> ms \<Rightarrow> cancel_token \<Rightarrow> nb_stream \<Rightarrow> world
       \<Rightarrow> (nat result \<times> byte list \<times> world) option" where
  "async_read_some_with_timeout fuel K buf timeout tok s w =
     (if timeout < 0 then Some (errno_error EINVAL, buf, w)
      else let (now, w1) = clock_now K w
           in read_timeout_loop fuel K (now + timeout * ns_per_ms) buf tok s w1)"

fun write_timeout_loop ::
    "nat \<Rightarrow> kernel \<Rightarrow> time \<Rightarrow> byte list \<Rightarrow> cancel_token \<Rightarrow> nb_stream \<Rightarrow> world
       \<Rightarrow> (nat result \<times> world) option" where
  "write_timeout_loop 0 K dl buf tok s w = None"
| "write_timeout_loop (Suc fuel) K dl buf tok s w =
     (case token_stop_requested K tok w of
        (True, w1) \<Rightarrow> Some (errno_error ECANCELED, w1)
      | (False, w1) \<Rightarrow>
          (case nb_write_some K buf s w1 of
             (Inr n, w2) \<Rightarrow> Some (Inr n, w2)
           | (Inl e, w2) \<Rightarrow>
               if \<not> is_would_block e then Some (Inl e, w2)
               else
                 let (now, w3) = clock_now K w2
                 in if dl \<le> now then Some (errno_error ETIMEDOUT, w3)
                    else (case wait_writable_for K (nb_native_handle s) (wait_slice 20 dl now) w3 of
                            (Inl e', w4) \<Rightarrow> if \<not> is_timeout_error e' then Some (Inl e', w4)
                                             else write_timeout_loop fuel K dl buf tok s w4
                          | (Inr _, w4) \<Rightarrow> write_timeout_loop fuel K dl buf tok s w4)))"

definition async_write_some_with_timeout ::
    "nat \<Rightarrow> kernel \<Rightarrow> byte list \<Rightarrow> ms \<Rightarrow> cancel_token \<Rightarrow> nb_stream \<Rightarrow> world
       \<Rightarrow> (nat result \<times> world) option" where
  "async_write_some_with_timeout fuel K buf timeout tok s w =
     (if timeout < 0 then Some (errno_error EINVAL, w)
      else let (now, w1) = clock_now K w
           in write_timeout_loop fuel K (now + timeout * ns_per_ms) buf tok s w1)"

subsection \<open>Sleeping\<close>

text \<open>
  The thread-local timer is created by the first call on a thread and kept, also when its
  creation failed.
\<close>

definition get_sleep_timerfd :: "kernel \<Rightarrow> world \<Rightarrow> int \<times> world" where
  "get_sleep_timerfd K w =
     (case sleep_timer w of
        Some n \<Rightarrow> (n, w)
      | None \<Rightarrow>
          let (a, w1) = sys K Timerfd_create w; n = (if 0 \<le> a_ret a then a_ret a else -1)
          in (n, w1\<lparr>sleep_timer := Some n\<rparr>))"

fun sleep_loop :: "nat \<Rightarrow> kernel \<Rightarrow> int \<Rightarrow> time \<Rightarrow> cancel_token \<Rightarrow> world \<Rightarrow> (unit result \<times> world) option" where
  "sleep_loop 0 K timer dl tok w = None"
| "sleep_loop (Suc fuel) K timer dl tok w =
     (case token_stop_requested K tok w of
        (True, w1) \<Rightarrow> Some (errno_error ECANCELED, w1)
      | (False, w1) \<Rightarrow>
          let (now, w2) = clock_now K w1
          in if dl \<le> now then Some (Inr (), w2)
             else
               let slice = wait_slice 20 dl now;
                   (a, w3) = sys K (Timerfd_settime timer (slice div 1000) (slice mod 1000 * 1000000)) w2
               in if a_ret a \<noteq> 0 then Some (Inl (from_errno w3), w3)
                  else (case wait_readable K timer w3 of
                          (Inl e, w4) \<Rightarrow> Some (Inl e, w4)
                        | (Inr _, w4) \<Rightarrow>
                            let (b, w5) = sys K (Read_u64 timer) w4
                            in if a_ret b < 0 \<and> \<not> (errno w5 = EINTR \<or> errno w5 = EAGAIN \<or> errno w5 = EWOULDBLOCK)
                               then Some (Inl (from_errno w5), w5)
                               else sleep_loop fuel K timer dl tok w5))"

definition async_sleep :: "nat \<Rightarrow> kernel \<Rightarrow> ms \<Rightarrow> cancel_token \<Rightarrow> world \<Rightarrow> (unit result \<times> world) option" where
  "async_sleep fuel K duration tok w =
     (case token_stop_requested K tok w of
        (True, w1) \<Rightarrow> Some (errno_error ECANCELED, w1)
      | (False, w1) \<Rightarrow>
          if duration \<le> 0 then Some (Inr (), w1)
          else
            let (timer, w2) = get_sleep_timerfd K w1
            in if timer < 0 then Some (Inl (from_errno w2), w2)
               else let (now, w3) = clock_now K w2
                    in sleep_loop fuel K timer (now + duration * ns_per_ms) tok w3)"

end
