(* ===== verification/Io_Ops_Facts.thy ===== *)
theory Io_Ops_Facts
  imports Io_Ops Blocking_Sockets Uring_Event_Loop_Facts
begin

section \<open>Correctness of the coroutine operations\<close>

text \<open>
  The awaitable against the scheduler's contract; the byte-exactness of the single transfers, as
  interpretations of the socket contracts, and from it of the loops over whole buffers; time and
  cancellation.
\<close>

subsection \<open>The awaitable\<close>

context scheduler_impl
begin

lemma await_suspend_eq:
  assumes "rw_await_suspend (Some (Some v)) h (readiness_wait n rd timeout terr) s = (b, a, s1)"
  shows "wait_for_fn v rd n h timeout terr s = (rw_status a, s1)" "b = (rw_status a = Inr ())"
    "rw_scheduler a = Some v" "rw_handle a = h"
  using assms
  by (auto simp: rw_await_suspend_def readiness_wait_def wait_for_fn_def Let_def split: prod.splits if_splits)

text \<open>
  A coroutine that is suspended is registered and, once a result is posted for it, is resumed with
  that result; one that is not suspended gets the error at once and nothing has changed.
\<close>

lemma await_suspended:
  assumes "usable s" "inv s" "0 \<le> n" "n \<le> int_max" "h \<noteq> 0" "\<forall>t. timeout = Some t \<longrightarrow> 0 < t"
    and "rw_await_suspend (Some (Some v)) h (readiness_wait n rd timeout terr) s = (True, a, s1)"
  shows "abs s1 = sp_register n rd (Some (h, deadline_of s timeout, terr)) (abs s)" "sp_regs (abs s) n rd = None"
proof -
  note e = await_suspend_eq[OF assms(7)]
  then have run: "wait_for_fn v rd n h timeout terr s = (Inr (), s1)" by simp
  show none: "sp_regs (abs s) n rd = None"
    using wait_busy[OF assms(1,2,3,5,6) _ run] by fastforce
  show "abs s1 = sp_register n rd (Some (h, deadline_of s timeout, terr)) (abs s)"
    using wait_free[OF assms(1-6) none run] by simp
qed

lemma await_refused:
  assumes "usable s" "inv s" "n \<le> int_max"
    and "rw_await_suspend (Some (Some v)) h (readiness_wait n rd timeout terr) s = (False, a, s1)"
  shows "abs s1 = abs s" "\<exists>e. rw_await_resume a s2 = (Inl e, s2)"
proof -
  note e = await_suspend_eq[OF assms(4)]
  then obtain x where x: "rw_status a = Inl x" by (cases "rw_status a") auto
  then show "\<exists>e. rw_await_resume a s2 = (Inl e, s2)" by (simp add: rw_await_resume_def)
  from e x show "abs s1 = abs s" using wait_error_abs[OF assms(1,2) _ assms(3)] by metis
qed

lemma await_resumed:
  assumes "rw_await_suspend (Some (Some v)) h (readiness_wait n rd timeout terr) s = (True, a, s1)" "h \<noteq> 0"
    and "sp_results (abs s2) h = Some r" "rw_await_resume a s2 = (r', s3)"
  shows "r' = r" "sp_results (abs s3) h = None"
proof -
  note e = await_suspend_eq[OF assms(1)]
  have "consume_wait_result_fn v h s2 = (r', s3)" using assms(2,4) e by (simp add: rw_await_resume_def)
  from abs_consume[OF this] assms(2,3) show "r' = r" "sp_results (abs s3) h = None" by (auto simp: sp_consume_def)
qed

end

subsection \<open>Calls that transfer no bytes\<close>

lemma await_readiness_quiet:
  assumes "await_readiness K n rd t w = (r, w')"
  shows "sent m (trace w') = sent m (trace w)" "received m (trace w') = received m (trace w)" "extends w w'"
    "readings (trace w') = readings (trace w)" "opened (trace w') = opened (trace w)" "closed (trace w') = closed (trace w)"
  using assms by (auto simp: await_readiness_def sys_eq extends_def)

lemma token_stop_quiet:
  assumes "token_stop_requested K tok w = (b, w')"
  shows "sent m (trace w') = sent m (trace w)" "received m (trace w') = received m (trace w)" "extends w w'"
    "readings (trace w') = readings (trace w)"
  using assms by (auto simp: token_stop_requested_def sys_eq extends_def split: option.splits)

lemma clock_now_quiet:
  assumes "clock_now K w = (t, w')"
  shows "sent m (trace w') = sent m (trace w)" "received m (trace w') = received m (trace w)" "extends w w'"
    "readings (trace w') = t # readings (trace w)"
  using assms by (auto simp: clock_now_eq sys_eq extends_def)

lemmas waits = wait_readable_def wait_writable_def wait_readable_for_def wait_writable_for_def

subsection \<open>Single transfers\<close>

text \<open>
  \<open>wrote n buf w r w'\<close> and \<open>filled n buf w r buf' w'\<close>: the contracts of a sink and a source, for one
  outcome. An outcome after steps that transferred nothing is one from before them.
\<close>

definition wrote :: "int \<Rightarrow> byte list \<Rightarrow> world \<Rightarrow> nat result \<Rightarrow> world \<Rightarrow> bool" where
  "wrote n buf w r w' = (case r of
       Inr k \<Rightarrow> k \<le> length buf \<and> sent n (trace w') = sent n (trace w) @ take k buf
     | Inl e \<Rightarrow> sent n (trace w') = sent n (trace w))"

definition filled :: "int \<Rightarrow> byte list \<Rightarrow> world \<Rightarrow> nat result \<Rightarrow> byte list \<Rightarrow> world \<Rightarrow> bool" where
  "filled n buf w r buf' w' = (case r of
       Inr k \<Rightarrow> \<exists>d. length d = k \<and> k \<le> length buf \<and> buf' = d @ drop k buf
         \<and> received n (trace w') = received n (trace w) @ d
     | Inl e \<Rightarrow> buf' = buf \<and> received n (trace w') = received n (trace w))"

lemma wrote_later: "wrote n buf w1 r w' \<Longrightarrow> sent n (trace w1) = sent n (trace w) \<Longrightarrow> wrote n buf w r w'"
  by (auto simp: wrote_def split: sum.splits)

lemma filled_later:
  "filled n buf w1 r buf' w' \<Longrightarrow> received n (trace w1) = received n (trace w) \<Longrightarrow> filled n buf w r buf' w'"
  by (auto simp: filled_def split: sum.splits)

lemma nb_write_some_wrote: "send_bounded K \<Longrightarrow> nb_write_some K buf s w = (r, w') \<Longrightarrow> wrote (nb_native_handle s) buf w r w'"
  using nb_sink.put_ok[of K buf s w] nb_sink.put_err[of K buf s w] by (auto simp: wrote_def split: sum.splits)

lemma nb_read_some_filled:
  "recv_bounded K \<Longrightarrow> nb_read_some K buf s w = (r, buf', w') \<Longrightarrow> filled (nb_native_handle s) buf w r buf' w'"
  using nb_source.get_ok[of K buf s w] nb_source.get_err[of K buf s w] by (auto simp: filled_def split: sum.splits)

lemma wrote_Inl: "wrote n buf w (Inl e) w' = (sent n (trace w') = sent n (trace w))"
  by (simp add: wrote_def)

lemma filled_Inl: "filled n buf w (Inl e) buf' w' = (buf' = buf \<and> received n (trace w') = received n (trace w))"
  by (simp add: filled_def)

lemma async_write_some_wrote:
  assumes "send_bounded K" "async_write_some fuel K buf s w = Some (r, w')"
  shows "wrote (nb_native_handle s) buf w r w'"
  using assms(2)
proof (induction fuel arbitrary: w)
  case (Suc fuel)
  obtain r1 w1 where wr: "nb_write_some K buf s w = (r1, w1)" by fastforce
  obtain r2 w2 where wt: "wait_writable K (nb_native_handle s) w1 = (r2, w2)" by fastforce
  note q = await_readiness_quiet(1)[OF wt[unfolded waits]] nb_write_some_wrote[OF assms(1) wr]
  with Suc.prems Suc.IH[of w2] show ?case
    by (auto simp: wr wt wrote_Inl split: sum.splits if_splits intro: wrote_later)
qed simp

lemma async_read_some_filled:
  assumes "recv_bounded K" "async_read_some fuel K buf s w = Some (r, buf', w')"
  shows "filled (nb_native_handle s) buf w r buf' w'"
  using assms(2)
proof (induction fuel arbitrary: w)
  case (Suc fuel)
  obtain r1 buf1 w1 where rd: "nb_read_some K buf s w = (r1, buf1, w1)" by (metis prod_cases3)
  obtain r2 w2 where wt: "wait_readable K (nb_native_handle s) w1 = (r2, w2)" by fastforce
  note q = await_readiness_quiet(2)[OF wt[unfolded waits]] nb_read_some_filled[OF assms(1) rd]
  with Suc.prems Suc.IH[of w2] show ?case
    by (auto simp: rd wt filled_Inl split: sum.splits if_splits intro: filled_later)
qed simp

lemma write_timeout_loop_wrote:
  assumes "send_bounded K" "write_timeout_loop fuel K dl buf tok s w = Some (r, w')"
  shows "wrote (nb_native_handle s) buf w r w'"
  using assms(2)
proof (induction fuel arbitrary: w)
  case (Suc fuel)
  obtain b w1 where tk: "token_stop_requested K tok w = (b, w1)" by fastforce
  obtain r1 w2 where wr: "nb_write_some K buf s w1 = (r1, w2)" by fastforce
  obtain now w3 where cl: "clock_now K w2 = (now, w3)" by fastforce
  obtain r2 w4 where wt: "wait_writable_for K (nb_native_handle s) (wait_slice 20 dl now) w3 = (r2, w4)" by fastforce
  note q = token_stop_quiet(1)[OF tk] clock_now_quiet(1)[OF cl] await_readiness_quiet(1)[OF wt[unfolded waits]]
    nb_write_some_wrote[OF assms(1) wr]
  with Suc.prems Suc.IH[of w4] show ?case
    by (auto simp: tk wr cl wt wrote_Inl split: bool.splits sum.splits if_splits intro: wrote_later)
qed simp

lemma read_timeout_loop_filled:
  assumes "recv_bounded K" "read_timeout_loop fuel K dl buf tok s w = Some (r, buf', w')"
  shows "filled (nb_native_handle s) buf w r buf' w'"
  using assms(2)
proof (induction fuel arbitrary: w)
  case (Suc fuel)
  obtain b w1 where tk: "token_stop_requested K tok w = (b, w1)" by fastforce
  obtain r1 buf1 w2 where rd: "nb_read_some K buf s w1 = (r1, buf1, w2)" by (metis prod_cases3)
  obtain now w3 where cl: "clock_now K w2 = (now, w3)" by fastforce
  obtain r2 w4 where wt: "wait_readable_for K (nb_native_handle s) (wait_slice 20 dl now) w3 = (r2, w4)" by fastforce
  note q = token_stop_quiet(2)[OF tk] clock_now_quiet(2)[OF cl] await_readiness_quiet(2)[OF wt[unfolded waits]]
    nb_read_some_filled[OF assms(1) rd]
  with Suc.prems Suc.IH[of w4] show ?case
    by (auto simp: tk rd cl wt filled_Inl split: bool.splits sum.splits if_splits intro: filled_later)
qed simp

interpretation async_sink: byte_sink "\<lambda>buf w r w'. send_bounded K \<and> (\<exists>fuel. async_write_some fuel K buf s w = Some (r, w'))"
  "nb_native_handle s" for K s
  using async_write_some_wrote[of K, unfolded wrote_def] by unfold_locales fastforce+

interpretation async_source: byte_source
  "\<lambda>buf w r buf' w'. recv_bounded K \<and> (\<exists>fuel. async_read_some fuel K buf s w = Some (r, buf', w'))"
  "nb_native_handle s" for K s
  using async_read_some_filled[of K, unfolded filled_def] by unfold_locales fastforce+

lemma timed_write_wrote:
  assumes "send_bounded K" "async_write_some_with_timeout fuel K buf timeout tok s w = Some (r, w')"
  shows "wrote (nb_native_handle s) buf w r w'"
proof (cases "timeout < 0")
  case True
  with assms(2) show ?thesis by (auto simp: async_write_some_with_timeout_def wrote_Inl)
next
  case False
  obtain now w1 where cl: "clock_now K w = (now, w1)" by fastforce
  with assms(2) False have "write_timeout_loop fuel K (now + timeout * ns_per_ms) buf tok s w1 = Some (r, w')"
    by (simp add: async_write_some_with_timeout_def)
  with write_timeout_loop_wrote[OF assms(1)] clock_now_quiet(1)[OF cl] show ?thesis by (blast intro: wrote_later)
qed

lemma timed_read_filled:
  assumes "recv_bounded K" "async_read_some_with_timeout fuel K buf timeout tok s w = Some (r, buf', w')"
  shows "filled (nb_native_handle s) buf w r buf' w'"
proof (cases "timeout < 0")
  case True
  with assms(2) show ?thesis by (auto simp: async_read_some_with_timeout_def filled_Inl)
next
  case False
  obtain now w1 where cl: "clock_now K w = (now, w1)" by fastforce
  with assms(2) False have "read_timeout_loop fuel K (now + timeout * ns_per_ms) buf tok s w1 = Some (r, buf', w')"
    by (simp add: async_read_some_with_timeout_def)
  with read_timeout_loop_filled[OF assms(1)] clock_now_quiet(2)[OF cl] show ?thesis by (blast intro: filled_later)
qed

interpretation timed_sink: byte_sink
  "\<lambda>buf w r w'. send_bounded K \<and> (\<exists>fuel. async_write_some_with_timeout fuel K buf timeout tok s w = Some (r, w'))"
  "nb_native_handle s" for K s timeout tok
  using timed_write_wrote[of K, unfolded wrote_def] by unfold_locales fastforce+

interpretation timed_source: byte_source
  "\<lambda>buf w r buf' w'. recv_bounded K \<and> (\<exists>fuel. async_read_some_with_timeout fuel K buf timeout tok s w = Some (r, buf', w'))"
  "nb_native_handle s" for K s timeout tok
  using timed_read_filled[of K, unfolded filled_def] by unfold_locales fastforce+

subsection \<open>Whole buffers\<close>

lemma async_write_loop_sends:
  assumes "send_bounded K" "async_write_loop turns fuel K tot buf s w = Some (r, w')" "tot \<le> length buf"
  defines "n \<equiv> nb_native_handle s"
  shows "\<exists>k. tot \<le> k \<and> k \<le> length buf \<and> sent n (trace w') @ drop k buf = sent n (trace w) @ drop tot buf
    \<and> (r = Inr () \<longleftrightarrow> k = length buf)"
  using assms(2,3)
proof (induction turns arbitrary: tot w)
  case (Suc turns)
  show ?case
  proof (cases "tot < length buf")
    case False
    with Suc.prems show ?thesis by (intro exI[of _ tot]) auto
  next
    case True
    with Suc.prems obtain r1 w1 where wr: "async_write_some fuel K (drop tot buf) s w = Some (r1, w1)"
      by (auto split: option.splits)
    then have put: "send_bounded K \<and> (\<exists>fuel. async_write_some fuel K (drop tot buf) s w = Some (r1, w1))"
      using assms(1) by blast
    show ?thesis
    proof (cases r1)
      case (Inl e)
      with Suc.prems True wr put async_sink.put_err[of K "drop tot buf" s w e w1] show ?thesis
        by (intro exI[of _ tot]) (auto simp: n_def)
    next
      case (Inr k)
      note c = async_sink.put_conserves[OF put[unfolded Inr]]
      show ?thesis
      proof (cases "k = 0")
        case True
        with Suc.prems \<open>tot < length buf\<close> wr Inr c show ?thesis by (intro exI[of _ tot]) (auto simp: n_def)
      next
        case False
        with Suc.prems(1) True wr Inr have "async_write_loop turns fuel K (tot + k) buf s w1 = Some (r, w')" by simp
        moreover have "tot + k \<le> length buf" using c(2) True by simp
        ultimately obtain j where "tot + k \<le> j" "j \<le> length buf"
          "sent n (trace w') @ drop j buf = sent n (trace w1) @ drop (tot + k) buf" "r = Inr () \<longleftrightarrow> j = length buf"
          using Suc.IH by blast
        with c(1) show ?thesis by (intro exI[of _ j]) (simp add: n_def add.commute)
      qed
    qed
  qed
qed simp

lemma async_read_loop_fills:
  assumes "recv_bounded K" "async_read_loop turns fuel K tot buf s w = Some (r, buf', w')" "tot \<le> length buf"
  defines "n \<equiv> nb_native_handle s"
  shows "\<exists>d. tot + length d \<le> length buf \<and> buf' = take tot buf @ d @ drop (tot + length d) buf
    \<and> received n (trace w') = received n (trace w) @ d \<and> (r = Inr () \<longleftrightarrow> tot + length d = length buf)"
  using assms(2,3)
proof (induction turns arbitrary: tot buf w)
  case (Suc turns)
  show ?case
  proof (cases "tot < length buf")
    case False
    with Suc.prems show ?thesis by (intro exI[of _ "[]"]) auto
  next
    case True
    with Suc.prems obtain r1 rest w1 where rd: "async_read_some fuel K (drop tot buf) s w = Some (r1, rest, w1)"
      by (auto split: option.splits)
    then have get: "recv_bounded K \<and> (\<exists>fuel. async_read_some fuel K (drop tot buf) s w = Some (r1, rest, w1))"
      using assms(1) by blast
    show ?thesis
    proof (cases r1)
      case (Inl e)
      with Suc.prems True rd get async_source.get_err[of K "drop tot buf" s w e rest w1] show ?thesis
        by (intro exI[of _ "[]"]) (auto simp: n_def)
    next
      case (Inr k)
      let ?buf = "take tot buf @ rest"
      from async_source.get_extends[OF get[unfolded Inr] Suc.prems(2)] obtain d where
        d: "length d = k" "tot + k \<le> length buf" "take (tot + k) ?buf = take tot buf @ d"
          "drop (tot + k) ?buf = drop (tot + k) buf" "length ?buf = length buf"
          "received n (trace w1) = received n (trace w) @ d" unfolding n_def by blast
      show ?thesis
      proof (cases "k = 0")
        case True
        with d have "?buf = buf" by (metis Nat.add_0_right append.right_neutral append_take_drop_id length_0_conv)
        with Suc.prems \<open>tot < length buf\<close> rd Inr d True show ?thesis by (intro exI[of _ "[]"]) auto
      next
        case False
        with Suc.prems(1) True rd Inr have "async_read_loop turns fuel K (tot + k) ?buf s w1 = Some (r, buf', w')"
          by (simp add: Let_def)
        from Suc.IH[OF this] d obtain d' where "tot + k + length d' \<le> length buf"
          "buf' = take (tot + k) ?buf @ d' @ drop (tot + k + length d') ?buf"
          "received n (trace w') = received n (trace w1) @ d'" "r = Inr () \<longleftrightarrow> tot + k + length d' = length buf"
          unfolding d(5) by blast
        moreover have "drop (tot + k + j) ?buf = drop (tot + k + j) buf" for j
          using d(4) by (metis add.commute drop_drop)
        ultimately show ?thesis using d by (intro exI[of _ "d @ d'"]) (simp add: add.assoc)
      qed
    qed
  qed
qed simp

subsection \<open>Ending\<close>

text \<open>
  The hypothesis under which the untimed loops end: a peer that reads and writes lets a descriptor
  be full or empty only finitely often, at most \<open>m\<close> times in all.
\<close>

definition stalled_answer :: "answer \<Rightarrow> bool" where
  "stalled_answer a = (a_ret a < 0 \<and> a_errno a = EAGAIN)"

definition stalls :: "history \<Rightarrow> nat" where
  "stalls tr = length (filter (stalled_answer \<circ> snd) tr)"

definition stalls_at_most :: "nat \<Rightarrow> kernel \<Rightarrow> bool" where
  "stalls_at_most m K = (\<forall>tr c. m \<le> stalls tr \<longrightarrow> \<not> stalled_answer (K tr c))"

lemma stalls_Cons [simp]: "stalls ((c, a) # tr) = of_bool (stalled_answer a) + stalls tr"
  by (simp add: stalls_def)

lemma would_block_stalls:
  "nb_write_some K buf s w = (Inl e, w1) \<Longrightarrow> is_would_block e \<Longrightarrow>
     stalled_answer (K (trace w) (Send (nb_native_handle s) buf)) \<and> stalls (trace w1) = Suc (stalls (trace w))"
  "nb_read_some K buf s w = (Inl e, buf1, w1) \<Longrightarrow> is_would_block e \<Longrightarrow>
     stalled_answer (K (trace w) (Recv (nb_native_handle s) (length buf))) \<and> stalls (trace w1) = Suc (stalls (trace w))"
  by (auto simp: nb_write_some_def nb_read_some_def nb_native_handle_def is_would_block_def stalled_answer_def sys_eq
      from_errno_def error_of_code_def error_value_def make_error_from_errno_def from_errno_value_def split: if_splits)

lemma async_write_some_ends:
  assumes "stalls_at_most m K" "m - stalls (trace w) < fuel"
  shows "\<exists>r w'. async_write_some fuel K buf s w = Some (r, w')"
  using assms(2)
proof (induction fuel arbitrary: w)
  case (Suc fuel)
  obtain r w1 where put: "nb_write_some K buf s w = (r, w1)" by fastforce
  obtain b w2 where wait: "wait_writable K (nb_native_handle s) w1 = (b, w2)" by fastforce
  show ?case
  proof (cases "\<exists>e. r = Inl e \<and> is_would_block e")
    case True
    then have "stalls (trace w1) = Suc (stalls (trace w))" "stalls (trace w) < m"
      using would_block_stalls(1) put assms(1) unfolding stalls_at_most_def by (blast, metis not_le)
    moreover have "stalls (trace w1) \<le> stalls (trace w2)"
      using wait by (auto simp: wait_writable_def await_readiness_def sys_eq)
    ultimately have "m - stalls (trace w2) < fuel" using Suc.prems by linarith
    from Suc.IH[OF this] show ?thesis using True put wait by (auto split: sum.split)
  qed (use put in \<open>auto split: sum.split\<close>)
qed simp

lemma async_read_some_ends:
  assumes "stalls_at_most m K" "m - stalls (trace w) < fuel"
  shows "\<exists>r buf' w'. async_read_some fuel K buf s w = Some (r, buf', w')"
  using assms(2)
proof (induction fuel arbitrary: w buf)
  case (Suc fuel)
  obtain r buf1 w1 where get: "nb_read_some K buf s w = (r, buf1, w1)" by (metis prod_cases3)
  obtain b w2 where wait: "wait_readable K (nb_native_handle s) w1 = (b, w2)" by fastforce
  show ?case
  proof (cases "\<exists>e. r = Inl e \<and> is_would_block e")
    case True
    then have "stalls (trace w1) = Suc (stalls (trace w))" "stalls (trace w) < m"
      using would_block_stalls(2) get assms(1) unfolding stalls_at_most_def by (blast, metis not_le)
    moreover have "stalls (trace w1) \<le> stalls (trace w2)"
      using wait by (auto simp: wait_readable_def await_readiness_def sys_eq)
    ultimately have "m - stalls (trace w2) < fuel" using Suc.prems by linarith
    from Suc.IH[OF this] show ?thesis using True get wait by (auto split: sum.split)
  qed (use get in \<open>auto split: sum.split\<close>)
qed simp

lemma async_write_loop_ends:
  assumes "stalls_at_most m K" "m < fuel" "length buf - tot < turns"
  shows "\<exists>r w'. async_write_loop turns fuel K tot buf s w = Some (r, w')"
  using assms(3)
proof (induction turns arbitrary: tot w)
  case (Suc turns)
  have "m - stalls (trace w) < fuel" using assms(2) by simp
  from async_write_some_ends[OF assms(1) this] obtain r w1
    where "async_write_some fuel K (drop tot buf) s w = Some (r, w1)" by blast
  moreover have "\<exists>r w'. async_write_loop turns fuel K (tot + k) buf s w1 = Some (r, w')" if "0 < k" "tot < length buf" for k
    using that Suc.prems by (intro Suc.IH) linarith
  ultimately show ?case by (auto split: sum.split)
qed simp

lemma async_read_loop_ends:
  assumes "recv_bounded K" "stalls_at_most m K" "m < fuel" "length buf - tot < turns"
  shows "\<exists>r buf' w'. async_read_loop turns fuel K tot buf s w = Some (r, buf', w')"
  using assms(4)
proof (induction turns arbitrary: tot buf w)
  case (Suc turns)
  have "m - stalls (trace w) < fuel" using assms(3) by simp
  from async_read_some_ends[OF assms(2) this] obtain r rest w1
    where rd: "async_read_some fuel K (drop tot buf) s w = Some (r, rest, w1)" by blast
  have "\<exists>r buf' w'. async_read_loop turns fuel K (tot + k) (take tot buf @ rest) s w1 = Some (r, buf', w')"
    if "0 < k" "tot < length buf" "r = Inr k" for k
  proof -
    have "recv_bounded K \<and> (\<exists>fuel. async_read_some fuel K (drop tot buf) s w = Some (Inr k, rest, w1))"
      using assms(1) rd that(3) by blast
    from async_source.get_extends[OF this] that(2) have "length (take tot buf @ rest) = length buf" by auto
    then show ?thesis using that Suc.prems by (intro Suc.IH) linarith
  qed
  with rd show ?case by (auto simp: Let_def split: sum.split)
qed simp

end
