(* ===== verification/Io_Ops_Claims.thy ===== *)
theory Io_Ops_Claims
  imports Io_Ops_Facts Event_Loop_Claims Uring_Event_Loop_Claims
begin

section \<open>Coroutine operations: what is claimed\<close>

subsection \<open>Whole buffers\<close>

text \<open>
  C14. \<^verbatim>\<open>async_write_all\<close> is exact: when it completes, the kernel has accepted a prefix of the buffer,
  in order, each byte once, over any number of partial writes, full socket buffers and
  suspensions, and it reports success exactly if that prefix is the whole buffer; and it completes
  if the socket is full only finitely often.
\<close>

theorem async_write_all_exact:
  assumes "send_bounded K" "n = nb_native_handle s"
  shows "(\<forall>r w'. async_write_all fuel K buf s w = Some (r, w') \<longrightarrow>
      (\<exists>k \<le> length buf. sent n (trace w') @ drop k buf = sent n (trace w) @ buf \<and> (r = Inr () \<longleftrightarrow> k = length buf)))
    \<and> (stalls_at_most m K \<and> m < fuel \<longrightarrow> (\<exists>r w'. async_write_all fuel K buf s w = Some (r, w')))"
  using async_write_loop_sends[OF assms(1)] async_write_loop_ends[of m K fuel buf 0]
  by (fastforce simp: assms(2) async_write_all_def simp del: async_write_loop.simps)

text \<open>
  A kernel whose sockets would block at every fourth call, and that then
  transfers at most three bytes.
\<close>

definition choppy_kernel :: kernel where
  "choppy_kernel tr c = (case c of
       Send n buf \<Rightarrow> if length tr mod 4 = 0 then ok_answer\<lparr>a_ret := -1, a_errno := EAGAIN\<rparr>
         else ok_answer\<lparr>a_ret := min 3 (int (length buf))\<rparr>
     | Recv n m \<Rightarrow> if length tr mod 4 = 0 then ok_answer\<lparr>a_ret := -1, a_errno := EAGAIN\<rparr>
         else ok_answer\<lparr>a_ret := int (min 3 m), a_data := replicate (min 3 m) 7\<rparr>
     | Await_ready n rd t \<Rightarrow> ok_answer
     | Clock_now \<Rightarrow> ok_answer\<lparr>a_num := 1000 * int (length tr)\<rparr>
     | Atomic_load_cancel i \<Rightarrow> ok_answer\<lparr>a_ret := of_bool ((Atomic_store_cancel i, ok_answer) \<in> set tr)\<rparr>
     | _ \<Rightarrow> ok_answer)"

lemma choppy_bounded: "send_bounded choppy_kernel" "recv_bounded choppy_kernel"
  by (auto simp: send_bounded_def recv_bounded_def choppy_kernel_def ok_answer_def)

abbreviation nb_stream5 :: nb_stream where
  "nb_stream5 \<equiv> \<lparr>nb_stream_fd = make_fd 5\<rparr>"

text \<open>A kernel like it that has the socket full, or empty, for the very first call only.\<close>

definition once_kernel :: kernel where
  "once_kernel tr c = (if tr \<noteq> [] \<and> length tr mod 4 = 0 then ok_answer\<lparr>a_ret := 0\<rparr> else choppy_kernel tr c)"

lemma once_stalls: "stalls_at_most 1 once_kernel" "send_bounded once_kernel" "recv_bounded once_kernel"
proof -
  have "stalls [] = 0" by (simp add: stalls_def)
  then show "stalls_at_most 1 once_kernel"
    by (auto simp: stalls_at_most_def stalled_answer_def once_kernel_def choppy_kernel_def ok_answer_def
        split: ext_call.splits)
  show "send_bounded once_kernel" "recv_bounded once_kernel"
    by (auto simp: send_bounded_def recv_bounded_def once_kernel_def choppy_kernel_def ok_answer_def)
qed

theorem async_write_all_exact_witness:
  "\<exists>w. async_write_all 9 choppy_kernel [1, 2, 3, 4, 5] nb_stream5 init_world = Some (Inr (), w)
     \<and> sent 5 (trace w) = [1, 2, 3, 4, 5]
     \<and> (\<exists>r w. async_write_all 2 once_kernel [1, 2, 3, 4, 5] nb_stream5 init_world = Some (r, w))"
proof -
  have "map_option fst (async_write_all 9 choppy_kernel [1, 2, 3, 4, 5] nb_stream5 init_world) = Some (Inr ())"
    by code_simp
  then obtain w where run: "async_write_all 9 choppy_kernel [1, 2, 3, 4, 5] nb_stream5 init_world = Some (Inr (), w)"
    by auto
  from async_write_all_exact[OF choppy_bounded(1) refl, of 9 "[1, 2, 3, 4, 5]" nb_stream5 init_world] run
    async_write_all_exact[OF once_stalls(2) refl, of 2 "[1, 2, 3, 4, 5]" nb_stream5 init_world 1] once_stalls(1) show ?thesis
    by (fastforce simp: nb_native_handle_def init_world_def)
qed

text \<open>
  C15. \<^verbatim>\<open>async_read_exact\<close> is exact: the bytes the kernel delivered stand, in order and without gap, at
  the front of the buffer, the rest of the buffer is untouched, and success is reported exactly if
  the buffer is full; and it completes if the socket is empty only finitely often.
\<close>

theorem async_read_exact_exact:
  assumes "recv_bounded K" "n = nb_native_handle s"
  shows "(\<forall>r buf' w'. async_read_exact fuel K buf s w = Some (r, buf', w') \<longrightarrow>
      (\<exists>d. length d \<le> length buf \<and> buf' = d @ drop (length d) buf
        \<and> received n (trace w') = received n (trace w) @ d \<and> (r = Inr () \<longleftrightarrow> length d = length buf)))
    \<and> (stalls_at_most m K \<and> m < fuel \<longrightarrow> (\<exists>r buf' w'. async_read_exact fuel K buf s w = Some (r, buf', w')))"
  using async_read_loop_fills[OF assms(1), of _ _ 0] async_read_loop_ends[OF assms(1), of m fuel buf 0]
  by (fastforce simp: assms(2) async_read_exact_def simp del: async_read_loop.simps)

theorem async_read_exact_exact_witness:
  "\<exists>w. async_read_exact 9 choppy_kernel [1, 2, 3, 4, 5] nb_stream5 init_world = Some (Inr (), [7, 7, 7, 7, 7], w)
     \<and> received 5 (trace w) = [7, 7, 7, 7, 7]
     \<and> (\<exists>r b w. async_read_exact 2 once_kernel [1, 2, 3, 4, 5] nb_stream5 init_world = Some (r, b, w))"
proof -
  have "map_option (\<lambda>(r, b, w). (r, b)) (async_read_exact 9 choppy_kernel [1, 2, 3, 4, 5] nb_stream5 init_world)
      = Some (Inr (), [7, 7, 7, 7, 7])" by code_simp
  then obtain w where run:
    "async_read_exact 9 choppy_kernel [1, 2, 3, 4, 5] nb_stream5 init_world = Some (Inr (), [7, 7, 7, 7, 7], w)" by auto
  from async_read_exact_exact[OF choppy_bounded(2) refl, of 9 "[1, 2, 3, 4, 5]" nb_stream5 init_world] run
    async_read_exact_exact[OF once_stalls(3) refl, of 2 "[1, 2, 3, 4, 5]" nb_stream5 init_world 1] once_stalls(1) show ?thesis
    by (fastforce simp: nb_native_handle_def init_world_def)
qed

lemma async_write_loop_blocking:
  assumes "\<And>tr buf. a_ret (K tr (Send n buf)) < 0 \<Longrightarrow> a_errno (K tr (Send n buf)) \<notin> {EINTR, EAGAIN}"
    and "nb_valid s" "nb_native_handle s = n"
  shows "async_write_loop turns (Suc fuel) K tot buf s w = write_loop turns K n (drop tot buf) w"
proof (induction turns arbitrary: tot w)
  case (Suc turns)
  show ?case
  proof (cases "tot < length buf")
    case True
    let ?a = "K (trace w) (Send n (drop tot buf))"
    consider "a_ret ?a < 0" "a_errno ?a \<notin> {EINTR, EAGAIN}" | "a_ret ?a = 0" | "0 < a_ret ?a" using assms(1) by force
    then show ?thesis
      using True assms(2,3) Suc.IH[of "tot + nat (a_ret ?a)"]
      by cases (auto simp: nb_write_some_def nb_native_handle_def is_would_block_def sys_eq from_errno_def
          error_of_code_def error_value_def add.commute)
  qed simp
qed simp

text \<open>
  The coroutine version computes what the blocking version computes: on a descriptor whose
  sends neither would block nor are interrupted, \<^verbatim>\<open>async_write_all\<close> and \<^verbatim>\<open>write_all\<close> make the same calls
  and return the same result.
\<close>

theorem async_write_all_equals_blocking:
  assumes "\<forall>tr buf. a_ret (K tr (Send n buf)) < 0 \<longrightarrow> a_errno (K tr (Send n buf)) \<notin> {EINTR, EAGAIN}"
    and "0 \<le> n" "0 < fuel"
  shows "async_write_all fuel K buf \<lparr>nb_stream_fd = make_fd n\<rparr> w
    = write_all (length buf + 1) K buf \<lparr>stream_fd = make_fd n\<rparr> w"
  using async_write_loop_blocking[of K n "\<lparr>nb_stream_fd = make_fd n\<rparr>" "length buf + 1" "fuel - 1" 0 buf w] assms
  by (auto simp: async_write_all_def write_all_def nb_valid_def nb_native_handle_def stream_valid_def
      stream_native_handle_def)

definition ready_kernel :: kernel where
  "ready_kernel tr c = (case c of Send n buf \<Rightarrow> ok_answer\<lparr>a_ret := 1\<rparr> | _ \<Rightarrow> ok_answer)"

theorem async_write_all_equals_blocking_witness:
  "async_write_all 1 ready_kernel [1, 2] \<lparr>nb_stream_fd = make_fd 5\<rparr> init_world
     = write_all 3 ready_kernel [1, 2] \<lparr>stream_fd = make_fd 5\<rparr> init_world"
  using async_write_all_equals_blocking[of ready_kernel 5 1 "[1, 2]" init_world]
  by (simp add: ready_kernel_def ok_answer_def numeral_3_eq_3)

subsection \<open>Suspension and resumption\<close>

text \<open>
  What awaiting readiness does on the epoll loop: if
  \<^verbatim>\<open>await_suspend\<close> suspends, the coroutine is registered for exactly the descriptor, direction,
  deadline and timeout error of the awaitable, and whenever it is resumed after a result was posted
  for it, \<^verbatim>\<open>await_resume\<close> returns that result and takes it out; if \<^verbatim>\<open>await_suspend\<close> does not suspend,
  nothing is registered and \<^verbatim>\<open>await_resume\<close> returns an error.
\<close>

lemma epoll_await_outcome:
  assumes "loop_valid el" "loop_inv el" "0 \<le> n" "n \<le> int_max" "h \<noteq> 0" "\<forall>t. timeout = Some t \<longrightarrow> 0 < t"
    and "rw_await_suspend (Some (Some (epoll_scheduler K))) h (readiness_wait n rd timeout terr) (el, w) = (b, a, el1, w1)"
  shows "if b
    then loop_abs el1 = sp_register n rd (Some (h, arm_deadline K w timeout, terr)) (loop_abs el)
      \<and> (\<forall>el2 w2 r r' el3 w3. wait_results el2 h = Some r \<longrightarrow> rw_await_resume a (el2, w2) = (r', el3, w3) \<longrightarrow>
           r' = r \<and> wait_results el3 h = None)
    else loop_abs el1 = loop_abs el \<and> (\<forall>s2. \<exists>e. rw_await_resume a s2 = (Inl e, s2))"
proof (cases b)
  case True
  with assms(7) have run: "rw_await_suspend (Some (Some (epoll_scheduler K))) h (readiness_wait n rd timeout terr) (el, w)
      = (True, a, (el1, w1))" by simp
  have "loop_abs el1 = sp_register n rd (Some (h, arm_deadline K w timeout, terr)) (loop_abs el)"
    using epoll.await_suspended(1)[OF _ _ assms(3-6) run] assms(1,2) by simp
  moreover have "r' = r \<and> wait_results el3 h = None"
    if "wait_results el2 h = Some r" "rw_await_resume a (el2, w2) = (r', el3, w3)" for el2 w2 r r' el3 w3
    using epoll.await_resumed[OF run assms(5), of "(el2, w2)" r r' "(el3, w3)"] that by simp
  ultimately show ?thesis using True by simp
next
  case False
  with epoll.await_refused[of "(el, w)" n K h rd timeout terr a "(el1, w1)"] assms show ?thesis by simp
qed

lemma demo_await:
  "rw_await_suspend (Some (Some (epoll_scheduler demo_kernel))) 11
     (readiness_wait 7 True (Some 5) (make_error_from_errno ETIMEDOUT)) demo_loop
   = (True, (readiness_wait 7 True (Some 5) (make_error_from_errno ETIMEDOUT))
       \<lparr>rw_scheduler := Some (epoll_scheduler demo_kernel), rw_handle := 11\<rparr>, demo_armed)"
proof -
  have "fst (arm_waiter demo_kernel 7 11 True (Some 5) (make_error_from_errno ETIMEDOUT) (fst demo_loop) (snd demo_loop))
      = Inr ()" by code_simp
  then have "arm_waiter demo_kernel 7 11 True (Some 5) (make_error_from_errno ETIMEDOUT) (fst demo_loop) (snd demo_loop)
      = (Inr (), demo_armed)" by (simp add: demo_armed_def prod_eq_iff)
  then show ?thesis
    by (simp add: rw_await_suspend_def readiness_wait_def epoll_scheduler_def wait_for_readable_def case_prod_beta)
qed

text \<open>The same on the io_uring loop.\<close>

lemma uring_await_outcome:
  assumes "uring_loop_valid el" "uring_inv el" "0 \<le> n" "n \<le> int_max" "h \<noteq> 0" "\<forall>t. timeout = Some t \<longrightarrow> 0 < t"
    and "rw_await_suspend (Some (Some (uring_scheduler K))) h (readiness_wait n rd timeout terr) (el, w) = (b, a, el1, w1)"
  shows "if b
    then uring_abs el1 = sp_register n rd (Some (h, arm_deadline K w timeout, terr)) (uring_abs el)
      \<and> (\<forall>el2 w2 r r' el3 w3. u_wait_results el2 h = Some r \<longrightarrow> rw_await_resume a (el2, w2) = (r', el3, w3) \<longrightarrow>
           r' = r \<and> u_wait_results el3 h = None)
    else uring_abs el1 = uring_abs el \<and> (\<forall>s2. \<exists>e. rw_await_resume a s2 = (Inl e, s2))"
proof (cases b)
  case True
  with assms(7) have run: "rw_await_suspend (Some (Some (uring_scheduler K))) h (readiness_wait n rd timeout terr) (el, w)
      = (True, a, (el1, w1))" by simp
  have "uring_abs el1 = sp_register n rd (Some (h, arm_deadline K w timeout, terr)) (uring_abs el)"
    using uring.await_suspended(1)[OF _ _ assms(3-6) run] assms(1,2) by simp
  moreover have "r' = r \<and> u_wait_results el3 h = None"
    if "u_wait_results el2 h = Some r" "rw_await_resume a (el2, w2) = (r', el3, w3)" for el2 w2 r r' el3 w3
    using uring.await_resumed[OF run assms(5), of "(el2, w2)" r r' "(el3, w3)"] that by simp
  ultimately show ?thesis using True by simp
next
  case False
  with uring.await_refused[of "(el, w)" n K h rd timeout terr a "(el1, w1)"] assms show ?thesis by simp
qed

lemma ring_await:
  "rw_await_suspend (Some (Some (uring_scheduler ring_kernel))) 11
     (readiness_wait 7 True (Some 5) (make_error_from_errno ETIMEDOUT)) ring_loop
   = (True, (readiness_wait 7 True (Some 5) (make_error_from_errno ETIMEDOUT))
       \<lparr>rw_scheduler := Some (uring_scheduler ring_kernel), rw_handle := 11\<rparr>, ring_armed)"
  using ring_armed_ok
  by (simp add: rw_await_suspend_def readiness_wait_def uring_scheduler_def u_wait_for_readable_def case_prod_beta)

text \<open>
  C16. Awaiting readiness gives the coroutine the outcome of its own wait, on either backend: if
  \<^verbatim>\<open>await_suspend\<close> suspends, the coroutine is registered for exactly the descriptor, direction,
  deadline and timeout error of the awaitable, and whenever it is resumed after a result was posted
  for it, \<^verbatim>\<open>await_resume\<close> returns that result and takes it out; if \<^verbatim>\<open>await_suspend\<close> does not suspend,
  nothing is registered and \<^verbatim>\<open>await_resume\<close> returns an error.
\<close>

theorem await_protocol:
  assumes "0 \<le> n" "n \<le> int_max" "h \<noteq> 0" "\<forall>t. timeout = Some t \<longrightarrow> 0 < t"
  shows "(\<forall>el w b a el1 w1. loop_valid el \<and> loop_inv el \<and>
      rw_await_suspend (Some (Some (epoll_scheduler K))) h (readiness_wait n rd timeout terr) (el, w) = (b, a, el1, w1) \<longrightarrow>
      (if b
       then loop_abs el1 = sp_register n rd (Some (h, arm_deadline K w timeout, terr)) (loop_abs el)
         \<and> (\<forall>el2 w2 r r' el3 w3. wait_results el2 h = Some r \<longrightarrow> rw_await_resume a (el2, w2) = (r', el3, w3) \<longrightarrow>
              r' = r \<and> wait_results el3 h = None)
       else loop_abs el1 = loop_abs el \<and> (\<forall>s2. \<exists>e. rw_await_resume a s2 = (Inl e, s2))))
    \<and> (\<forall>el w b a el1 w1. uring_loop_valid el \<and> uring_inv el \<and>
      rw_await_suspend (Some (Some (uring_scheduler K))) h (readiness_wait n rd timeout terr) (el, w) = (b, a, el1, w1) \<longrightarrow>
      (if b
       then uring_abs el1 = sp_register n rd (Some (h, arm_deadline K w timeout, terr)) (uring_abs el)
         \<and> (\<forall>el2 w2 r r' el3 w3. u_wait_results el2 h = Some r \<longrightarrow> rw_await_resume a (el2, w2) = (r', el3, w3) \<longrightarrow>
              r' = r \<and> u_wait_results el3 h = None)
       else uring_abs el1 = uring_abs el \<and> (\<forall>s2. \<exists>e. rw_await_resume a s2 = (Inl e, s2))))"
  using epoll_await_outcome[OF _ _ assms] uring_await_outcome[OF _ _ assms] by blast

theorem await_protocol_witness:
  "loop_abs (fst demo_armed) = sp_register 7 True (Some (11, arm_deadline demo_kernel (snd demo_loop) (Some 5),
     make_error_from_errno ETIMEDOUT)) (loop_abs (fst demo_loop))
   \<and> uring_abs (fst ring_armed) = sp_register 7 True (Some (11, arm_deadline ring_kernel (snd ring_loop) (Some 5),
     make_error_from_errno ETIMEDOUT)) (uring_abs (fst ring_loop))"
proof
  have v: "loop_valid (fst demo_loop)" "uring_loop_valid (fst ring_loop)" by code_simp+
  have inv: "loop_inv (fst demo_loop)" "uring_inv (fst ring_loop)"
    using loop_reachable_inv[OF demo_client lr_construct[of demo_kernel init_world "fst demo_loop" "snd demo_loop"]]
      uring_construct_inv[of ring_kernel 256 init_world "fst ring_loop" "snd ring_loop"]
    by (simp_all add: demo_loop_def ring_loop_def)
  have wait: "0 \<le> (7::int)" "7 \<le> int_max" "11 \<noteq> (0::co_handle)" "\<forall>t. Some (5::ms) = Some t \<longrightarrow> 0 < t" by simp_all
  note protocol = await_protocol[OF wait, of _ True "make_error_from_errno ETIMEDOUT"]
  show "loop_abs (fst demo_armed) = sp_register 7 True (Some (11, arm_deadline demo_kernel (snd demo_loop) (Some 5),
     make_error_from_errno ETIMEDOUT)) (loop_abs (fst demo_loop))"
    using conjunct1[OF protocol, rule_format, where el = "fst demo_loop" and w = "snd demo_loop" and b = True
        and ?el1.0 = "fst demo_armed" and ?w1.0 = "snd demo_armed" and K = demo_kernel] v(1) inv(1) demo_await by simp
  show "uring_abs (fst ring_armed) = sp_register 7 True (Some (11, arm_deadline ring_kernel (snd ring_loop) (Some 5),
     make_error_from_errno ETIMEDOUT)) (uring_abs (fst ring_loop))"
    using conjunct2[OF protocol, rule_format, where el = "fst ring_loop" and w = "snd ring_loop" and b = True
        and ?el1.0 = "fst ring_armed" and ?w1.0 = "snd ring_armed" and K = ring_kernel] v(2) inv(2) ring_await by simp
qed

end
