(* ===== verification/Io_Ops_Time.thy ===== *)
theory Io_Ops_Time
  imports Io_Ops_Claims
begin

section \<open>Coroutine operations: time, cancellation, ownership\<close>

subsection \<open>Timeouts\<close>

text \<open>Slices are between one and twenty milliseconds and never reach past the deadline by more than one.\<close>

lemma wait_slice_bounds:
  assumes "now < dl" "1 \<le> limit"
  shows "1 \<le> wait_slice limit dl now" "wait_slice limit dl now \<le> limit"
    "now + wait_slice limit dl now * ns_per_ms \<le> max dl (now + ns_per_ms)"
proof -
  show "1 \<le> wait_slice limit dl now" "wait_slice limit dl now \<le> limit" using assms by (auto simp: wait_slice_def)
  have "(dl - now) div ns_per_ms * ns_per_ms \<le> dl - now" by linarith
  moreover have "wait_slice limit dl now = 1 \<or> wait_slice limit dl now \<le> (dl - now) div ns_per_ms"
    by (auto simp: wait_slice_def)
  ultimately show "now + wait_slice limit dl now * ns_per_ms \<le> max dl (now + ns_per_ms)" by auto
qed

text \<open>
  Why a timed write or read ends with a timeout: the clock has passed the deadline, or the
  transfer call itself failed with that error.
\<close>

lemma write_timeout_loop_late:
  assumes "write_timeout_loop fuel K dl buf tok s w = Some (Inl e, w')" "is_timeout_error e"
  shows "(\<exists>t ts. readings (trace w') = t # ts \<and> dl \<le> t) \<or>
    (\<exists>a. hd (trace w') = (Send (nb_native_handle s) buf, a) \<and> a_ret a < 0 \<and> a_errno a = ETIMEDOUT)"
  using assms(1)
proof (induction fuel arbitrary: w)
  case (Suc fuel)
  obtain b w1 where tk: "token_stop_requested K tok w = (b, w1)" by fastforce
  obtain r1 w2 where wr: "nb_write_some K buf s w1 = (r1, w2)" by fastforce
  obtain now w3 where cl: "clock_now K w2 = (now, w3)" by fastforce
  obtain r2 w4 where wt: "wait_writable_for K (nb_native_handle s) (wait_slice 20 dl now) w3 = (r2, w4)" by fastforce
  have failed: "\<exists>a. hd (trace w2) = (Send (nb_native_handle s) buf, a) \<and> a_ret a < 0 \<and> a_errno a = ETIMEDOUT"
    if "r1 = Inl e" using wr that assms(2)
    by (auto simp: nb_write_some_def nb_native_handle_def sys_eq is_timeout_error_def split: if_splits)
  have canc: "e \<noteq> make_error_from_errno ECANCELED" using assms(2) by (auto simp: is_timeout_error_def)
  show ?case
    using Suc.prems Suc.IH[of w4] failed clock_now_quiet(4)[OF cl] assms(2) canc
    by (auto simp: tk wr cl wt split: bool.splits sum.splits if_splits)
qed simp

text \<open>
  C17. A write with a timeout never lies about time or bytes. If it reports a count, exactly those
  bytes at the front of the buffer were accepted; if it fails, none were; and it reports
  \<^verbatim>\<open>ETIMEDOUT\<close> only once the clock has reached the starting time plus the timeout, or because the
  socket call itself reported it. A negative timeout is refused with \<^verbatim>\<open>EINVAL\<close>.
\<close>

theorem timed_write_outcome:
  assumes "send_bounded K" "async_write_some_with_timeout fuel K buf timeout tok s w = Some (r, w')"
  defines "start \<equiv> a_num (K (trace w) Clock_now)" and "n \<equiv> nb_native_handle s"
  shows "case r of
      Inr k \<Rightarrow> k \<le> length buf \<and> sent n (trace w') = sent n (trace w) @ take k buf
    | Inl e \<Rightarrow> sent n (trace w') = sent n (trace w) \<and>
        (timeout < 0 \<longrightarrow> e = make_error_from_errno EINVAL) \<and>
        (is_timeout_error e \<longrightarrow>
           (\<exists>t ts. readings (trace w') = t # ts \<and> start + timeout * ns_per_ms \<le> t) \<or>
           (\<exists>a. hd (trace w') = (Send n buf, a) \<and> a_ret a < 0 \<and> a_errno a = ETIMEDOUT))"
proof (cases r)
  case (Inr k)
  with timed_write_wrote[OF assms(1,2)] show ?thesis by (simp add: wrote_def n_def)
next
  case (Inl e)
  have "sent n (trace w') = sent n (trace w)" using timed_write_wrote[OF assms(1,2)] Inl by (simp add: wrote_def n_def)
  moreover have "timeout < 0 \<Longrightarrow> e = make_error_from_errno EINVAL"
    using assms(2) Inl by (simp add: async_write_some_with_timeout_def)
  moreover have "(\<exists>t ts. readings (trace w') = t # ts \<and> start + timeout * ns_per_ms \<le> t) \<or>
       (\<exists>a. hd (trace w') = (Send n buf, a) \<and> a_ret a < 0 \<and> a_errno a = ETIMEDOUT)" if "is_timeout_error e"
    using write_timeout_loop_late[OF _ that, of fuel K "start + timeout * ns_per_ms" buf tok s] assms(2) Inl that
    by (auto simp: async_write_some_with_timeout_def clock_now_eq start_def n_def is_timeout_error_def split: if_splits)
  ultimately show ?thesis using Inl by simp
qed

definition stalled_kernel :: kernel where
  "stalled_kernel tr c = (case c of
       Send n buf \<Rightarrow> ok_answer\<lparr>a_ret := -1, a_errno := EAGAIN\<rparr>
     | Await_ready n rd t \<Rightarrow> ok_answer\<lparr>a_ret := -1, a_num := ETIMEDOUT\<rparr>
     | Clock_now \<Rightarrow> ok_answer\<lparr>a_num := foldr max (readings tr) 0 + ns_per_ms\<rparr>
     | _ \<Rightarrow> ok_answer)"

lemma stalled_bounded: "send_bounded stalled_kernel"
  by (auto simp: send_bounded_def stalled_kernel_def ok_answer_def)

theorem timed_write_outcome_witness:
  "\<exists>w t ts. async_write_some_with_timeout 9 stalled_kernel [1, 2] 5 no_token nb_stream5 init_world
       = Some (errno_error ETIMEDOUT, w) \<and> readings (trace w) = t # ts \<and> 5 * ns_per_ms \<le> t"
proof -
  have "map_option (\<lambda>(r, w). (r, fst (hd (trace w)))) (async_write_some_with_timeout 9 stalled_kernel [1, 2] 5 no_token
      nb_stream5 init_world) = Some (errno_error ETIMEDOUT, Clock_now)" by code_simp
  then obtain w where run: "async_write_some_with_timeout 9 stalled_kernel [1, 2] 5 no_token nb_stream5 init_world
      = Some (errno_error ETIMEDOUT, w)" "fst (hd (trace w)) = Clock_now" by auto
  from timed_write_outcome[OF stalled_bounded run(1)] run show ?thesis
    by (auto simp: is_timeout_error_def init_world_def stalled_kernel_def ok_answer_def)
qed

text \<open>
  A clock whose successive readings are at least \<open>d\<close> apart.
\<close>

definition clock_ticks :: "int \<Rightarrow> kernel \<Rightarrow> bool" where
  "clock_ticks d K = (\<forall>tr t. t \<in> set (readings tr) \<longrightarrow> t + d \<le> a_num (K tr Clock_now))"

lemma nb_some_readings:
  "nb_read_some K buf s w = (r, buf', w') \<Longrightarrow> readings (trace w') = readings (trace w)"
  "nb_write_some K buf s w = (n, w') \<Longrightarrow> readings (trace w') = readings (trace w)"
  by (auto simp: nb_read_some_def nb_write_some_def sys_eq split: if_splits)

text \<open>
  One turn of a loop that compares the clock with a deadline: unless the deadline has passed, the
  new reading leaves one turn less to go.
\<close>

lemma clock_tick:
  assumes "clock_ticks d K" "0 < d" "t \<in> set (readings (trace w))" "dl < t + int (Suc fuel) * d"
    and "clock_now K w = (now, w')" "now < dl"
  shows "dl < now + int fuel * d" "0 < fuel"
proof -
  have "t + d \<le> now" using assms(1,3,5) unfolding clock_ticks_def by (auto simp: clock_now_eq)
  then show less: "dl < now + int fuel * d" using assms(4) by (simp add: algebra_simps)
  show "0 < fuel" using less assms(6) by (cases fuel) auto
qed

lemma read_timeout_loop_ends:
  assumes "clock_ticks d K" "0 < d" "t \<in> set (readings (trace w))" "dl < t + int fuel * d" "0 < fuel"
  shows "read_timeout_loop fuel K dl buf tok s w \<noteq> None"
  using assms(3-5)
proof (induction fuel arbitrary: t buf w)
  case (Suc fuel)
  obtain b w1 where tk: "token_stop_requested K tok w = (b, w1)" by fastforce
  obtain r1 buf1 w2 where rd: "nb_read_some K buf s w1 = (r1, buf1, w2)" by (metis prod_cases3)
  obtain now w3 where cl: "clock_now K w2 = (now, w3)" by fastforce
  obtain r2 w4 where wt: "wait_readable_for K (nb_native_handle s) (wait_slice 20 dl now) w3 = (r2, w4)" by fastforce
  have seen: "t \<in> set (readings (trace w2))" "now \<in> set (readings (trace w4))"
    using Suc.prems(1) token_stop_quiet(4)[OF tk] nb_some_readings(1)[OF rd] clock_now_quiet(4)[OF cl]
      await_readiness_quiet(4)[OF wt[unfolded waits]] by simp_all
  have "now < dl \<Longrightarrow> read_timeout_loop fuel K dl buf1 tok s w4 \<noteq> None"
    using clock_tick[OF assms(1,2) seen(1) Suc.prems(2) cl] by (intro Suc.IH[OF seen(2)])
  then show ?case by (auto simp: tk rd cl wt split: bool.splits sum.splits)
qed simp

lemma write_timeout_loop_ends:
  assumes "clock_ticks d K" "0 < d" "t \<in> set (readings (trace w))" "dl < t + int fuel * d" "0 < fuel"
  shows "write_timeout_loop fuel K dl buf tok s w \<noteq> None"
  using assms(3-5)
proof (induction fuel arbitrary: t w)
  case (Suc fuel)
  obtain b w1 where tk: "token_stop_requested K tok w = (b, w1)" by fastforce
  obtain r1 w2 where wr: "nb_write_some K buf s w1 = (r1, w2)" by fastforce
  obtain now w3 where cl: "clock_now K w2 = (now, w3)" by fastforce
  obtain r2 w4 where wt: "wait_writable_for K (nb_native_handle s) (wait_slice 20 dl now) w3 = (r2, w4)" by fastforce
  have seen: "t \<in> set (readings (trace w2))" "now \<in> set (readings (trace w4))"
    using Suc.prems(1) token_stop_quiet(4)[OF tk] nb_some_readings(2)[OF wr] clock_now_quiet(4)[OF cl]
      await_readiness_quiet(4)[OF wt[unfolded waits]] by simp_all
  have "now < dl \<Longrightarrow> write_timeout_loop fuel K dl buf tok s w4 \<noteq> None"
    using clock_tick[OF assms(1,2) seen(1) Suc.prems(2) cl] by (intro Suc.IH[OF seen(2)])
  then show ?case by (auto simp: tk wr cl wt split: bool.splits sum.splits)
qed simp

lemma timed_write_ends:
  assumes "clock_ticks d K" "0 < d" "timeout * ns_per_ms < int fuel * d" "0 < fuel"
  shows "async_write_some_with_timeout fuel K buf timeout tok s w \<noteq> None"
  using write_timeout_loop_ends[OF assms(1,2), of "a_num (K (trace w) Clock_now)" "snd (sys K Clock_now w)"] assms(3,4)
  by (simp add: async_write_some_with_timeout_def clock_now_eq)

lemma sleep_loop_ends:
  assumes "clock_ticks d K" "0 < d" "t \<in> set (readings (trace w))" "dl < t + int fuel * d" "0 < fuel"
  shows "sleep_loop fuel K timer dl tok w \<noteq> None"
  using assms(3-5)
proof (induction fuel arbitrary: t w)
  case (Suc fuel)
  obtain b w1 where tk: "token_stop_requested K tok w = (b, w1)" by fastforce
  obtain now w2 where cl: "clock_now K w1 = (now, w2)" by fastforce
  let ?c = "Timerfd_settime timer (wait_slice 20 dl now div 1000) (wait_slice 20 dl now mod 1000 * 1000000)"
  obtain a w3 where st: "sys K ?c w2 = (a, w3)" by fastforce
  obtain r w4 where wt: "wait_readable K timer w3 = (r, w4)" by fastforce
  obtain c w5 where rd: "sys K (Read_u64 timer) w4 = (c, w5)" by fastforce
  have "readings (trace w3) = readings (trace w2)" "readings (trace w5) = readings (trace w4)"
    using st rd by (auto simp: sys_eq)
  then have seen: "t \<in> set (readings (trace w1))" "now \<in> set (readings (trace w5))"
    using Suc.prems(1) token_stop_quiet(4)[OF tk] clock_now_quiet(4)[OF cl]
      await_readiness_quiet(4)[OF wt[unfolded waits]] by simp_all
  have "now < dl \<Longrightarrow> sleep_loop fuel K timer dl tok w5 \<noteq> None"
    using clock_tick[OF assms(1,2) seen(1) Suc.prems(2) cl] by (intro Suc.IH[OF seen(2)])
  then show ?case by (auto simp: tk cl st wt rd Let_def split: bool.splits sum.splits)
qed simp

text \<open>
  C18. Timed operations return: if successive clock readings are at least \<open>d\<close> nanoseconds apart, a
  read, a write or a sleep takes at most one turn per \<open>d\<close> nanoseconds of its timeout and one more,
  whatever the socket, the timer, the scheduler and the other threads answer.
\<close>

theorem timed_operations_return:
  assumes "clock_ticks d K" "0 < d" "timeout * ns_per_ms < int fuel * d" "0 < fuel"
  shows "(\<exists>r buf' w'. async_read_some_with_timeout fuel K buf timeout tok s w = Some (r, buf', w'))
    \<and> (\<exists>r w'. async_write_some_with_timeout fuel K buf timeout tok s w = Some (r, w'))
    \<and> (\<exists>r w'. async_sleep fuel K timeout tok w = Some (r, w'))"
proof (intro conjI)
  let ?t = "\<lambda>v. a_num (K (trace v) Clock_now)" and ?v = "\<lambda>v. snd (sys K Clock_now v)"
  show "\<exists>r buf' w'. async_read_some_with_timeout fuel K buf timeout tok s w = Some (r, buf', w')"
    using read_timeout_loop_ends[OF assms(1,2), of "?t w" "?v w"] assms(3,4)
    by (auto simp: async_read_some_with_timeout_def clock_now_eq)
  show "\<exists>r w'. async_write_some_with_timeout fuel K buf timeout tok s w = Some (r, w')"
    using timed_write_ends[OF assms] by auto
  have "\<exists>r w'. sleep_loop fuel K timer (?t v + timeout * ns_per_ms) tok (?v v) = Some (r, w')" for timer v
    using sleep_loop_ends[OF assms(1,2), of "?t v" "?v v"] assms(3,4) by auto
  then show "\<exists>r w'. async_sleep fuel K timeout tok w = Some (r, w')"
    by (auto simp: async_sleep_def clock_now_eq Let_def split: prod.splits bool.splits)
qed

lemma stalled_ticks: "clock_ticks ns_per_ms stalled_kernel"
proof -
  have "t \<le> foldr max ts 0" if "t \<in> set ts" for t and ts :: "int list" using that by (induction ts) auto
  then show ?thesis by (simp add: clock_ticks_def stalled_kernel_def ok_answer_def)
qed

theorem timed_operations_return_witness:
  "\<exists>r b w. async_read_some_with_timeout 7 stalled_kernel [0, 0] 6 no_token nb_stream5 init_world = Some (r, b, w)"
  using timed_operations_return[OF stalled_ticks, of 6 7] by simp

subsection \<open>Sleeping\<close>

lemma sleep_loop_readings:
  assumes "sleep_loop fuel K timer dl tok w = Some (Inr (), w')"
  shows "\<exists>t mid. readings (trace w') = t # mid @ readings (trace w) \<and> dl \<le> t"
  using assms
proof (induction fuel arbitrary: w)
  case (Suc fuel)
  obtain b w1 where tk: "token_stop_requested K tok w = (b, w1)" by fastforce
  obtain now w2 where cl: "clock_now K w1 = (now, w2)" by fastforce
  note r2 = clock_now_quiet(4)[OF cl, unfolded token_stop_quiet(4)[OF tk]]
  let ?c = "Timerfd_settime timer (wait_slice 20 dl now div 1000) (wait_slice 20 dl now mod 1000 * 1000000)"
  obtain a w3 where st: "sys K ?c w2 = (a, w3)" by fastforce
  obtain r w4 where wt: "wait_readable K timer w3 = (r, w4)" by fastforce
  obtain c w5 where rd: "sys K (Read_u64 timer) w4 = (c, w5)" by fastforce
  have "readings (trace w3) = readings (trace w2)" "readings (trace w5) = readings (trace w4)"
    using st rd by (auto simp: sys_eq)
  then have r5: "readings (trace w5) = now # readings (trace w)"
    using r2 await_readiness_quiet(4)[OF wt[unfolded waits]] by simp
  show ?case
  proof (cases "dl \<le> now")
    case True
    with Suc.prems tk cl r2 show ?thesis by (auto split: bool.splits)
  next
    case False
    with Suc.prems tk cl st wt rd have "sleep_loop fuel K timer dl tok w5 = Some (Inr (), w')"
      by (auto simp: Let_def split: bool.splits sum.splits if_splits)
    from Suc.IH[OF this] r5 show ?thesis by auto
  qed
qed simp

text \<open>
  C19. \<^verbatim>\<open>async_sleep\<close> sleeps at least as long as asked: if it succeeds for a positive duration, a clock
  reading taken by the call is followed by a later one of the call, its last, that is at least the
  duration away.
\<close>

theorem async_sleep_long_enough:
  assumes "async_sleep fuel K duration tok w = Some (Inr (), w')" "0 < duration"
  shows "\<exists>t1 mid t0. readings (trace w') = t1 # mid @ t0 # readings (trace w) \<and> t0 + duration * ns_per_ms \<le> t1"
proof -
  obtain b w1 where tk: "token_stop_requested K tok w = (b, w1)" by fastforce
  obtain timer w2 where tm: "get_sleep_timerfd K w1 = (timer, w2)" by fastforce
  obtain now w3 where cl: "clock_now K w2 = (now, w3)" by fastforce
  have "readings (trace w2) = readings (trace w1)"
    using tm by (auto simp: get_sleep_timerfd_def sys_eq Let_def split: option.splits)
  with token_stop_quiet(4)[OF tk] clock_now_quiet(4)[OF cl]
  have r3: "readings (trace w3) = now # readings (trace w)" by simp
  from assms tk tm cl have "sleep_loop fuel K timer (now + duration * ns_per_ms) tok w3 = Some (Inr (), w')"
    by (auto simp: async_sleep_def Let_def split: bool.splits if_splits)
  from sleep_loop_readings[OF this] r3 show ?thesis by auto
qed

definition sleepy_kernel :: kernel where
  "sleepy_kernel tr c = (case c of
       Clock_now \<Rightarrow> ok_answer\<lparr>a_num := foldr max (readings tr) 0 + ns_per_ms\<rparr>
     | Timerfd_create \<Rightarrow> ok_answer\<lparr>a_ret := 9\<rparr>
     | Atomic_load_cancel i \<Rightarrow> ok_answer\<lparr>a_ret := of_bool (\<exists>(c', a) \<in> set tr. c' = Atomic_store_cancel i)\<rparr>
     | _ \<Rightarrow> ok_answer)"

theorem async_sleep_long_enough_witness:
  "\<exists>w t1 mid t0. async_sleep 9 sleepy_kernel 3 no_token init_world = Some (Inr (), w)
     \<and> readings (trace w) = t1 # mid @ [t0] \<and> t0 + 3 * ns_per_ms \<le> t1"
proof -
  have "map_option fst (async_sleep 9 sleepy_kernel 3 no_token init_world) = Some (Inr ())" by code_simp
  then obtain w where run: "async_sleep 9 sleepy_kernel 3 no_token init_world = Some (Inr (), w)" by auto
  from async_sleep_long_enough[OF run] run show ?thesis by (simp add: init_world_def)
qed

subsection \<open>Cancellation\<close>

text \<open>
  What an atomic flag promises: a load that follows the store sees it.
\<close>

definition cancel_visible :: "kernel \<Rightarrow> bool" where
  "cancel_visible K = (\<forall>tr i a. (Atomic_store_cancel i, a) \<in> set tr \<longrightarrow> a_ret (K tr (Atomic_load_cancel i)) \<noteq> 0)"



subsection \<open>Ownership\<close>

lemma make_fd_fd [simp]: "make_fd (fd u) = u"
  by (simp add: make_fd_def)

lemma finish_connect_ledger: "finish_connect K s w = (r, w') \<Longrightarrow> ledger w w' {#}"
  by (auto simp: finish_connect_def made_simps split: if_splits)

lemma await_readiness_ledger: "await_readiness K n rd t w = (r, w') \<Longrightarrow> ledger w w' {#}"
  using await_readiness_quiet(5,6) by (simp add: ledger_def)

lemma made_returns:
  assumes "ledger w w1 {#fd u#}" "fd_valid u"
  shows "f (mk u) = u \<Longrightarrow> made f w (return_owned K mk u w1)" "made f w (return_error K e u w1)"
proof -
  have "return_owned K mk u w1 = (Inr (mk u), w1)" using return_owned_eq[of K mk "fd u" w1] by simp
  with assms show "f (mk u) = u \<Longrightarrow> made f w (return_owned K mk u w1)" by (simp add: made_def)
  have "ledger w w1 (owns u)" using assms by (simp add: owns_def)
  then show "made f w (return_error K e u w1)" by (simp add: made_def return_error_def ledger_destroy)
qed

lemma async_connect_loop_made:
  assumes "async_connect_loop fuel K s w1 = Some res" "ledger w w1 {#fd (nb_stream_fd s)#}" "fd_valid (nb_stream_fd s)"
  shows "made nb_stream_fd w res"
  using assms(1,2)
proof (induction fuel arbitrary: w1)
  case (Suc fuel)
  obtain r w2 where fc: "finish_connect K s w1 = (r, w2)" by fastforce
  obtain r' w3 where wt: "wait_writable K (nb_native_handle s) w2 = (r', w3)" by fastforce
  have l2: "ledger w w2 {#fd (nb_stream_fd s)#}"
    using ledger_trans[OF Suc.prems(2) finish_connect_ledger[OF fc]] by simp
  then have l3: "ledger w w3 {#fd (nb_stream_fd s)#}"
    using ledger_trans[OF _ await_readiness_ledger[OF wt[unfolded waits]]] by fastforce
  have ok: "made nb_stream_fd w (return_owned K (\<lambda>u. \<lparr>nb_stream_fd = u\<rparr>) (nb_stream_fd s) w2)"
    by (rule made_returns(1)[OF l2 assms(3)]) simp
  note ret = ok made_returns(2)[OF l2 assms(3)] made_returns(2)[OF l3 assms(3)]
  show ?case
    using Suc.prems(1) Suc.IH[OF _ l3] ret
    by (auto simp: fc wt split: sum.splits if_splits)
qed simp

lemma async_accept_made: "async_accept fuel K l w = Some res \<Longrightarrow> made nb_stream_fd w res"
proof (induction fuel arbitrary: w)
  case (Suc fuel)
  obtain r w1 where ac: "nb_accept l K w = (r, w1)" by fastforce
  obtain r' w2 where wt: "wait_readable K (nb_listener_native_handle l) w1 = (r', w2)" by fastforce
  have m: "made nb_stream_fd w (r, w1)" using nb_accepted.make_made[of w l K] ac by simp
  have l2: "ledger w w2 {#}" if "r = Inl e" for e
    using m that ledger_trans[OF _ await_readiness_ledger[OF wt[unfolded waits]], of w "{#}"] by (simp add: made_def)
  have later: "made nb_stream_fd w res" if "ledger w w2 {#}" "made nb_stream_fd w2 res"
    using that ledger_trans[OF that(1)] by (fastforce simp: made_def split: sum.splits prod.splits)
  show ?case
    using Suc.prems Suc.IH[of w2] m l2 later
    by (auto simp: ac wt split: sum.splits if_splits) (auto simp: made_def)
qed simp

text \<open>
  \<^verbatim>\<open>async_connect\<close> and \<^verbatim>\<open>async_accept\<close> leak no socket, however often they suspend and however they
  end: an error has closed everything that was opened, a stream owns exactly what is left open.
\<close>

theorem async_streams_leak_free:
  "(case async_connect fuel I K ep w of None \<Rightarrow> True | Some res \<Rightarrow> made nb_stream_fd w res)
   \<and> (case async_accept fuel K l w of None \<Rightarrow> True | Some res \<Rightarrow> made nb_stream_fd w res)"
proof -
  obtain r w1 where c: "nb_connect I ep K w = (r, w1)" by fastforce
  have m: "made nb_stream_fd w (r, w1)" using nb_connected.make_made[of w I ep K] c by simp
  have "made nb_stream_fd w res" if "async_connect fuel I K ep w = Some res" for res
  proof (cases r)
    case (Inl e)
    with that c m show ?thesis by (auto simp: async_connect_def)
  next
    case (Inr s)
    with that c m async_connect_loop_made[of fuel K s w1 res w] show ?thesis
      by (simp add: async_connect_def made_def)
  qed
  with async_accept_made show ?thesis by (simp split: option.split)
qed

text \<open>
  While a connection attempt is still under way, \<^verbatim>\<open>SO_ERROR\<close> is zero; \<^verbatim>\<open>async_connect\<close> reads that as
  success and returns the stream without having waited for the attempt to finish.
\<close>

lemma async_connect_does_not_wait:
  assumes "nb_to_sockaddr I ep = Inr addr" "make_stream_socket_nonblocking K w = (Inr n, w1)" "0 \<le> n"
    and "sys K (Connect n addr) w1 = (a, w2)" "a_ret a \<noteq> 0" "a_errno a = EINPROGRESS"
    and "sys K (Getsockopt_error n) w2 = (b, w3)" "a_ret b = 0" "a_num b = 0"
  shows "async_connect (Suc fuel) I K ep w = Some (Inr \<lparr>nb_stream_fd = make_fd n\<rparr>, w3)"
  using assms
  by (auto simp: async_connect_def nb_connect_def return_owned_eq finish_connect_def nb_valid_def sys_eq Let_def)

end
