(* ===== verification/Write_Queue.thy ===== *)
theory Write_Queue
  imports Io_Ops_Time
begin

section \<open>The queued writer\<close>

text \<open>
  \<^verbatim>\<open>runtime/write_queue\<close>: buffers waiting to be written to a stream, with back-pressure between two
  watermarks. A \<^verbatim>\<open>std::deque\<close> of vectors is a list of lists; sizes are natural numbers, as memory
  bounds them far below \<^verbatim>\<open>size_t\<close>. \<open>flush\<close> is a coroutine: it suspends inside each timed write, and
  other coroutines may enqueue meanwhile, which the steps of \<^verbatim>\<open>Write_Queue_Claims\<close> cover.
\<close>

record watermarks =
  wm_low :: nat
  wm_high :: nat

datatype backpressure_state = Normal | High_watermark

record queued_writer =
  qw_stream :: nb_stream
  qw_marks :: watermarks
  qw_queue :: "byte list list"
  qw_front_offset :: nat
  qw_queued_bytes :: nat
  qw_high_active :: bool

definition queued_writer_construct :: "nb_stream \<Rightarrow> watermarks \<Rightarrow> queued_writer" where
  "queued_writer_construct s marks =
     (let m1 = (if wm_low marks = 0 then marks\<lparr>wm_low := 1\<rparr> else marks);
          m2 = (if wm_high m1 < wm_low m1 then m1\<lparr>wm_high := wm_low m1\<rparr> else m1)
      in \<lparr>qw_stream = s, qw_marks = m2, qw_queue = [], qw_front_offset = 0, qw_queued_bytes = 0,
          qw_high_active = False\<rparr>)"

definition qw_state :: "queued_writer \<Rightarrow> backpressure_state" where
  "qw_state q = (if qw_high_active q then High_watermark else Normal)"

definition enqueue_owned :: "byte list \<Rightarrow> queued_writer \<Rightarrow> backpressure_state result \<times> queued_writer" where
  "enqueue_owned bytes q =
     (if \<not> nb_valid (qw_stream q) then (errno_error EBADF, q)
      else if bytes = [] then (Inr (qw_state q), q)
      else if qw_high_active q \<and> wm_low (qw_marks q) \<le> qw_queued_bytes q then (errno_error EWOULDBLOCK, q)
      else
        let q1 = q\<lparr>qw_queued_bytes := qw_queued_bytes q + length bytes, qw_queue := qw_queue q @ [bytes]\<rparr>;
            q2 = (if wm_high (qw_marks q1) \<le> qw_queued_bytes q1 then q1\<lparr>qw_high_active := True\<rparr> else q1)
        in (Inr (qw_state q2), q2))"

text \<open>Both overloads of \<^verbatim>\<open>enqueue\<close>: one copies the caller's span first, the other moves a vector.\<close>

definition enqueue_copy :: "byte list \<Rightarrow> queued_writer \<Rightarrow> backpressure_state result \<times> queued_writer" where
  "enqueue_copy bytes q = (let copy = map id bytes in enqueue_owned copy q)"

definition enqueue_move :: "byte list \<Rightarrow> queued_writer \<Rightarrow> backpressure_state result \<times> queued_writer" where
  "enqueue_move bytes q = enqueue_owned bytes q"

definition update_backpressure_after_drain :: "queued_writer \<Rightarrow> queued_writer" where
  "update_backpressure_after_drain q =
     (if qw_high_active q \<and> qw_queued_bytes q \<le> wm_low (qw_marks q) then q\<lparr>qw_high_active := False\<rparr> else q)"

text \<open>
  The body of \<^verbatim>\<open>flush\<close>'s loop around the write: the span still to be written of the front buffer, and
  the accounting for \<open>n\<close> written bytes.
\<close>

definition front_span :: "queued_writer \<Rightarrow> byte list" where
  "front_span q = drop (qw_front_offset q) (hd (qw_queue q))"

definition advance_front :: "nat \<Rightarrow> queued_writer \<Rightarrow> queued_writer" where
  "advance_front n q =
     (let q1 = q\<lparr>qw_front_offset := qw_front_offset q + n, qw_queued_bytes := qw_queued_bytes q - n\<rparr>;
          q2 = (if qw_front_offset q1 = length (hd (qw_queue q1))
                then q1\<lparr>qw_queue := tl (qw_queue q1), qw_front_offset := 0\<rparr> else q1)
      in update_backpressure_after_drain q2)"

text \<open>
  \<open>front()\<close> of an empty deque is undefined; the loop reaches it only if \<^verbatim>\<open>queued_bytes_\<close> is positive
  while the queue is empty, which the invariant excludes. \<open>wfuel\<close> is the fuel of each timed write.
\<close>

fun flush_loop ::
    "nat \<Rightarrow> nat \<Rightarrow> kernel \<Rightarrow> time \<Rightarrow> cancel_token \<Rightarrow> queued_writer \<Rightarrow> world
       \<Rightarrow> (unit result \<times> queued_writer \<times> world) option" where
  "flush_loop 0 wfuel K dl tok q w = None"
| "flush_loop (Suc fuel) wfuel K dl tok q w =
     (if qw_queued_bytes q = 0 then Some (Inr (), q, w)
      else case token_stop_requested K tok w of
             (True, w1) \<Rightarrow> Some (errno_error ECANCELED, q, w1)
           | (False, w1) \<Rightarrow>
               let (now, w2) = clock_now K w1
               in if dl \<le> now then Some (errno_error ETIMEDOUT, q, w2)
                  else if qw_queue q = [] then None
                  else (case async_write_some_with_timeout wfuel K (front_span q) (wait_slice 100 dl now) tok (qw_stream q) w2 of
                          None \<Rightarrow> None
                        | Some (Inl e, w3) \<Rightarrow> Some (Inl e, q, w3)
                        | Some (Inr n, w3) \<Rightarrow>
                            if n = 0 then Some (errno_error EPIPE, q, w3)
                            else flush_loop fuel wfuel K dl tok (advance_front n q) w3))"

definition flush ::
    "nat \<Rightarrow> nat \<Rightarrow> kernel \<Rightarrow> ms \<Rightarrow> cancel_token \<Rightarrow> queued_writer \<Rightarrow> world
       \<Rightarrow> (unit result \<times> queued_writer \<times> world) option" where
  "flush fuel wfuel K timeout tok q w =
     (if timeout < 0 then Some (errno_error EINVAL, q, w)
      else let (now, w1) = clock_now K w
           in flush_loop fuel wfuel K (now + timeout * ns_per_ms) tok q w1)"

definition graceful_shutdown ::
    "nat \<Rightarrow> nat \<Rightarrow> kernel \<Rightarrow> ms \<Rightarrow> cancel_token \<Rightarrow> queued_writer \<Rightarrow> world
       \<Rightarrow> (unit result \<times> queued_writer \<times> world) option" where
  "graceful_shutdown fuel wfuel K timeout tok q w =
     (case flush fuel wfuel K timeout tok q w of
        None \<Rightarrow> None
      | Some (Inl e, q1, w1) \<Rightarrow> Some (Inl e, q1, w1)
      | Some (Inr _, q1, w1) \<Rightarrow>
          (case nb_shutdown_write K (qw_stream q1) w1 of
             (Inl e, w2) \<Rightarrow> Some (Inl e, q1, w2)
           | (Inr _, w2) \<Rightarrow> Some (Inr (), q1, w2)))"

definition qw_native_handle :: "queued_writer \<Rightarrow> int" where
  "qw_native_handle q = nb_native_handle (qw_stream q)"

subsection \<open>Invariant\<close>

text \<open>The bytes still to be written, in order.\<close>

definition pending :: "queued_writer \<Rightarrow> byte list" where
  "pending q = drop (qw_front_offset q) (concat (qw_queue q))"

definition writer_inv :: "queued_writer \<Rightarrow> bool" where
  "writer_inv q = (qw_queued_bytes q = length (pending q)
     \<and> [] \<notin> set (qw_queue q)
     \<and> (case qw_queue q of [] \<Rightarrow> qw_front_offset q = 0 | b # bs \<Rightarrow> qw_front_offset q < length b)
     \<and> 0 < wm_low (qw_marks q) \<and> wm_low (qw_marks q) \<le> wm_high (qw_marks q)
     \<and> (qw_high_active q \<longrightarrow> wm_low (qw_marks q) \<le> qw_queued_bytes q)
     \<and> (\<not> qw_high_active q \<longrightarrow> qw_queued_bytes q < wm_high (qw_marks q) \<or> qw_queued_bytes q \<le> wm_low (qw_marks q)))"

lemma construct_writer_inv: "writer_inv (queued_writer_construct s marks)" "pending (queued_writer_construct s marks) = []"
  by (auto simp: writer_inv_def pending_def queued_writer_construct_def Let_def)

lemma offset_fits: "writer_inv q \<Longrightarrow> qw_front_offset q \<le> length (concat (qw_queue q))"
  by (auto simp: writer_inv_def split: list.splits)

lemma pending_front:
  assumes "writer_inv q" "qw_queue q \<noteq> []"
  shows "pending q = front_span q @ concat (tl (qw_queue q))" "front_span q \<noteq> []"
  using assms by (auto simp: writer_inv_def pending_def front_span_def split: list.splits)

lemma queue_nonempty: "writer_inv q \<Longrightarrow> qw_queued_bytes q \<noteq> 0 \<Longrightarrow> qw_queue q \<noteq> []"
  by (auto simp: writer_inv_def pending_def)

lemma enqueue_owned_facts:
  assumes "writer_inv q" "enqueue_owned bytes q = (r, q')"
  shows "writer_inv q'" "pending q' = pending q @ (case r of Inl e \<Rightarrow> [] | Inr s \<Rightarrow> bytes)"
    "qw_stream q' = qw_stream q" "qw_marks q' = qw_marks q"
    "qw_queued_bytes q \<noteq> 0 \<Longrightarrow> front_span q' = front_span q"
proof -
  consider (same) "q' = q" "(\<exists>e. r = Inl e) \<or> bytes = []"
    | (added) q1 where "bytes \<noteq> []" "q1 = q\<lparr>qw_queued_bytes := qw_queued_bytes q + length bytes, qw_queue := qw_queue q @ [bytes]\<rparr>"
        "q' = (if wm_high (qw_marks q) \<le> qw_queued_bytes q1 then q1\<lparr>qw_high_active := True\<rparr> else q1)" "r = Inr (qw_state q')"
        "\<not> qw_high_active q"
  proof (cases "\<not> nb_valid (qw_stream q) \<or> bytes = [] \<or> qw_high_active q")
    case True
    moreover have "qw_high_active q \<Longrightarrow> wm_low (qw_marks q) \<le> qw_queued_bytes q" using assms(1) by (simp add: writer_inv_def)
    ultimately show thesis using assms(2) by (intro that(1)) (auto simp: enqueue_owned_def split: if_splits)
  next
    case False
    with assms(2) show thesis by (intro that(2)[OF _ refl]) (auto simp: enqueue_owned_def Let_def)
  qed
  then have "writer_inv q' \<and> pending q' = pending q @ (case r of Inl e \<Rightarrow> [] | Inr s \<Rightarrow> bytes)
      \<and> qw_stream q' = qw_stream q \<and> qw_marks q' = qw_marks q
      \<and> (qw_queued_bytes q \<noteq> 0 \<longrightarrow> front_span q' = front_span q)"
  proof cases
    case same
    with assms(1) show ?thesis by (auto split: sum.splits)
  next
    case added
    have p: "pending q' = pending q @ bytes"
      using added(2,3) offset_fits[OF assms(1)] by (auto simp: pending_def)
    have "front_span q' = front_span q" if "qw_queued_bytes q \<noteq> 0"
      using added(2,3) queue_nonempty[OF assms(1) that] by (auto simp: front_span_def)
    moreover have "writer_inv q'"
      using assms(1) added p by (auto simp: writer_inv_def split: list.splits)
    ultimately show ?thesis using p added by auto
  qed
  then show "writer_inv q'" "pending q' = pending q @ (case r of Inl e \<Rightarrow> [] | Inr s \<Rightarrow> bytes)"
    "qw_stream q' = qw_stream q" "qw_marks q' = qw_marks q"
    "qw_queued_bytes q \<noteq> 0 \<Longrightarrow> front_span q' = front_span q" by blast+
qed

lemma advance_front_facts:
  assumes "writer_inv q" "qw_queue q \<noteq> []" "0 < n" "n \<le> length (front_span q)"
  shows "writer_inv (advance_front n q)" "pending (advance_front n q) = drop n (pending q)"
    "qw_stream (advance_front n q) = qw_stream q" "qw_queued_bytes (advance_front n q) = qw_queued_bytes q - n"
proof -
  obtain b bs where q: "qw_queue q = b # bs" using assms(2) by (cases "qw_queue q") auto
  have off: "qw_front_offset q < length b" "b \<noteq> []" using assms(1) q by (auto simp: writer_inv_def)
  have fits: "qw_front_offset q + n \<le> length b" using assms(4) q off(1) by (simp add: front_span_def)
  define q2 where "q2 = (if qw_front_offset q + n = length b
     then q\<lparr>qw_queued_bytes := qw_queued_bytes q - n, qw_queue := bs, qw_front_offset := 0\<rparr>
     else q\<lparr>qw_front_offset := qw_front_offset q + n, qw_queued_bytes := qw_queued_bytes q - n\<rparr>)"
  have eq: "advance_front n q = update_backpressure_after_drain q2"
    using q by (auto simp: advance_front_def q2_def Let_def)
  have frame: "pending (advance_front n q) = pending q2" "qw_queue (advance_front n q) = qw_queue q2"
    "qw_front_offset (advance_front n q) = qw_front_offset q2" "qw_marks (advance_front n q) = qw_marks q"
    "qw_stream (advance_front n q) = qw_stream q" "qw_queued_bytes (advance_front n q) = qw_queued_bytes q - n"
    by (auto simp: eq update_backpressure_after_drain_def pending_def q2_def)
  show "qw_stream (advance_front n q) = qw_stream q" "qw_queued_bytes (advance_front n q) = qw_queued_bytes q - n"
    using frame by simp_all
  have "pending q2 = drop n (pending q)"
    using fits q by (auto simp: pending_def q2_def add.commute)
  with frame show p: "pending (advance_front n q) = drop n (pending q)" by simp
  have "qw_queued_bytes (advance_front n q) = length (pending (advance_front n q))"
    using assms(1) p frame by (simp add: writer_inv_def)
  moreover have "[] \<notin> set (qw_queue q2)" "case qw_queue q2 of [] \<Rightarrow> qw_front_offset q2 = 0 | c # cs \<Rightarrow> qw_front_offset q2 < length c"
    using assms(1) q off fits by (auto simp: q2_def writer_inv_def split: list.splits)
  moreover have "qw_high_active (advance_front n q) \<longrightarrow> wm_low (qw_marks q) \<le> qw_queued_bytes q - n"
    "\<not> qw_high_active (advance_front n q) \<longrightarrow> qw_queued_bytes q - n < wm_high (qw_marks q) \<or> qw_queued_bytes q - n \<le> wm_low (qw_marks q)"
    using assms(1) by (auto simp: eq update_backpressure_after_drain_def q2_def writer_inv_def)
  ultimately show "writer_inv (advance_front n q)" using assms(1) frame by (simp add: writer_inv_def cong: list.case_cong)
qed

end
