(* ===== verification/Write_Queue_Claims.thy ===== *)
theory Write_Queue_Claims
  imports Write_Queue
begin

section \<open>The queued writer: what is claimed\<close>

subsection \<open>Interleavings\<close>

text \<open>
  The writer, the span a suspended flush is writing if there is one, the bytes the stream has
  accepted, and the bytes callers have handed over with success. A flush takes the front span,
  suspends, and accounts for the bytes written when it is resumed; enqueues may come in between.
\<close>

type_synonym writer_state = "queued_writer \<times> byte list option \<times> byte list \<times> byte list"

inductive writer_step :: "writer_state \<Rightarrow> writer_state \<Rightarrow> bool" where
  ws_enqueue: "enqueue_owned bytes q = (r, q') \<Longrightarrow>
     writer_step (q, fl, out, acc) (q', fl, out, acc @ (case r of Inl e \<Rightarrow> [] | Inr s \<Rightarrow> bytes))"
| ws_begin: "qw_queued_bytes q \<noteq> 0 \<Longrightarrow> writer_step (q, None, out, acc) (q, Some (front_span q), out, acc)"
| ws_written: "0 < n \<Longrightarrow> n \<le> length span \<Longrightarrow>
     writer_step (q, Some span, out, acc) (advance_front n q, None, out @ take n span, acc)"
| ws_failed: "writer_step (q, Some span, out, acc) (q, None, out, acc)"

inductive_cases writer_stepE: "writer_step s s'"

definition writer_state_ok :: "writer_state \<Rightarrow> bool" where
  "writer_state_ok s = (case s of (q, fl, out, acc) \<Rightarrow> writer_inv q \<and> out @ pending q = acc
     \<and> (case fl of None \<Rightarrow> True | Some span \<Rightarrow> qw_queued_bytes q \<noteq> 0 \<and> span = front_span q))"

lemma writer_step_ok:
  assumes "writer_step s s'" "writer_state_ok s"
  shows "writer_state_ok s'"
  using assms
proof cases
  case (ws_enqueue bytes q r q' fl out acc)
  with assms(2) have inv: "writer_inv q" by (simp add: writer_state_ok_def)
  note e = enqueue_owned_facts[OF inv ws_enqueue(3)]
  have "length (pending q) \<le> length (pending q')" using e(2) by simp
  then have "qw_queued_bytes q \<le> qw_queued_bytes q'" using inv e(1) by (simp add: writer_inv_def)
  with assms(2) ws_enqueue e show ?thesis by (auto simp: writer_state_ok_def split: option.splits)
next
  case (ws_written n span q out acc)
  with assms(2) have inv: "writer_inv q" and span: "span = front_span q" "qw_queue q \<noteq> []" and eq: "out @ pending q = acc"
    by (auto simp: writer_state_ok_def queue_nonempty)
  note a = advance_front_facts[OF inv span(2) ws_written(3)] and p = pending_front(1)[OF inv span(2)]
  have "n \<le> length (front_span q)" using ws_written(4) span by simp
  moreover have join: "take n f @ drop n f @ c = f @ c" for f c :: "byte list" by (metis append_assoc append_take_drop_id)
  ultimately show ?thesis using a p eq by (simp add: ws_written writer_state_ok_def span join)
qed (use assms(2) in \<open>auto simp: writer_state_ok_def\<close>)

text \<open>
  C4. The writer is a queue of bytes. Under any interleaving of enqueues with a flush, refused
  enqueues and failed writes included: the bytes accepted by the stream, followed by the bytes still
  queued, are exactly the bytes handed over with success, in order; \<^verbatim>\<open>queued_bytes()\<close> is the number of
  those still queued; and the high-watermark flag is set only between the two marks' hysteresis:
  never below the low mark, and always at or above the high mark unless the marks coincide.
\<close>

theorem writer_is_fifo:
  assumes "writer_step\<^sup>*\<^sup>* (queued_writer_construct s marks, None, [], []) (q, fl, out, acc)"
  shows "out @ pending q = acc \<and> qw_queued_bytes q = length acc - length out
    \<and> (qw_high_active q \<longrightarrow> wm_low (qw_marks q) \<le> qw_queued_bytes q)
    \<and> (wm_high (qw_marks q) \<le> qw_queued_bytes q \<longrightarrow> qw_high_active q \<or> wm_low (qw_marks q) = wm_high (qw_marks q))"
proof -
  have "writer_state_ok (q, fl, out, acc)"
    using assms
  proof (induction rule: rtranclp_induct)
    case base
    then show ?case using construct_writer_inv by (simp add: writer_state_ok_def)
  next
    case (step y z)
    then show ?case using writer_step_ok by blast
  qed
  then have "writer_inv q" "out @ pending q = acc" by (simp_all add: writer_state_ok_def)
  then show ?thesis by (auto simp: writer_inv_def)
qed

definition demo_writer :: queued_writer where
  "demo_writer = queued_writer_construct nb_stream5 \<lparr>wm_low = 2, wm_high = 5\<rparr>"

theorem writer_is_fifo_witness:
  "\<exists>q. writer_step\<^sup>*\<^sup>* (demo_writer, None, [], []) (q, None, [1, 2, 3], [1, 2, 3, 4, 5]) \<and> pending q = [4, 5]"
proof -
  define q1 where "q1 = snd (enqueue_owned [1, 2, 3, 4] demo_writer)"
  define q2 where "q2 = snd (enqueue_owned [5] q1)"
  have r: "fst (enqueue_owned [1, 2, 3, 4] demo_writer) = Inr Normal" "fst (enqueue_owned [5] q1) = Inr High_watermark"
    unfolding q1_def by code_simp+
  have sp: "front_span q1 = [1, 2, 3, 4]" "qw_queued_bytes q1 \<noteq> 0" unfolding q1_def by code_simp+
  have e: "enqueue_owned [1, 2, 3, 4] demo_writer = (Inr Normal, q1)" "enqueue_owned [5] q1 = (Inr High_watermark, q2)"
    by (simp_all add: q1_def q2_def prod_eq_iff r flip: q1_def)
  have "writer_step (demo_writer, None, [], []) (q1, None, [], [1, 2, 3, 4])"
    using ws_enqueue[OF e(1), of None "[]" "[]"] by simp
  moreover have "writer_step (q1, None, [], [1, 2, 3, 4]) (q1, Some (front_span q1), [], [1, 2, 3, 4])"
    using sp(2) by (rule ws_begin)
  moreover have "writer_step (q1, Some [1, 2, 3, 4], [], [1, 2, 3, 4]) (q2, Some [1, 2, 3, 4], [], [1, 2, 3, 4, 5])"
    using ws_enqueue[OF e(2), of "Some [1, 2, 3, 4]" "[]" "[1, 2, 3, 4]"] by simp
  moreover have "writer_step (q2, Some [1, 2, 3, 4], [], [1, 2, 3, 4, 5])
      (advance_front 3 q2, None, [] @ take 3 [1, 2, 3, 4], [1, 2, 3, 4, 5])"
    by (rule ws_written) simp_all
  ultimately have "writer_step\<^sup>*\<^sup>* (demo_writer, None, [], []) (advance_front 3 q2, None, [1, 2, 3], [1, 2, 3, 4, 5])"
    by (simp add: sp converse_rtranclp_into_rtranclp)
  with writer_is_fifo[of nb_stream5 "\<lparr>wm_low = 2, wm_high = 5\<rparr>"] show ?thesis unfolding demo_writer_def by fastforce
qed

subsection \<open>Back-pressure\<close>

text \<open>
  C22. Enqueueing a non-empty buffer on a valid stream is refused, with \<^verbatim>\<open>EWOULDBLOCK\<close> and without any
  effect, exactly while the high-watermark flag is set; otherwise the buffer is queued whole, and
  the reported state says whether the queue has now reached the high mark.
\<close>

theorem enqueue_backpressure:
  assumes "writer_inv q" "nb_valid (qw_stream q)" "bytes \<noteq> []" "enqueue_owned bytes q = (r, q')"
  shows "if qw_high_active q then r = errno_error EWOULDBLOCK \<and> q' = q
    else pending q' = pending q @ bytes
      \<and> r = Inr (if wm_high (qw_marks q) \<le> qw_queued_bytes q + length bytes then High_watermark else Normal)"
proof (cases "qw_high_active q")
  case True
  with assms show ?thesis by (simp add: enqueue_owned_def writer_inv_def)
next
  case False
  then have r: "r = Inr (if wm_high (qw_marks q) \<le> qw_queued_bytes q + length bytes then High_watermark else Normal)"
    using assms(2-4) by (auto simp: enqueue_owned_def qw_state_def Let_def split: if_splits)
  with enqueue_owned_facts(2)[OF assms(1,4)] False show ?thesis by simp
qed

theorem enqueue_backpressure_witness:
  "\<exists>q'. enqueue_owned [1, 2, 3, 4, 5, 6] demo_writer = (Inr High_watermark, q') \<and> pending q' = [1, 2, 3, 4, 5, 6]"
proof -
  obtain r q' where e: "enqueue_owned [1, 2, 3, 4, 5, 6] demo_writer = (r, q')" by fastforce
  have "nb_valid (qw_stream demo_writer)" "\<not> qw_high_active demo_writer" "wm_high (qw_marks demo_writer) = 5"
    "qw_queued_bytes demo_writer = 0" by code_simp+
  with enqueue_backpressure[OF construct_writer_inv(1) _ _ e[unfolded demo_writer_def], folded demo_writer_def]
    construct_writer_inv(2)[of nb_stream5 "\<lparr>wm_low = 2, wm_high = 5\<rparr>", folded demo_writer_def] e
  show ?thesis by simp
qed

subsection \<open>Flushing\<close>

lemma flush_loop_facts:
  assumes "send_bounded K" "flush_loop fuel wfuel K dl tok q w = Some (r, q', w')" "writer_inv q"
  defines "n \<equiv> qw_native_handle q"
  shows "writer_inv q' \<and> qw_stream q' = qw_stream q \<and> sent n (trace w') @ pending q' = sent n (trace w) @ pending q
    \<and> (r = Inr () \<longleftrightarrow> pending q' = [])"
  using assms(2,3) unfolding n_def
proof (induction fuel arbitrary: q w)
  case (Suc fuel)
  show ?case
  proof (cases "qw_queued_bytes q = 0")
    case True
    with Suc.prems show ?thesis by (auto simp: writer_inv_def)
  next
    case False
    then have ne: "qw_queue q \<noteq> []" "pending q \<noteq> []" using Suc.prems(2) queue_nonempty by (auto simp: writer_inv_def)
    obtain b w1 where tk: "token_stop_requested K tok w = (b, w1)" by fastforce
    obtain now w2 where cl: "clock_now K w1 = (now, w2)" by fastforce
    have s2: "sent m (trace w1) = sent m (trace w)" "sent m (trace w2) = sent m (trace w)" for m
      using token_stop_quiet(1)[OF tk] clock_now_quiet(1)[OF cl] by simp_all
    show ?thesis
    proof (cases "b \<or> dl \<le> now")
      case True
      with Suc.prems False tk cl ne s2 show ?thesis by (auto split: bool.splits if_splits)
    next
      case go: False
      let ?wr = "async_write_some_with_timeout wfuel K (front_span q) (wait_slice 100 dl now) tok (qw_stream q) w2"
      from Suc.prems(1) False go tk cl ne obtain r1 w3 where wr: "?wr = Some (r1, w3)"
        by (cases ?wr) auto
      then have put: "send_bounded K \<and> (\<exists>f. async_write_some_with_timeout f K (front_span q) (wait_slice 100 dl now) tok
          (qw_stream q) w2 = Some (r1, w3))" using assms(1) by blast
      show ?thesis
      proof (cases "\<exists>k. r1 = Inr k \<and> k \<noteq> 0")
        case False
        have "sent (qw_native_handle q) (trace w3) = sent (qw_native_handle q) (trace w2)"
          using put False timed_sink.put_err timed_sink.put_ok unfolding qw_native_handle_def
          by (cases r1) fastforce+
        with Suc.prems \<open>qw_queued_bytes q \<noteq> 0\<close> go tk cl ne wr False s2 show ?thesis by (cases r1) auto
      next
        case True
        then obtain k where k: "r1 = Inr k" "0 < k" by auto
        note c = timed_sink.put_conserves[OF put[unfolded k(1)]]
        note a = advance_front_facts[OF Suc.prems(2) ne(1) k(2) c(2)]
        from Suc.prems(1) \<open>qw_queued_bytes q \<noteq> 0\<close> go tk cl ne wr k
        have "flush_loop fuel wfuel K dl tok (advance_front k q) w3 = Some (r, q', w')" by simp
        from Suc.IH[OF this a(1)] c a(2,3) pending_front(1)[OF Suc.prems(2) ne(1)] s2 show ?thesis
          by (auto simp: qw_native_handle_def)
      qed
    qed
  qed
qed simp

lemma flush_facts:
  assumes "send_bounded K" "writer_inv q" "flush fuel wfuel K timeout tok q w = Some (r, q', w')"
  defines "n \<equiv> qw_native_handle q"
  shows "writer_inv q' \<and> qw_stream q' = qw_stream q \<and> sent n (trace w') @ pending q' = sent n (trace w) @ pending q
    \<and> (0 \<le> timeout \<longrightarrow> (r = Inr () \<longleftrightarrow> pending q' = [])) \<and> (timeout < 0 \<longrightarrow> r = errno_error EINVAL)"
proof (cases "timeout < 0")
  case True
  with assms show ?thesis by (auto simp: flush_def)
next
  case False
  obtain now w1 where cl: "clock_now K w = (now, w1)" by fastforce
  with False assms(3) have "flush_loop fuel wfuel K (now + timeout * ns_per_ms) tok q w1 = Some (r, q', w')"
    by (simp add: flush_def)
  from flush_loop_facts[OF assms(1) this assms(2)] clock_now_quiet(1)[OF cl] False show ?thesis by (simp add: n_def)
qed

lemma flush_loop_ends:
  assumes "send_bounded K" "clock_ticks d K" "0 < d" "100 * ns_per_ms < int wfuel * d"
    and "writer_inv q" "length (pending q) < fuel"
  shows "flush_loop fuel wfuel K dl tok q w \<noteq> None"
  using assms(5,6)
proof (induction fuel arbitrary: q w)
  case (Suc fuel)
  obtain b w1 where tk: "token_stop_requested K tok w = (b, w1)" by fastforce
  obtain now w2 where cl: "clock_now K w1 = (now, w2)" by fastforce
  let ?wr = "async_write_some_with_timeout wfuel K (front_span q) (wait_slice 100 dl now) tok (qw_stream q) w2"
  show ?case
  proof (cases "qw_queued_bytes q = 0 \<or> b \<or> dl \<le> now")
    case True
    then show ?thesis by (auto simp: tk cl split: bool.splits)
  next
    case False
    then have ne: "qw_queue q \<noteq> []" "pending q \<noteq> []"
      using queue_nonempty[OF Suc.prems(1)] Suc.prems(1) by (auto simp: writer_inv_def)
    have "wait_slice 100 dl now \<le> 100" using wait_slice_bounds(2)[of now dl 100] False by simp
    then have "wait_slice 100 dl now * ns_per_ms < int wfuel * d" "0 < wfuel" using assms(4) by (auto intro!: Nat.gr0I)
    then obtain r1 w3 where wr: "?wr = Some (r1, w3)" using timed_write_ends[OF assms(2,3)] by fastforce
    have "flush_loop fuel wfuel K dl tok (advance_front k q) w3 \<noteq> None" if k: "r1 = Inr k" "k \<noteq> 0" for k
    proof (rule Suc.IH)
      have "k \<le> length (front_span q)" using timed_sink.put_conserves(2) assms(1) wr k(1) by blast
      note a = advance_front_facts[OF Suc.prems(1) ne(1) _ this]
      show "writer_inv (advance_front k q)" using a(1) k(2) by simp
      show "length (pending (advance_front k q)) < fuel" using a(2) k(2) ne(2) Suc.prems(2) by (cases "pending q") auto
    qed
    then show ?thesis using ne by (auto simp: tk cl wr split: bool.splits sum.splits)
  qed
qed simp

lemma flush_ends:
  assumes "send_bounded K" "clock_ticks d K" "0 < d" "100 * ns_per_ms < int wfuel * d"
    and "writer_inv q" "length (pending q) < fuel"
  shows "\<exists>r q' w'. flush fuel wfuel K timeout tok q w = Some (r, q', w')"
  using flush_loop_ends[OF assms] by (auto simp: flush_def clock_now_eq)

text \<open>
  C21. Flushing loses and repeats nothing: when \<^verbatim>\<open>flush\<close> returns, with success or any error, the bytes
  the kernel has accepted followed by those still queued are what they were before, and the tables
  are consistent; for a non-negative timeout it reports success exactly if everything was written,
  and a negative one is refused with \<^verbatim>\<open>EINVAL\<close>. Success clears the high-watermark flag. And it does
  return, after at most one turn per queued byte and one more, if successive clock readings are at
  least \<open>d\<close> nanoseconds apart and each write may take as many turns as fill a hundred milliseconds.
\<close>

theorem flush_conserves_bytes:
  assumes "send_bounded K" "writer_inv q"
  defines "n \<equiv> qw_native_handle q"
  shows "(\<forall>r q' w'. flush fuel wfuel K timeout tok q w = Some (r, q', w') \<longrightarrow>
      writer_inv q' \<and> sent n (trace w') @ pending q' = sent n (trace w) @ pending q
      \<and> (0 \<le> timeout \<longrightarrow> (r = Inr () \<longleftrightarrow> pending q' = [])) \<and> (timeout < 0 \<longrightarrow> r = errno_error EINVAL)
      \<and> (r = Inr () \<longrightarrow> \<not> qw_high_active q'))
    \<and> (clock_ticks d K \<and> 0 < d \<and> 100 * ns_per_ms < int wfuel * d \<and> length (pending q) < fuel \<longrightarrow>
        (\<exists>r q' w'. flush fuel wfuel K timeout tok q w = Some (r, q', w')))"
proof (rule conjI; intro allI impI)
  fix r q' w' assume fl: "flush fuel wfuel K timeout tok q w = Some (r, q', w')"
  then have inv: "writer_inv q'" and succ: "r = Inr () \<Longrightarrow> pending q' = []"
    using flush_facts[OF assms(1,2) fl] by (cases "timeout < 0"; auto)+
  then have "r = Inr () \<Longrightarrow> \<not> qw_high_active q'" by (auto simp: writer_inv_def)
  with flush_facts[OF assms(1,2) fl] show "writer_inv q' \<and> sent n (trace w') @ pending q' = sent n (trace w) @ pending q
      \<and> (0 \<le> timeout \<longrightarrow> (r = Inr () \<longleftrightarrow> pending q' = [])) \<and> (timeout < 0 \<longrightarrow> r = errno_error EINVAL)
      \<and> (r = Inr () \<longrightarrow> \<not> qw_high_active q')" unfolding n_def by blast
qed (use flush_ends[OF assms(1) _ _ _ assms(2)] in blast)

definition full_writer :: queued_writer where
  "full_writer = snd (enqueue_owned [4, 5] (snd (enqueue_owned [1, 2, 3] demo_writer)))"

lemma full_writer_inv: "writer_inv full_writer" "pending full_writer = [1, 2, 3, 4, 5]"
proof -
  have inv: "writer_inv demo_writer" unfolding demo_writer_def by (rule construct_writer_inv)
  obtain r q where e: "enqueue_owned [1, 2, 3] demo_writer = (r, q)" by fastforce
  obtain r' q' where e': "enqueue_owned [4, 5] q = (r', q')" by fastforce
  have "full_writer = q'" using e e' by (simp add: full_writer_def)
  with enqueue_owned_facts(1)[OF enqueue_owned_facts(1)[OF inv e] e'] show "writer_inv full_writer" by simp
  show "pending full_writer = [1, 2, 3, 4, 5]" by code_simp
qed

theorem flush_conserves_bytes_witness:
  "(\<exists>q w. flush 9 9 choppy_kernel 50 no_token full_writer init_world = Some (Inr (), q, w)
     \<and> sent 5 (trace w) = [1, 2, 3, 4, 5] \<and> pending q = [])
   \<and> (\<exists>r q w. flush 6 101 stalled_kernel 5000 no_token full_writer init_world = Some (r, q, w)
     \<and> sent 5 (trace w) @ pending q = [1, 2, 3, 4, 5])"
proof -
  have "map_option fst (flush 9 9 choppy_kernel 50 no_token full_writer init_world) = Some (Inr ())" by code_simp
  then obtain q w where run: "flush 9 9 choppy_kernel 50 no_token full_writer init_world = Some (Inr (), q, w)" by auto
  have h: "qw_native_handle full_writer = 5" by code_simp
  note stalled = flush_conserves_bytes[OF stalled_bounded full_writer_inv(1), unfolded h full_writer_inv(2)]
  have "\<exists>r q w. flush 6 101 stalled_kernel 5000 no_token full_writer init_world = Some (r, q, w)"
    using stalled[of 6 101 5000 no_token init_world ns_per_ms] stalled_ticks by simp
  then obtain r' q' w' where "flush 6 101 stalled_kernel 5000 no_token full_writer init_world = Some (r', q', w')" by blast
  with stalled[of 6 101 5000 no_token init_world 1]
    flush_conserves_bytes[OF choppy_bounded(1) full_writer_inv(1), of 9 9 50 no_token init_world 1] run h full_writer_inv(2)
  show ?thesis by (auto simp: init_world_def)
qed



text \<open>
  The timeout of \<^verbatim>\<open>flush\<close> does not bound a stall: each write is given at most a hundred milliseconds and
  its \<^verbatim>\<open>ETIMEDOUT\<close> ends the flush. On a socket that accepts nothing, a flush with five seconds fails
  when the clock shows less than a second and a half.
\<close>

definition coarse_stall :: kernel where
  "coarse_stall tr c = (case c of
       Send n buf \<Rightarrow> ok_answer\<lparr>a_ret := -1, a_errno := EAGAIN\<rparr>
     | Await_ready n rd t \<Rightarrow> ok_answer\<lparr>a_ret := -1, a_num := ETIMEDOUT\<rparr>
     | Clock_now \<Rightarrow> ok_answer\<lparr>a_num := 20 * ns_per_ms * int (length tr)\<rparr>
     | _ \<Rightarrow> ok_answer)"

lemma flush_gives_up_early:
  "map_option (\<lambda>(r, q, w). (r, hd (readings (trace w)) < 1500 * ns_per_ms))
     (flush 99 99 coarse_stall 5000 no_token full_writer init_world) = Some (errno_error ETIMEDOUT, True)"
  by code_simp

end
