(* ===== verification/Resolver.thy ===== *)
theory Resolver
  imports Io_Ops_Time
begin

section \<open>Endpoint text and name resolution\<close>

text \<open>
  \<^verbatim>\<open>runtime/resolver.cpp\<close>: parsing and formatting endpoints, the lookup through \<^verbatim>\<open>getaddrinfo\<close>, the worker
  thread with its queue of jobs, and the coroutine that polls for the worker's answer. The list
  \<^verbatim>\<open>getaddrinfo\<close> returns is an argument of the lookup, as what libc answers: entries of which some may
  be of another family or without address.
\<close>

subsection \<open>Text\<close>

text \<open>\<^verbatim>\<open>std::string_view::rfind\<close> of one character.\<close>

fun rfind :: "char \<Rightarrow> string \<Rightarrow> nat option" where
  "rfind c [] = None"
| "rfind c (x # xs) = (case rfind c xs of
     Some i \<Rightarrow> Some (Suc i) | None \<Rightarrow> if x = c then Some 0 else None)"

text \<open>The loop over the port's characters, in 32-bit arithmetic.\<close>

fun parse_port :: "32 word \<Rightarrow> string \<Rightarrow> 32 word option" where
  "parse_port p [] = Some p"
| "parse_port p (ch # cs) =
     (if of_char ch < (48::nat) \<or> (57::nat) < of_char ch then None
      else let p1 = p * 10 + of_nat (of_char ch - 48)
           in if 65535 < p1 then None else parse_port p1 cs)"

definition parse_ipv4_endpoint :: "inet \<Rightarrow> string \<Rightarrow> endpoint result" where
  "parse_ipv4_endpoint I v =
     (case rfind CHR '':'' v of
        None \<Rightarrow> errno_error EINVAL
      | Some i \<Rightarrow>
          if i = 0 \<or> length v \<le> i + 1 then errno_error EINVAL
          else
            let h = take i v; port_text = drop (i + 1) v
            in case parse_port 0 port_text of
                 None \<Rightarrow> errno_error EINVAL
               | Some p \<Rightarrow>
                   if inet_pton I (c_str h) = None then errno_error EINVAL
                   else Inr \<lparr>host = h, port = ucast p\<rparr>)"

definition format_endpoint :: "endpoint \<Rightarrow> string" where
  "format_endpoint ep = host ep @ '':'' @ to_string (unat (port ep))"

subsection \<open>Lookup\<close>

record addr_info =
  ai_family :: int
  ai_addr :: "sockaddr_in option"

abbreviation (input) EAI_AGAIN :: int where "EAI_AGAIN \<equiv> -3"
abbreviation (input) EAI_NONAME :: int where "EAI_NONAME \<equiv> -2"
abbreviation (input) EAI_MEMORY :: int where "EAI_MEMORY \<equiv> -10"

definition map_resolve_status :: "int \<Rightarrow> int" where
  "map_resolve_status s =
     (if s = EAI_AGAIN then EAGAIN else if s = EAI_NONAME then ENOENT else if s = EAI_MEMORY then ENOMEM
      else EHOSTUNREACH)"

text \<open>The loop over the returned list: entries that are not IPv4 or have no text are skipped.\<close>

fun collect_endpoints :: "inet \<Rightarrow> addr_info list \<Rightarrow> endpoint list" where
  "collect_endpoints I [] = []"
| "collect_endpoints I (x # xs) =
     (if ai_family x \<noteq> AF_INET then collect_endpoints I xs
      else case ai_addr x of
             None \<Rightarrow> collect_endpoints I xs
           | Some a \<Rightarrow>
               (case inet_ntop I (sin_addr a) of
                  Inl e \<Rightarrow> collect_endpoints I xs
                | Inr s \<Rightarrow> \<lparr>host = c_str s, port = ntohs (sin_port a)\<rparr> # collect_endpoints I xs))"

type_synonym lookup = "string \<Rightarrow> string \<Rightarrow> int \<times> addr_info list"

definition resolve_ipv4_tcp_endpoints :: "inet \<Rightarrow> lookup \<Rightarrow> string \<Rightarrow> string \<Rightarrow> endpoint list result" where
  "resolve_ipv4_tcp_endpoints I G h service =
     (case G (c_str h) (c_str service) of (status, xs) \<Rightarrow>
        if status \<noteq> 0 then errno_error (map_resolve_status status)
        else let eps = collect_endpoints I xs
             in if eps = [] then errno_error ENOENT else Inr eps)"

subsection \<open>The worker\<close>

text \<open>
  The shared states of the requests live in a store indexed by address; a job names its state.
\<close>

record resolve_state =
  rs_ready :: bool
  rs_canceled :: bool
  rs_result :: "endpoint list result option"

definition new_resolve_state :: resolve_state where
  "new_resolve_state = \<lparr>rs_ready = False, rs_canceled = False, rs_result = None\<rparr>"

record job =
  job_host :: string
  job_service :: string
  job_state :: nat

record resolver_worker =
  jobs :: "job list"
  worker_stop :: bool
  states :: "nat \<rightharpoonup> resolve_state"

definition worker_enqueue :: "string \<Rightarrow> string \<Rightarrow> nat \<Rightarrow> resolver_worker \<Rightarrow> resolver_worker" where
  "worker_enqueue h service st rw =
     rw\<lparr>jobs := jobs rw @ [\<lparr>job_host = h, job_service = service, job_state = st\<rparr>]\<rparr>"

text \<open>The destructor's request to end, before it joins the thread.\<close>

definition worker_shutdown :: "resolver_worker \<Rightarrow> resolver_worker" where
  "worker_shutdown rw = rw\<lparr>worker_stop := True\<rparr>"

text \<open>The worker posts a result under the state's mutex.\<close>

definition post_result :: "nat \<Rightarrow> endpoint list result \<Rightarrow> resolver_worker \<Rightarrow> resolver_worker" where
  "post_result st r rw =
     (case states rw st of
        None \<Rightarrow> rw
      | Some s \<Rightarrow> rw\<lparr>states := (states rw)(st \<mapsto> s\<lparr>rs_result := Some r, rs_ready := True\<rparr>)\<rparr>)"

text \<open>
  One turn of \<^verbatim>\<open>run\<close>: it blocks (\<open>Wait_job\<close>) while there is nothing to do, ends when asked to and the
  queue is empty, and otherwise handles the oldest job.
\<close>

datatype worker_turn = Wait_job | Worker_exit | Handled resolver_worker

definition worker_turn :: "inet \<Rightarrow> lookup \<Rightarrow> resolver_worker \<Rightarrow> worker_turn" where
  "worker_turn I G rw =
     (if \<not> (worker_stop rw \<or> jobs rw \<noteq> []) then Wait_job
      else if worker_stop rw \<and> jobs rw = [] then Worker_exit
      else
        let next = hd (jobs rw); rw1 = rw\<lparr>jobs := tl (jobs rw)\<rparr>;
            canceled = (case states rw1 (job_state next) of None \<Rightarrow> False | Some s \<Rightarrow> rs_canceled s)
        in if canceled then Handled (post_result (job_state next) (errno_error ECANCELED) rw1)
           else Handled (post_result (job_state next)
                  (resolve_ipv4_tcp_endpoints I G (job_host next) (job_service next)) rw1))"

text \<open>The loop of \<^verbatim>\<open>run\<close> until it exits; while it waits for a job it does not return.\<close>

fun worker_run :: "nat \<Rightarrow> inet \<Rightarrow> lookup \<Rightarrow> resolver_worker \<Rightarrow> resolver_worker option" where
  "worker_run 0 I G rw = None"
| "worker_run (Suc fuel) I G rw =
     (case worker_turn I G rw of
        Wait_job \<Rightarrow> None
      | Worker_exit \<Rightarrow> Some rw
      | Handled rw1 \<Rightarrow> worker_run fuel I G rw1)"

subsection \<open>The coroutine\<close>

text \<open>
  \<^verbatim>\<open>async_resolve\<close> polls its state every ten milliseconds. Between its turns the worker and other
  coroutines run: \<open>env i\<close> is what they do to the worker while the coroutine sleeps. \<open>st\<close> is the
  address \<^verbatim>\<open>make_shared\<close> returns; a state that is ready has a result, so \<^verbatim>\<open>result.value()\<close> does not throw.
\<close>

definition cancel_state :: "nat \<Rightarrow> resolver_worker \<Rightarrow> resolver_worker" where
  "cancel_state st rw =
     (case states rw st of
        None \<Rightarrow> rw
      | Some s \<Rightarrow> rw\<lparr>states := (states rw)(st \<mapsto> s\<lparr>rs_canceled := True\<rparr>)\<rparr>)"

fun resolve_poll ::
    "nat \<Rightarrow> nat \<Rightarrow> kernel \<Rightarrow> (nat \<Rightarrow> resolver_worker \<Rightarrow> resolver_worker) \<Rightarrow> nat \<Rightarrow> cancel_token
       \<Rightarrow> resolver_worker \<Rightarrow> world \<Rightarrow> (endpoint list result \<times> resolver_worker \<times> world) option" where
  "resolve_poll 0 sfuel K env st tok rw w = None"
| "resolve_poll (Suc i) sfuel K env st tok rw w =
     (case token_stop_requested K tok w of
        (True, w1) \<Rightarrow> Some (errno_error ECANCELED, cancel_state st rw, w1)
      | (False, w1) \<Rightarrow>
          (case states rw st of
             None \<Rightarrow> None
           | Some s \<Rightarrow>
               if rs_ready s then map_option (\<lambda>r. (r, rw, w1)) (rs_result s)
               else (case async_sleep sfuel K 10 tok w1 of
                       None \<Rightarrow> None
                     | Some (Inl e, w2) \<Rightarrow> Some (Inl e, rw, w2)
                     | Some (Inr _, w2) \<Rightarrow> resolve_poll i sfuel K env st tok (env i rw) w2)))"

definition async_resolve ::
    "nat \<Rightarrow> nat \<Rightarrow> kernel \<Rightarrow> (nat \<Rightarrow> resolver_worker \<Rightarrow> resolver_worker) \<Rightarrow> nat \<Rightarrow> string \<Rightarrow> string
       \<Rightarrow> cancel_token \<Rightarrow> resolver_worker \<Rightarrow> world \<Rightarrow> (endpoint list result \<times> resolver_worker \<times> world) option" where
  "async_resolve fuel sfuel K env st h service tok rw w =
     (case token_stop_requested K tok w of
        (True, w1) \<Rightarrow> Some (errno_error ECANCELED, rw, w1)
      | (False, w1) \<Rightarrow>
          resolve_poll fuel sfuel K env st tok
            (worker_enqueue h service st (rw\<lparr>states := (states rw)(st \<mapsto> new_resolve_state)\<rparr>)) w1)"

end
