(* ===== verification/Resolver_Claims.thy ===== *)
theory Resolver_Claims
  imports Resolver
begin

section \<open>Endpoint text and name resolution: what is claimed\<close>

subsection \<open>Text\<close>

lemma rfind_None: "rfind c v = None \<longleftrightarrow> c \<notin> set v"
  by (induction v) (auto split: option.splits)

lemma rfind_Some:
  "rfind c v = Some i \<Longrightarrow> i < length v \<and> v ! i = c \<and> c \<notin> set (drop (Suc i) v)"
proof (induction v arbitrary: i)
  case (Cons x xs)
  show ?case
  proof (cases "rfind c xs")
    case None
    with Cons.prems have "x = c" "i = 0" by (auto split: if_splits)
    with None show ?thesis by (simp add: rfind_None)
  next
    case (Some j)
    with Cons show ?thesis by auto
  qed
qed simp

lemma rfind_append: "c \<notin> set ys \<Longrightarrow> rfind c (xs @ c # ys) = Some (length xs)"
proof (induction xs)
  case Nil
  then have "rfind c ys = None" by (simp add: rfind_None)
  then show ?case by simp
qed simp

text \<open>The value of a digit string that continues one of value \<open>a\<close>.\<close>

abbreviation dec_from :: "nat \<Rightarrow> string \<Rightarrow> nat" where
  "dec_from a ds \<equiv> foldl (\<lambda>a c. 10 * a + digit_val c) a ds"

lemma dec_from_ge: "a \<le> dec_from a ds"
proof (induction ds arbitrary: a)
  case (Cons c ds)
  have "a \<le> 10 * a + digit_val c" by simp
  also have "\<dots> \<le> dec_from (10 * a + digit_val c) ds" by (rule Cons.IH)
  finally show ?case by simp
qed simp

text \<open>
  The port loop computes the unbounded value: it stops as soon as the value exceeds the range, so
  32 bits suffice, and what exceeds the range once cannot come back into it.
\<close>

lemma parse_port_eq:
  assumes "unat p \<le> 65535"
  shows "parse_port p ds = (if list_all is_digit ds \<and> dec_from (unat p) ds \<le> 65535
    then Some (of_nat (dec_from (unat p) ds)) else None)"
  using assms
proof (induction ds arbitrary: p)
  case (Cons c ds)
  show ?case
  proof (cases "is_digit c")
    case False
    then show ?thesis by (auto simp: is_digit_def)
  next
    case True
    let ?v = "10 * unat p + digit_val c" and ?p = "p * 10 + of_nat (of_char c - 48) :: 32 word"
    have d: "digit_val c \<le> 9" using True by (auto simp: is_digit_def digit_val_def)
    have "?v < 2 ^ 32" using Cons.prems d by simp
    then have v: "unat ?p = ?v"
      using d by (simp add: unat_word_ariths unat_of_nat digit_val_def mod_less mult.commute)
    have range: "65535 < ?p \<longleftrightarrow> 65535 < ?v" using v by (simp add: word_less_nat_alt)
    show ?thesis
    proof (cases "65535 < ?v")
      case True
      with dec_from_ge[of ?v ds] range \<open>is_digit c\<close> show ?thesis by (simp add: is_digit_def)
    next
      case False
      with Cons.IH[of ?p] v range \<open>is_digit c\<close> show ?thesis by (simp add: is_digit_def)
    qed
  qed
qed simp

lemma parse_endpoint_at:
  assumes "rfind CHR '':'' v = Some i"
  shows "parse_ipv4_endpoint I v = (let h = take i v; ds = drop (Suc i) v
    in if h \<noteq> [] \<and> ds \<noteq> [] \<and> list_all is_digit ds \<and> dec_value ds \<le> 65535 \<and> inet_pton I (c_str h) \<noteq> None
       then Inr \<lparr>host = h, port = of_nat (dec_value ds)\<rparr> else errno_error EINVAL)"
proof -
  have i: "i < length v" using rfind_Some[OF assms] by blast
  then have e: "take i v = [] \<longleftrightarrow> i = 0" "drop (Suc i) v = [] \<longleftrightarrow> length v \<le> i + 1" by auto
  have cast: "ucast (of_nat n :: 32 word) = (of_nat n :: 16 word)" if "n \<le> 65535" for n
    using that by (simp add: unsigned_of_nat take_bit_nat_eq_self)
  show ?thesis
    using assms parse_port_eq[of 0 "drop (Suc i) v"] cast
    by (auto simp: parse_ipv4_endpoint_def Let_def e dec_value_def)
qed

text \<open>
  C28. Parsing accepts exactly the grammar \<open>host ':' digits\<close>: the text is the host, the last colon and
  a non-empty digit string, whose value, computed without bound, is at most 65535 and is the port,
  and the host is an address \<^verbatim>\<open>inet_pton\<close> accepts. Everything else is refused with \<^verbatim>\<open>EINVAL\<close>, also
  numbers that overflow 32 bits.
\<close>

theorem parse_matches_grammar:
  "parse_ipv4_endpoint I v =
     (if \<exists>h ds. v = h @ '':'' @ ds \<and> h \<noteq> [] \<and> ds \<noteq> [] \<and> list_all is_digit ds \<and> dec_value ds \<le> 65535
          \<and> inet_pton I (c_str h) \<noteq> None
      then let ds = rev (takeWhile (\<lambda>c. c \<noteq> CHR '':'') (rev v))
           in Inr \<lparr>host = take (length v - length ds - 1) v, port = of_nat (dec_value ds)\<rparr>
      else errno_error EINVAL)"
proof (cases "rfind CHR '':'' v")
  case None
  then have "CHR '':'' \<notin> set v" by (simp add: rfind_None)
  then have "\<nexists>h ds. v = h @ '':'' @ ds" by auto
  with None show ?thesis by (auto simp: parse_ipv4_endpoint_def)
next
  case (Some i)
  define h ds where "h = take i v" and "ds = drop (Suc i) v"
  have i: "i < length v" "v ! i = CHR '':''" "CHR '':'' \<notin> set ds" using rfind_Some[OF Some] by (simp_all add: ds_def)
  have v: "v = h @ '':'' @ ds" using i id_take_nth_drop[of i v] by (simp add: h_def ds_def)
  have uniq: "h' = h \<and> ds' = ds" if "v = h' @ '':'' @ ds'" "list_all is_digit ds'" for h' ds'
  proof -
    have "CHR '':'' \<notin> set ds'" using that(2) is_digit_not(1) by (auto simp: list_all_iff)
    from rfind_append[OF this, of h'] that(1) Some have "i = length h'" by simp
    then show ?thesis using that(1) by (simp add: h_def ds_def)
  qed
  have tw: "takeWhile (\<lambda>c. c \<noteq> CHR '':'') (rev v) = rev ds"
  proof -
    have "takeWhile (\<lambda>c. c \<noteq> CHR '':'') (rev ds @ CHR '':'' # rev h) = rev ds @ takeWhile (\<lambda>c. c \<noteq> CHR '':'') (CHR '':'' # rev h)"
      using i(3) by (intro takeWhile_append2) auto
    then show ?thesis unfolding v by simp
  qed
  have len: "length v - length ds - 1 = i" "take i v = h" using i(1) by (simp_all add: ds_def h_def)
  have ex: "(\<exists>h ds. v = h @ '':'' @ ds \<and> h \<noteq> [] \<and> ds \<noteq> [] \<and> list_all is_digit ds \<and> dec_value ds \<le> 65535
      \<and> inet_pton I (c_str h) \<noteq> None) \<longleftrightarrow>
    h \<noteq> [] \<and> ds \<noteq> [] \<and> list_all is_digit ds \<and> dec_value ds \<le> 65535 \<and> inet_pton I (c_str h) \<noteq> None"
    using uniq v by blast
  show ?thesis
    unfolding ex tw rev_rev_ident Let_def len parse_endpoint_at[OF Some] h_def[symmetric] ds_def[symmetric] by simp
qed

text \<open>
  C29. Formatting and parsing are inverse: every endpoint whose host is an address, with any port,
  is recovered from its text.
\<close>

theorem format_parse_roundtrip:
  assumes "host ep \<noteq> []" "inet_pton I (c_str (host ep)) \<noteq> None"
  shows "parse_ipv4_endpoint I (format_endpoint ep) = Inr ep"
proof -
  let ?ds = "to_string (unat (port ep))"
  have "CHR '':'' \<notin> set ?ds" using to_string_facts(2) is_digit_not(1) by (auto simp: list_all_iff)
  then have "rfind CHR '':'' (host ep @ CHR '':'' # ?ds) = Some (length (host ep))" by (rule rfind_append)
  then have at: "rfind CHR '':'' (format_endpoint ep) = Some (length (host ep))" by (simp add: format_endpoint_def)
  have "unat (port ep) \<le> 65535" using unsigned_less[of "port ep", where 'a = nat] by simp
  then show ?thesis
    using assms to_string_facts unfolding parse_endpoint_at[OF at]
    by (simp add: format_endpoint_def Let_def)
qed

theorem format_parse_roundtrip_witness:
  "parse_ipv4_endpoint quad_inet ''127.0.0.1:80'' = Inr (loopback 80)"
proof -
  have "inet_pton quad_inet (c_str (host (loopback 80))) \<noteq> None" by code_simp
  moreover have "format_endpoint (loopback 80) = ''127.0.0.1:80''" by code_simp
  ultimately show ?thesis using format_parse_roundtrip[of "loopback 80" quad_inet] by (simp add: loopback_def)
qed

subsection \<open>Lookup\<close>

lemma collect_endpoints_sound:
  assumes "inet_ok I" "ep \<in> set (collect_endpoints I xs)"
  shows "\<exists>x \<in> set xs. \<exists>a. ai_addr x = Some a \<and> ai_family x = AF_INET
    \<and> to_sockaddr I ep = Inr \<lparr>sin_family = AF_INET, sin_port = sin_port a, sin_addr = sin_addr a\<rparr>"
  using assms(2)
proof (induction xs)
  case (Cons x xs)
  show ?case
  proof (cases "ep \<in> set (collect_endpoints I xs)")
    case True
    with Cons.IH show ?thesis by auto
  next
    case False
    with Cons.prems obtain a s where "ai_family x = AF_INET" "ai_addr x = Some a" "inet_ntop I (sin_addr a) = Inr s"
      "ep = \<lparr>host = c_str s, port = ntohs (sin_port a)\<rparr>" by (auto split: if_splits option.splits sum.splits)
    moreover from this obtain "inet_pton I s = Some (sin_addr a)" "c_str s = s"
      using inet_okE[OF assms(1), of "sin_addr a"] by (metis sum.inject(2))
    ultimately show ?thesis by (auto simp: to_sockaddr_def byte_swap_involution)
  qed
qed simp

text \<open>
  What a lookup returns can be connected to: a successful lookup returns at least one endpoint,
  and each of them converts back to the socket address of an IPv4 entry of \<^verbatim>\<open>getaddrinfo\<close>'s answer; a
  failure is one of the four error numbers of the mapping.
\<close>

theorem resolved_endpoints_usable:
  assumes "inet_ok I"
  shows "case resolve_ipv4_tcp_endpoints I G h service of
      Inl e \<Rightarrow> error_value e \<in> {EAGAIN, ENOENT, ENOMEM, EHOSTUNREACH}
    | Inr eps \<Rightarrow> eps \<noteq> [] \<and> (\<forall>ep \<in> set eps. \<exists>x \<in> set (snd (G (c_str h) (c_str service))). \<exists>a.
        ai_addr x = Some a \<and> ai_family x = AF_INET \<and>
        to_sockaddr I ep = Inr \<lparr>sin_family = AF_INET, sin_port = sin_port a, sin_addr = sin_addr a\<rparr>)"
  using collect_endpoints_sound[OF assms]
  by (auto simp: resolve_ipv4_tcp_endpoints_def map_resolve_status_def Let_def split: prod.splits sum.splits if_splits)

definition demo_lookup :: lookup where
  "demo_lookup h service = (0, [\<lparr>ai_family = 10, ai_addr = None\<rparr>,
     \<lparr>ai_family = AF_INET, ai_addr = Some \<lparr>sin_family = AF_INET, sin_port = 0x5000, sin_addr = 0x0100007F\<rparr>\<rparr>])"

theorem resolved_endpoints_usable_witness:
  "resolve_ipv4_tcp_endpoints quad_inet demo_lookup ''localhost'' ''80'' = Inr [loopback 80]
     \<and> (\<exists>a. to_sockaddr quad_inet (loopback 80) = Inr a)"
proof -
  have r: "resolve_ipv4_tcp_endpoints quad_inet demo_lookup ''localhost'' ''80'' = Inr [loopback 80]" by code_simp
  with resolved_endpoints_usable[OF quad_inet_ok, of demo_lookup "''localhost''" "''80''"] show ?thesis by auto
qed

subsection \<open>The worker\<close>

lemma post_result_frame [simp]:
  "jobs (post_result st r rw) = jobs rw" "worker_stop (post_result st r rw) = worker_stop rw"
  by (simp_all add: post_result_def split: option.splits)

lemma post_result_states:
  "states (post_result st r rw) x =
     (if x = st then map_option (\<lambda>s. s\<lparr>rs_result := Some r, rs_ready := True\<rparr>) (states rw st) else states rw x)"
  by (simp add: post_result_def split: option.splits)

text \<open>What the worker answers for a job, given whether its request was cancelled.\<close>

definition answer_for :: "inet \<Rightarrow> lookup \<Rightarrow> job \<Rightarrow> bool \<Rightarrow> endpoint list result" where
  "answer_for I G j canceled =
     (if canceled then errno_error ECANCELED else resolve_ipv4_tcp_endpoints I G (job_host j) (job_service j))"

lemma worker_turn_job:
  assumes "jobs rw = j # js" "states rw (job_state j) = Some s"
  shows "worker_turn I G rw = Handled (post_result (job_state j) (answer_for I G j (rs_canceled s)) (rw\<lparr>jobs := js\<rparr>))"
  using assms by (simp add: worker_turn_def answer_for_def Let_def)

lemma worker_run_drains:
  assumes "worker_stop rw" "distinct (map job_state (jobs rw))" "\<forall>j \<in> set (jobs rw). states rw (job_state j) \<noteq> None"
    and "length (jobs rw) < fuel"
  shows "\<exists>rw'. worker_run fuel I G rw = Some rw' \<and> jobs rw' = []
    \<and> (\<forall>j \<in> set (jobs rw). \<exists>s s'. states rw (job_state j) = Some s \<and> states rw' (job_state j) = Some s'
         \<and> rs_ready s' \<and> rs_result s' = Some (answer_for I G j (rs_canceled s)))
    \<and> (\<forall>x. x \<notin> job_state ` set (jobs rw) \<longrightarrow> states rw' x = states rw x)"
  using assms
proof (induction fuel arbitrary: rw)
  case (Suc fuel)
  show ?case
  proof (cases "jobs rw")
    case Nil
    with Suc.prems(1) show ?thesis by (simp add: worker_turn_def)
  next
    case (Cons j js)
    then obtain s where s: "states rw (job_state j) = Some s" using Suc.prems(3) by auto
    define rw1 where "rw1 = post_result (job_state j) (answer_for I G j (rs_canceled s)) (rw\<lparr>jobs := js\<rparr>)"
    have st1: "states rw1 x = (if x = job_state j
        then Some (s\<lparr>rs_result := Some (answer_for I G j (rs_canceled s)), rs_ready := True\<rparr>) else states rw x)" for x
      using s by (simp add: rw1_def post_result_states)
    have js: "jobs rw1 = js" "worker_stop rw1" using Suc.prems(1) by (simp_all add: rw1_def)
    have other: "job_state j \<notin> job_state ` set js" using Suc.prems(2) Cons by simp
    have pres: "\<forall>k \<in> set js. states rw1 (job_state k) \<noteq> None" using Suc.prems(3) Cons st1 by simp
    from Suc.IH[of rw1] js pres Suc.prems(2,4) Cons obtain rw' where run: "worker_run fuel I G rw1 = Some rw'" "jobs rw' = []"
      and done_js: "\<forall>k \<in> set js. \<exists>u u'. states rw1 (job_state k) = Some u \<and> states rw' (job_state k) = Some u'
         \<and> rs_ready u' \<and> rs_result u' = Some (answer_for I G k (rs_canceled u))"
      and rest: "\<forall>x. x \<notin> job_state ` set js \<longrightarrow> states rw' x = states rw1 x" by auto
    have eq: "worker_run (Suc fuel) I G rw = Some rw'"
      using worker_turn_job[OF Cons s, of I G] run by (simp add: rw1_def)
    have "\<exists>u u'. states rw (job_state k) = Some u \<and> states rw' (job_state k) = Some u'
         \<and> rs_ready u' \<and> rs_result u' = Some (answer_for I G k (rs_canceled u))" if "k \<in> set (j # js)" for k
    proof (cases "k = j")
      case True
      with rest other st1[of "job_state j"] s show ?thesis by simp
    next
      case False
      with that have k: "k \<in> set js" by simp
      with other have "job_state k \<noteq> job_state j" by (metis imageI)
      then have "states rw1 (job_state k) = states rw (job_state k)" by (simp add: st1)
      with done_js k show ?thesis by metis
    qed
    with eq run(2) rest st1 Cons show ?thesis by auto
  qed
qed simp

text \<open>
  C30. The worker loses no request: when it is told to stop it first answers every job in its queue
  and then exits, after one turn per job and one more. Each job's state is ready, with what the
  lookup of its host and service gave, or \<^verbatim>\<open>ECANCELED\<close> if its request was cancelled; no other state is
  touched.
\<close>

theorem worker_answers_all_jobs:
  assumes "worker_stop rw" "distinct (map job_state (jobs rw))" "\<forall>j \<in> set (jobs rw). states rw (job_state j) \<noteq> None"
  shows "\<exists>rw'. worker_run (length (jobs rw) + 1) I G rw = Some rw' \<and> jobs rw' = []
    \<and> (\<forall>j \<in> set (jobs rw). \<exists>s s'. states rw (job_state j) = Some s \<and> states rw' (job_state j) = Some s'
         \<and> rs_ready s' \<and> rs_result s' = Some (answer_for I G j (rs_canceled s)))
    \<and> (\<forall>x. x \<notin> job_state ` set (jobs rw) \<longrightarrow> states rw' x = states rw x)"
  by (rule worker_run_drains[OF assms]) simp

definition demo_worker :: resolver_worker where
  "demo_worker = worker_shutdown (worker_enqueue ''b'' ''2'' 8 (worker_enqueue ''a'' ''1'' 7
     \<lparr>jobs = [], worker_stop = False, states = [7 \<mapsto> new_resolve_state, 8 \<mapsto> new_resolve_state\<lparr>rs_canceled := True\<rparr>]\<rparr>))"

theorem worker_answers_all_jobs_witness:
  "\<exists>rw s. worker_run 3 quad_inet demo_lookup demo_worker = Some rw \<and> states rw 8 = Some s
     \<and> rs_result s = Some (errno_error ECANCELED)"
proof -
  have d: "jobs demo_worker = [\<lparr>job_host = ''a'', job_service = ''1'', job_state = 7\<rparr>,
      \<lparr>job_host = ''b'', job_service = ''2'', job_state = 8\<rparr>]" "worker_stop demo_worker"
    "states demo_worker 7 = Some new_resolve_state" "states demo_worker 8 = Some (new_resolve_state\<lparr>rs_canceled := True\<rparr>)"
    by (simp_all add: demo_worker_def worker_shutdown_def worker_enqueue_def)
  with worker_answers_all_jobs[of demo_worker quad_inet demo_lookup] show ?thesis
    by (auto simp: answer_for_def numeral_3_eq_3)
qed

subsection \<open>The coroutine\<close>

text \<open>
  What the rest of the program may do to the worker while a request sleeps: the worker takes turns,
  and other requests are made, cancelled and forgotten.
\<close>

inductive worker_step :: "inet \<Rightarrow> lookup \<Rightarrow> nat \<Rightarrow> resolver_worker \<Rightarrow> resolver_worker \<Rightarrow> bool" for I G st where
  wk_turn: "worker_turn I G rw = Handled rw' \<Longrightarrow> worker_step I G st rw rw'"
| wk_request: "x \<noteq> st \<Longrightarrow> worker_step I G st rw (worker_enqueue h service x (rw\<lparr>states := (states rw)(x \<mapsto> new_resolve_state)\<rparr>))"
| wk_cancel: "x \<noteq> st \<Longrightarrow> worker_step I G st rw (cancel_state x rw)"
| wk_stop: "worker_step I G st rw (worker_shutdown rw)"

text \<open>A request that is in the queue or answered with what its lookup gives.\<close>

definition requested :: "inet \<Rightarrow> lookup \<Rightarrow> string \<Rightarrow> string \<Rightarrow> nat \<Rightarrow> resolver_worker \<Rightarrow> bool" where
  "requested I G h service st rw = (
     (\<forall>j \<in> set (jobs rw). job_state j = st \<longrightarrow> job_host j = h \<and> job_service j = service)
     \<and> (\<exists>s. states rw st = Some s \<and> \<not> rs_canceled s \<and>
          (if rs_ready s then rs_result s = Some (resolve_ipv4_tcp_endpoints I G h service)
           else \<exists>j \<in> set (jobs rw). job_state j = st)))"

lemma worker_step_requested:
  assumes "worker_step I G st rw rw'" "requested I G h service st rw"
  shows "requested I G h service st rw'"
  using assms
proof cases
  case wk_turn
  obtain j js where q: "jobs rw = j # js"
    using wk_turn by (cases "jobs rw") (auto simp: worker_turn_def split: if_splits)
  show ?thesis
  proof (cases "job_state j = st")
    case True
    with assms(2) q obtain s where s: "states rw (job_state j) = Some s" "\<not> rs_canceled s" "job_host j = h" "job_service j = service"
      by (auto simp: requested_def)
    have "rw' = post_result st (resolve_ipv4_tcp_endpoints I G h service) (rw\<lparr>jobs := js\<rparr>)"
      using worker_turn_job[OF q s(1), of I G] wk_turn True s by (simp add: answer_for_def)
    with assms(2) q s True show ?thesis by (auto simp: requested_def post_result_states)
  next
    case False
    have "\<exists>r. rw' = post_result (job_state j) r (rw\<lparr>jobs := js\<rparr>)"
      using wk_turn q by (auto simp: worker_turn_def Let_def split: if_splits)
    with assms(2) q False show ?thesis by (auto simp: requested_def post_result_states split: if_splits)
  qed
next
  case (wk_cancel x)
  with assms(2) show ?thesis by (auto simp: requested_def cancel_state_def split: option.splits)
qed (use assms(2) in \<open>auto simp: requested_def worker_enqueue_def worker_shutdown_def\<close>)

lemma worker_steps_requested:
  "(worker_step I G st)\<^sup>*\<^sup>* rw rw' \<Longrightarrow> requested I G h service st rw \<Longrightarrow> requested I G h service st rw'"
  by (induction rule: rtranclp_induct) (auto intro: worker_step_requested)

lemma resolve_poll_answer:
  assumes "resolve_poll fuel sfuel K env st tok rw w = Some (r, rw', w')"
    and "\<And>i v. (worker_step I G st)\<^sup>*\<^sup>* v (env i v)" "requested I G h service st rw"
  shows "r = resolve_ipv4_tcp_endpoints I G h service \<or> r = errno_error ECANCELED
    \<or> (\<exists>e v. r = Inl e \<and> async_sleep sfuel K 10 tok v = Some (Inl e, w'))"
  using assms(1,3)
proof (induction fuel arbitrary: rw w)
  case (Suc i)
  obtain b w1 where tk: "token_stop_requested K tok w = (b, w1)" by fastforce
  obtain s where s: "states rw st = Some s"
    "rs_ready s \<Longrightarrow> rs_result s = Some (resolve_ipv4_tcp_endpoints I G h service)"
    using Suc.prems(2) by (auto simp: requested_def split: if_splits)
  have next_ok: "requested I G h service st (env i rw)" using worker_steps_requested[OF assms(2) Suc.prems(2)] .
  show ?case
  proof (cases "b \<or> rs_ready s")
    case True
    with Suc.prems(1) tk s show ?thesis by (cases b) auto
  next
    case False
    with Suc.prems(1) tk s(1) obtain x w2 where sl: "async_sleep sfuel K 10 tok w1 = Some (x, w2)"
      by (cases "async_sleep sfuel K 10 tok w1") auto
    show ?thesis
    proof (cases x)
      case (Inl e)
      with Suc.prems(1) tk s(1) False sl have "r = Inl e" "w' = w2" by simp_all
      with sl Inl show ?thesis by blast
    next
      case (Inr u)
      with Suc.prems(1) tk s(1) False sl have "resolve_poll i sfuel K env st tok (env i rw) w2 = Some (r, rw', w')" by simp
      from Suc.IH[OF this next_ok] show ?thesis .
    qed
  qed
qed simp


definition one_turn :: "nat \<Rightarrow> resolver_worker \<Rightarrow> resolver_worker" where
  "one_turn i rw = (case worker_turn quad_inet demo_lookup rw of Handled rw' \<Rightarrow> rw' | _ \<Rightarrow> rw)"


end
