(* ===== verification/Task_Runtime.thy ===== *)
theory Task_Runtime
  imports Scheduler
begin

section \<open>Tasks\<close>

text \<open>
  \<^verbatim>\<open>runtime/task.hpp\<close> below the scheduler interface: promises, the final awaiter, the owning class
  \<^verbatim>\<open>task<T>\<close> and its awaiter. A coroutine frame is an entry of a store, at the address its handle
  names; what is modelled of a frame is its promise and whether it is suspended at its final point.
  Destroying a frame removes it and logs the handle. A \<^verbatim>\<open>scheduler*\<close> is a number, 0 for null, and
  \<open>V\<close> gives the virtual table at an address. \<^verbatim>\<open>handle.resume()\<close> is the parameter \<open>resume\<close>: the
  coroutine's own code, run up to its next suspension.

  The specialisation \<^verbatim>\<open>task<void>\<close> repeats the class and is modelled in \<open>Task_Void\<close>.
\<close>

datatype task_exn = Logic_error string | Thrown nat

record 'v promise =
  pr_scheduler :: nat
  pr_continuation :: co_handle
  pr_tracked :: bool
  pr_value :: "'v option"
  pr_exception :: "task_exn option"
  pr_done :: bool

definition new_promise :: "'v promise" where
  "new_promise = \<lparr>pr_scheduler = 0, pr_continuation = null_handle, pr_tracked = False, pr_value = None,
     pr_exception = None, pr_done = False\<rparr>"

definition set_scheduler :: "nat \<Rightarrow> bool \<Rightarrow> 'v promise \<Rightarrow> 'v promise" where
  "set_scheduler v tracked p = p\<lparr>pr_scheduler := v, pr_tracked := tracked\<rparr>"

definition set_continuation :: "co_handle \<Rightarrow> 'v promise \<Rightarrow> 'v promise" where
  "set_continuation h p = p\<lparr>pr_continuation := h\<rparr>"

definition return_value :: "'v \<Rightarrow> 'v promise \<Rightarrow> 'v promise" where
  "return_value v p = p\<lparr>pr_value := Some v\<rparr>"

definition unhandled_exception :: "task_exn \<Rightarrow> 'v promise \<Rightarrow> 'v promise" where
  "unhandled_exception e p = p\<lparr>pr_exception := Some e\<rparr>"

definition consume_result :: "'v promise \<Rightarrow> task_exn + 'v" where
  "consume_result p =
     (case pr_exception p of
        Some e \<Rightarrow> Inl e
      | None \<Rightarrow> (case pr_value p of
                   None \<Rightarrow> Inl (Logic_error ''task result is not available'')
                 | Some v \<Rightarrow> Inr v))"

subsection \<open>Frames and owners\<close>

record 'v coros =
  frames :: "co_handle \<rightharpoonup> 'v promise"
  destroyed :: "co_handle list"

definition destroy_frame :: "co_handle \<Rightarrow> 'v coros \<Rightarrow> 'v coros" where
  "destroy_frame h c = c\<lparr>frames := (frames c)(h := None), destroyed := h # destroyed c\<rparr>"

definition frame_done :: "co_handle \<Rightarrow> 'v coros \<Rightarrow> bool" where
  "frame_done h c = (case frames c h of None \<Rightarrow> False | Some p \<Rightarrow> pr_done p)"

record task =
  task_handle :: co_handle

record awaiter =
  aw_handle :: co_handle

text \<open>
  Calling a coroutine function: the frame at a fresh address, suspended at its initial point, and
  the task that owns it.
\<close>

definition get_return_object :: "co_handle \<Rightarrow> 'v coros \<Rightarrow> task \<times> 'v coros" where
  "get_return_object h c = (\<lparr>task_handle = h\<rparr>, c\<lparr>frames := (frames c)(h \<mapsto> new_promise)\<rparr>)"

definition task_empty :: task where
  "task_empty = \<lparr>task_handle = null_handle\<rparr>"

definition task_valid :: "task \<Rightarrow> bool" where
  "task_valid t = (task_handle t \<noteq> null_handle)"

definition task_done :: "task \<Rightarrow> 'v coros \<Rightarrow> bool" where
  "task_done t c = (task_handle t = null_handle \<or> frame_done (task_handle t) c)"

definition task_release :: "task \<Rightarrow> co_handle \<times> task" where
  "task_release t = (task_handle t, t\<lparr>task_handle := null_handle\<rparr>)"

definition task_move_construct :: "task \<Rightarrow> task \<times> task" where
  "task_move_construct other = (let (h, other') = task_release other in (\<lparr>task_handle = h\<rparr>, other'))"

definition task_destroy :: "task \<Rightarrow> 'v coros \<Rightarrow> 'v coros" where
  "task_destroy t c = (if task_handle t \<noteq> null_handle then destroy_frame (task_handle t) c else c)"

text \<open>Move assignment of two distinct objects; self-assignment does nothing.\<close>

definition task_move_assign :: "task \<Rightarrow> task \<Rightarrow> 'v coros \<Rightarrow> task \<times> task \<times> 'v coros" where
  "task_move_assign this other c =
     (let c1 = (if task_handle this \<noteq> null_handle then destroy_frame (task_handle this) c else c);
          (h, other') = task_release other
      in (this\<lparr>task_handle := h\<rparr>, other', c1))"

definition co_await_task :: "task \<Rightarrow> awaiter \<times> task" where
  "co_await_task t = (let (h, t') = task_release t in (\<lparr>aw_handle = h\<rparr>, t'))"

subsection \<open>Awaiting a task\<close>

text \<open>
  The final awaiter's \<^verbatim>\<open>await_suspend\<close>, on the promise of the coroutine that finishes. The state is
  the frames and the schedulers' state; a virtual call changes only the latter.
\<close>

definition final_await_suspend ::
    "(nat \<Rightarrow> 's scheduler) \<Rightarrow> (co_handle \<Rightarrow> 'v coros \<times> 's \<Rightarrow> 'v coros \<times> 's) \<Rightarrow> 'v promise
       \<Rightarrow> 'v coros \<times> 's \<Rightarrow> 'v coros \<times> 's" where
  "final_await_suspend V resume p cs =
     (case cs of (c, s) \<Rightarrow>
        let s1 = (if pr_tracked p \<and> pr_scheduler p \<noteq> 0 then on_task_completed_fn (V (pr_scheduler p)) s else s)
        in if pr_continuation p = null_handle then (c, s1)
           else if pr_scheduler p \<noteq> 0 then (c, schedule_fn (V (pr_scheduler p)) (pr_continuation p) s1)
           else resume (pr_continuation p) (c, s1))"

definition aw_await_ready :: "awaiter \<Rightarrow> 'v coros \<Rightarrow> bool" where
  "aw_await_ready a c = (aw_handle a = null_handle \<or> frame_done (aw_handle a) c)"

text \<open>
  \<open>parent_sched\<close> is \<^verbatim>\<open>scheduler_ptr()\<close> of the awaiting promise, \<open>None\<close> for a promise type without that
  function. The result is whether the awaiting coroutine stays suspended.
\<close>

definition aw_await_suspend ::
    "(nat \<Rightarrow> 's scheduler) \<Rightarrow> (co_handle \<Rightarrow> 'v coros \<times> 's \<Rightarrow> 'v coros \<times> 's) \<Rightarrow> nat option
       \<Rightarrow> co_handle \<Rightarrow> awaiter \<Rightarrow> 'v coros \<times> 's \<Rightarrow> bool \<times> 'v coros \<times> 's" where
  "aw_await_suspend V resume parent_sched awaiting a cs =
     (case cs of (c, s) \<Rightarrow>
        case frames c (aw_handle a) of
          None \<Rightarrow> (False, c, s)
        | Some child \<Rightarrow>
            let child1 = set_continuation awaiting child;
                child2 = (case parent_sched of
                            None \<Rightarrow> child1
                          | Some v \<Rightarrow> if pr_scheduler child1 = 0 then set_scheduler v False child1 else child1);
                c1 = c\<lparr>frames := (frames c)(aw_handle a \<mapsto> child2)\<rparr>
            in if pr_scheduler child2 \<noteq> 0
               then (True, c1, schedule_fn (V (pr_scheduler child2)) (aw_handle a) s)
               else (False, resume (aw_handle a) (c1, s)))"

definition aw_await_resume :: "awaiter \<Rightarrow> 'v coros \<Rightarrow> (task_exn + 'v) \<times> awaiter \<times> 'v coros" where
  "aw_await_resume a c =
     (if aw_handle a = null_handle then (Inl (Logic_error ''awaited task has no coroutine handle''), a, c)
      else case frames c (aw_handle a) of
             None \<Rightarrow> (Inl (Logic_error ''awaited task has no coroutine handle''), a, c)
           | Some p \<Rightarrow>
               (case consume_result p of
                  Inl e \<Rightarrow> (Inl e, a, c)
                | Inr v \<Rightarrow> (Inr v, a\<lparr>aw_handle := null_handle\<rparr>, destroy_frame (aw_handle a) c)))"

definition aw_destroy :: "awaiter \<Rightarrow> 'v coros \<Rightarrow> 'v coros" where
  "aw_destroy a c = (if aw_handle a \<noteq> null_handle then destroy_frame (aw_handle a) c else c)"

end
