(* ===== verification/Task_Claims.thy ===== *)
theory Task_Claims
  imports Task_Runtime Uring_Event_Loop_Claims Event_Loop_Claims
begin

section \<open>Tasks: what is claimed\<close>

subsection \<open>Ownership of frames\<close>

text \<open>
  What a program can do with its task objects: assign the result of a coroutine call, move, release
  to another owner, await, and destroy. Awaiting moves the frame into an awaiter, which lives until
  the end of the full expression.
\<close>

datatype task_op =
    T_call nat co_handle
  | T_move nat nat
  | T_release nat
  | T_await nat
  | T_destroy nat

record 'v task_program =
  tasks :: "task list"
  released :: "co_handle list"
  coros :: "'v coros"

fun task_exec :: "task_op \<Rightarrow> 'v task_program \<Rightarrow> 'v task_program option" where
  "task_exec (T_call i h) p =
     (if i < length (tasks p) \<and> h \<noteq> null_handle \<and> frames (coros p) h = None
      then let (t, c1) = get_return_object h (coros p);
               (ti, t', c2) = task_move_assign (tasks p ! i) t c1
           in Some (p\<lparr>tasks := (tasks p)[i := ti], coros := task_destroy t' c2\<rparr>)
      else None)"
| "task_exec (T_move i j) p =
     (if i < length (tasks p) \<and> j < length (tasks p)
      then if i = j then Some p
           else let (ti, tj, c1) = task_move_assign (tasks p ! i) (tasks p ! j) (coros p)
                in Some (p\<lparr>tasks := (tasks p)[i := ti, j := tj], coros := c1\<rparr>)
      else None)"
| "task_exec (T_release i) p =
     (if i < length (tasks p)
      then let (h, t) = task_release (tasks p ! i)
           in Some (p\<lparr>tasks := (tasks p)[i := t], released := (if h \<noteq> 0 then h # released p else released p)\<rparr>)
      else None)"
| "task_exec (T_await i) p =
     (if i < length (tasks p)
      then let (a, t) = co_await_task (tasks p ! i);
               (r, a1, c1) = aw_await_resume a (coros p)
           in Some (p\<lparr>tasks := (tasks p)[i := t], coros := aw_destroy a1 c1\<rparr>)
      else None)"
| "task_exec (T_destroy i) p =
     (if i < length (tasks p)
      then Some (p\<lparr>tasks := (tasks p)[i := task_empty], coros := task_destroy (tasks p ! i) (coros p)\<rparr>)
      else None)"

fun task_run :: "task_op list \<Rightarrow> 'v task_program \<Rightarrow> 'v task_program option" where
  "task_run [] p = Some p"
| "task_run (x # xs) p = (case task_exec x p of None \<Rightarrow> None | Some p1 \<Rightarrow> task_run xs p1)"

definition holds :: "task \<Rightarrow> co_handle multiset" where
  "holds t = (if task_handle t = 0 then {#} else {#task_handle t#})"

definition held :: "'v task_program \<Rightarrow> co_handle multiset" where
  "held p = sum_list (map holds (tasks p)) + mset (released p)"

fun created :: "task_op \<Rightarrow> co_handle multiset" where
  "created (T_call i h) = {#h#}"
| "created _ = {#}"

text \<open>The frames alive are exactly those held, each by one owner.\<close>

definition frames_owned :: "'v task_program \<Rightarrow> bool" where
  "frames_owned p = (\<forall>h. count (held p) h = (if frames (coros p) h = None then 0 else 1))"

lemma task_update [simp]: "(t :: task)\<lparr>task_handle := h\<rparr> = \<lparr>task_handle = h\<rparr>"
  by (cases t) simp

lemma sum_list_update_mset:
  fixes xs :: "'a multiset list"
  shows "i < length xs \<Longrightarrow> sum_list (xs[i := x]) + xs ! i = sum_list xs + x"
  by (induction xs arbitrary: i) (auto simp: ac_simps split: nat.splits)

lemma held_update:
  assumes "i < length (tasks p)" "tasks p' = (tasks p)[i := t]" "released p' = released p"
  shows "held p' + holds (tasks p ! i) = held p + holds t"
  using sum_list_update_mset[of i "map holds (tasks p)" "holds t"] assms
  by (simp add: held_def map_update ac_simps)

text \<open>The effect of a step on what is held and what is alive.\<close>

definition step_balanced :: "co_handle multiset \<Rightarrow> 'v task_program \<Rightarrow> 'v task_program \<Rightarrow> bool" where
  "step_balanced new p p' = (frames_owned p' \<and>
     mset (destroyed (coros p)) + held p + new = mset (destroyed (coros p')) + held p')"

lemma destroy_frame_simps [simp]:
  "frames (destroy_frame h c) = (frames c)(h := None)" "destroyed (destroy_frame h c) = h # destroyed c"
  by (simp_all add: destroy_frame_def)

text \<open>Emptying a slot whose frame is destroyed.\<close>

lemma end_slot_balanced:
  assumes "frames_owned p" "i < length (tasks p)" "task_handle t = 0"
    and "tasks p' = (tasks p)[i := t]" "released p' = released p" "coros p' = task_destroy (tasks p ! i) (coros p)"
  shows "step_balanced {#} p p'"
proof -
  have eq: "held p' + holds (tasks p ! i) = held p" using held_update[OF assms(2,4,5)] assms(3) by (simp add: holds_def)
  show ?thesis
  proof (cases "task_handle (tasks p ! i) = 0")
    case True
    with eq assms(1,6) show ?thesis by (simp add: holds_def step_balanced_def frames_owned_def task_destroy_def)
  next
    case False
    let ?h = "task_handle (tasks p ! i)"
    from False eq have h: "held p = add_mset ?h (held p')" by (simp add: holds_def)
    have "count (held p') x = (if frames (coros p') x = None then 0 else 1)" for x
    proof (cases "x = ?h")
      case True
      have "count (held p) ?h = (if frames (coros p) ?h = None then 0 else 1)" using assms(1) by (simp add: frames_owned_def)
      then have "count (held p') ?h = 0" unfolding h by (auto split: if_splits)
      with True False assms(6) show ?thesis by (simp add: task_destroy_def)
    next
      case neq: False
      have "count (held p) x = (if frames (coros p) x = None then 0 else 1)" using assms(1) by (simp add: frames_owned_def)
      with neq False assms(6) h show ?thesis by (simp add: task_destroy_def)
    qed
    with False h assms(6) show ?thesis by (simp add: step_balanced_def frames_owned_def task_destroy_def)
  qed
qed

lemma step_balanced_trans:
  assumes "step_balanced M p p1" "step_balanced N p1 p2"
  shows "step_balanced (M + N) p p2"
proof -
  have "mset (destroyed (coros p)) + held p + (M + N) = mset (destroyed (coros p)) + held p + M + N"
    by (simp add: add.assoc)
  also have "\<dots> = mset (destroyed (coros p2)) + held p2" using assms by (simp add: step_balanced_def)
  finally show ?thesis using assms(2) by (simp add: step_balanced_def)
qed

text \<open>Handles that change place, and a new frame in an empty slot.\<close>

lemma same_held_balanced:
  "frames_owned p \<Longrightarrow> held p' = held p \<Longrightarrow> coros p' = coros p \<Longrightarrow> step_balanced {#} p p'"
  by (simp add: step_balanced_def frames_owned_def)

lemma fill_slot_balanced:
  assumes "frames_owned p" "i < length (tasks p)" "task_handle (tasks p ! i) = 0" "h \<noteq> 0" "frames (coros p) h = None"
    and "tasks p' = (tasks p)[i := \<lparr>task_handle = h\<rparr>]" "released p' = released p"
    and "frames (coros p') = (frames (coros p))(h \<mapsto> x)" "destroyed (coros p') = destroyed (coros p)"
  shows "step_balanced {#h#} p p'"
proof -
  have h: "held p' = add_mset h (held p)"
    using held_update[OF assms(2,6,7)] assms(3,4) by (simp add: holds_def)
  have "count (held p) h = 0" using assms(1,5) by (simp add: frames_owned_def)
  with assms(1,8) have "frames_owned p'" by (auto simp: frames_owned_def h)
  with h assms(9) show ?thesis by (simp add: step_balanced_def)
qed

lemma move_handle_held:
  assumes "i < length (tasks p)" "j < length (tasks p)" "i \<noteq> j" "task_handle (tasks p ! i) = 0"
    and "tasks p' = (tasks p)[i := \<lparr>task_handle = task_handle (tasks p ! j)\<rparr>, j := \<lparr>task_handle = 0\<rparr>]"
    and "released p' = released p"
  shows "held p' = held p"
proof -
  let ?p = "p\<lparr>tasks := (tasks p)[i := \<lparr>task_handle = task_handle (tasks p ! j)\<rparr>]\<rparr>"
  have "held ?p = held p + holds (tasks p ! j)"
    using held_update[of i p ?p "\<lparr>task_handle = task_handle (tasks p ! j)\<rparr>"] assms(1,4) by (simp add: holds_def)
  moreover have "held p' + holds (tasks p ! j) = held ?p"
    using held_update[of j ?p p' "\<lparr>task_handle = 0\<rparr>"] assms by (simp add: holds_def)
  ultimately show ?thesis by simp
qed

lemma task_destroy_empty [simp]: "task_handle t = 0 \<Longrightarrow> task_destroy t c = c"
  by (simp add: task_destroy_def)

lemma await_and_destroy:
  assumes "co_await_task t = (a, t')" "aw_await_resume a c = (r, a1, c1)"
  shows "task_handle t' = 0" "aw_destroy a1 c1 = task_destroy t c"
  using assms
  by (auto simp: co_await_task_def task_release_def aw_await_resume_def aw_destroy_def task_destroy_def
      split: option.splits sum.splits if_splits)

lemma task_exec_balanced:
  assumes "task_exec x p = Some p'" "frames_owned p"
  shows "step_balanced (created x) p p'"
proof (cases x)
  case (T_call i h)
  with assms(1) have i: "i < length (tasks p)" "h \<noteq> 0" "frames (coros p) h = None"
    and p': "p' = p\<lparr>tasks := (tasks p)[i := \<lparr>task_handle = h\<rparr>],
      coros := task_destroy (tasks p ! i) ((coros p)\<lparr>frames := (frames (coros p))(h \<mapsto> new_promise)\<rparr>)\<rparr>"
    by (auto simp: get_return_object_def task_move_assign_def task_release_def task_destroy_def Let_def
        split: if_splits prod.splits)
  let ?p1 = "p\<lparr>tasks := (tasks p)[i := task_empty], coros := task_destroy (tasks p ! i) (coros p)\<rparr>"
  have end_i: "step_balanced {#} p ?p1" by (rule end_slot_balanced[OF assms(2) i(1), of task_empty]) (simp_all add: task_empty_def)
  then have own: "frames_owned ?p1" by (simp add: step_balanced_def)
  have "count (held p) h = 0" using assms(2) i(3) by (simp add: frames_owned_def)
  moreover have "held ?p1 + holds (tasks p ! i) = held p"
    using held_update[of i p ?p1 task_empty] i(1) by (simp add: holds_def task_empty_def)
  then have "count (held p) (task_handle (tasks p ! i)) \<noteq> 0 \<or> task_handle (tasks p ! i) = 0"
    by (metis count_union count_single add_eq_0_iff_both_eq_0 holds_def zero_neq_one)
  ultimately have "task_handle (tasks p ! i) \<noteq> h" using i(2) by metis
  then have "step_balanced {#h#} ?p1 p'"
    using i by (intro fill_slot_balanced[OF own, of i]) (auto simp: p' task_empty_def task_destroy_def fun_upd_twist)
  with step_balanced_trans[OF end_i this] T_call show ?thesis by simp
next
  case (T_move i j)
  show ?thesis
  proof (cases "i = j")
    case True
    with assms T_move show ?thesis by (auto intro: same_held_balanced split: if_splits)
  next
    case False
    with assms(1) T_move have ij: "i < length (tasks p)" "j < length (tasks p)"
      and p': "p' = p\<lparr>tasks := (tasks p)[i := \<lparr>task_handle = task_handle (tasks p ! j)\<rparr>, j := \<lparr>task_handle = 0\<rparr>],
        coros := task_destroy (tasks p ! i) (coros p)\<rparr>"
      by (auto simp: task_move_assign_def task_release_def task_destroy_def Let_def split: if_splits)
    let ?p1 = "p\<lparr>tasks := (tasks p)[i := task_empty], coros := task_destroy (tasks p ! i) (coros p)\<rparr>"
    have end_i: "step_balanced {#} p ?p1" by (rule end_slot_balanced[OF assms(2) ij(1), of task_empty]) (simp_all add: task_empty_def)
    then have own: "frames_owned ?p1" by (simp add: step_balanced_def)
    have "held p' = held ?p1"
      using ij False by (intro move_handle_held[of i _ j]) (simp_all add: p' task_empty_def)
    then have "step_balanced {#} ?p1 p'" by (intro same_held_balanced[OF own]) (simp_all add: p')
    with step_balanced_trans[OF end_i this] T_move show ?thesis by simp
  qed
next
  case (T_release i)
  with assms(1) have i: "i < length (tasks p)"
    and p': "p' = p\<lparr>tasks := (tasks p)[i := \<lparr>task_handle = 0\<rparr>],
      released := (if task_handle (tasks p ! i) \<noteq> 0 then task_handle (tasks p ! i) # released p else released p)\<rparr>"
    by (auto simp: task_release_def split: if_splits)
  have "held p' = held p"
    using sum_list_update_mset[of i "map holds (tasks p)" "{#}"] i
    by (auto simp: p' held_def map_update holds_def)
  with assms(2) T_release show ?thesis by (auto intro: same_held_balanced simp: p')
next
  case (T_await i)
  obtain a t where aw: "co_await_task (tasks p ! i) = (a, t)" by fastforce
  obtain r a1 c1 where rs: "aw_await_resume a (coros p) = (r, a1, c1)" by (metis prod_cases3)
  note d = await_and_destroy[OF aw rs]
  from assms(1) T_await aw rs d(2) have "i < length (tasks p)"
    "p' = p\<lparr>tasks := (tasks p)[i := t], coros := task_destroy (tasks p ! i) (coros p)\<rparr>" by (auto split: if_splits)
  with end_slot_balanced[OF assms(2) _ d(1), of i p'] T_await show ?thesis by simp
next
  case (T_destroy i)
  with assms(1) have "i < length (tasks p)"
    "p' = p\<lparr>tasks := (tasks p)[i := task_empty], coros := task_destroy (tasks p ! i) (coros p)\<rparr>" by (auto split: if_splits)
  with end_slot_balanced[OF assms(2), of i task_empty p'] T_destroy show ?thesis by (simp add: task_empty_def)
qed

lemma task_run_balanced:
  "task_run ops p = Some p' \<Longrightarrow> frames_owned p \<Longrightarrow> step_balanced (sum_list (map created ops)) p p'"
proof (induction ops arbitrary: p)
  case Nil
  then show ?case by (simp add: step_balanced_def)
next
  case (Cons x xs)
  then obtain p1 where x: "task_exec x p = Some p1" "task_run xs p1 = Some p'" by (auto split: option.splits)
  have s1: "step_balanced (created x) p p1" using task_exec_balanced[OF x(1) Cons.prems(2)] .
  then have "frames_owned p1" by (simp add: step_balanced_def)
  from step_balanced_trans[OF s1 Cons.IH[OF x(2) this]] show ?case by simp
qed

definition no_tasks :: "nat \<Rightarrow> 'v task_program" where
  "no_tasks n = \<lparr>tasks = replicate n task_empty, released = [], coros = \<lparr>frames = Map.empty, destroyed = []\<rparr>\<rparr>"

lemma no_tasks_held: "held (no_tasks n :: 'v task_program) = {#}" "frames_owned (no_tasks n :: 'v task_program)"
proof -
  have "sum_list (replicate n {#}) = ({#} :: co_handle multiset)" by (induction n) auto
  then show e: "held (no_tasks n :: 'v task_program) = {#}" by (simp add: held_def no_tasks_def holds_def task_empty_def)
  have "frames (coros (no_tasks n :: 'v task_program)) h = None" for h by (simp add: no_tasks_def)
  with e show "frames_owned (no_tasks n :: 'v task_program)" by (simp add: frames_owned_def)
qed



subsection \<open>Awaiting a child\<close>

context scheduler_impl
begin

lemma child_started:
  assumes "frames c h = Some child" "pr_scheduler child = 0" "V u = v" "u \<noteq> 0"
    and "aw_await_suspend V resume (Some u) parent \<lparr>aw_handle = h\<rparr> (c, s) = (b, c1, s1)"
  shows "b" "abs s1 = sp_schedule h (abs s)" "inv s \<Longrightarrow> inv s1"
    "frames c1 h = Some (child\<lparr>pr_continuation := parent, pr_scheduler := u, pr_tracked := False\<rparr>)"
  using assms abs_schedule inv_schedule
  by (auto simp: aw_await_suspend_def set_continuation_def set_scheduler_def Let_def)

lemma task_finished:
  assumes "V (pr_scheduler p) = v" "pr_scheduler p \<noteq> 0" "final_await_suspend V resume p (c, s) = (c1, s1)"
  shows "c1 = c" "abs s1 = (if pr_continuation p = 0 then (\<lambda>a. a) else sp_schedule (pr_continuation p))
      ((if pr_tracked p then sp_complete else (\<lambda>a. a)) (abs s))" "inv s \<Longrightarrow> inv s1"
  using assms abs_schedule abs_complete inv_schedule inv_complete
  by (auto simp: final_await_suspend_def Let_def split: if_splits)

end

text \<open>
  C25. An awaited child runs once and wakes its parent once. On the epoll loop, awaiting a child that
  has no scheduler yet suspends the parent, makes the child, and only it, ready, and gives it the
  parent's scheduler; when the child later finishes, by value or exception, exactly the parent is
  made ready, and the count of root tasks is untouched, as the child is not a root.
\<close>

theorem awaited_child_wakes_parent_once:
  assumes "frames c h = Some child" "pr_scheduler child = 0" "V u = epoll_scheduler K" "u \<noteq> 0" "h \<noteq> 0" "parent \<noteq> 0"
    and "aw_await_suspend V resume (Some u) parent \<lparr>aw_handle = h\<rparr> (c, el, w) = (b, c1, el1, w1)"
    and "frames c1 h = Some p" "pr_scheduler p' = pr_scheduler p" "pr_continuation p' = pr_continuation p" "pr_tracked p' = pr_tracked p"
    and "final_await_suspend V resume p' (c2, el2, w2) = (c3, el3, w3)"
  shows "b \<and> ready_queue el1 = ready_queue el @ [h] \<and> active_task_count el1 = active_task_count el
    \<and> ready_queue el3 = ready_queue el2 @ [parent] \<and> active_task_count el3 = active_task_count el2"
proof -
  have run: "aw_await_suspend V resume (Some u) parent \<lparr>aw_handle = h\<rparr> (c, (el, w)) = (b, c1, (el1, w1))"
    using assms(7) by simp
  note st = epoll.child_started[where V = V and u = u and K = K and resume = resume and parent = parent
      and s = "(el, w)" and ?s1.0 = "(el1, w1)" and c = c and h = h and child = child and b = b and ?c1.0 = c1]
  note st = st[OF assms(1-4) run]
  have p: "pr_scheduler p' = u" "pr_continuation p' = parent" "\<not> pr_tracked p'"
    using st(4) assms(8-11) by auto
  have fin: "loop_abs el3 = sp_schedule parent (loop_abs el2)"
    using epoll.task_finished(2)[of V p' K resume c2 "(el2, w2)" c3 "(el3, w3)"] p assms(3,4,6,12) by simp
  have "sp_ready (loop_abs el1) = sp_ready (loop_abs el) @ [h]" "sp_active (loop_abs el1) = sp_active (loop_abs el)"
    using st(2) assms(5) by (simp_all add: sp_schedule_def)
  moreover have "sp_ready (loop_abs el3) = sp_ready (loop_abs el2) @ [parent]" "sp_active (loop_abs el3) = sp_active (loop_abs el2)"
    using fin assms(6) by (simp_all add: sp_schedule_def)
  ultimately show ?thesis using st(1) by simp
qed

definition demo_frames :: "int coros" where
  "demo_frames = \<lparr>frames = [31 \<mapsto> new_promise], destroyed = []\<rparr>"

theorem awaited_child_wakes_parent_once_witness:
  "\<exists>c1 el1 w1 c3 el3 w3. aw_await_suspend (\<lambda>_. epoll_scheduler demo_kernel) (\<lambda>h cs. cs) (Some 1) 30 \<lparr>aw_handle = 31\<rparr>
       (demo_frames, fst demo_loop, snd demo_loop) = (True, c1, el1, w1)
     \<and> final_await_suspend (\<lambda>_. epoll_scheduler demo_kernel) (\<lambda>h cs. cs) (return_value 7 (the (frames c1 31)))
         (c1, el1, w1) = (c3, el3, w3)
     \<and> ready_queue el3 = ready_queue el1 @ [30]"
proof -
  let ?V = "\<lambda>_::nat. epoll_scheduler demo_kernel" and ?r = "\<lambda>(h::co_handle) (cs :: int coros \<times> event_loop \<times> world). cs"
  obtain b c1 el1 w1 where s: "aw_await_suspend ?V ?r (Some 1) 30 \<lparr>aw_handle = 31\<rparr> (demo_frames, fst demo_loop, snd demo_loop)
      = (b, c1, el1, w1)" by (metis prod_cases4)
  have f: "frames demo_frames 31 = Some new_promise" "pr_scheduler new_promise = 0"
    by (simp_all add: demo_frames_def new_promise_def)
  from s f obtain p where p: "frames c1 31 = Some p" by (auto simp: aw_await_suspend_def Let_def split: if_splits)
  obtain c3 el3 w3 where e: "final_await_suspend ?V ?r (return_value 7 p) (c1, el1, w1) = (c3, el3, w3)"
    by (metis prod_cases3)
  from awaited_child_wakes_parent_once[where V = ?V and resume = ?r, OF f _ _ _ _ s p _ _ _ e] s p e
  show ?thesis by (auto simp: return_value_def)
qed

text \<open>
  Root tasks are counted exactly: when a root task finishes on the io_uring loop, its loop's count
  of active tasks goes down by one and nothing else becomes ready; when a child finishes, the count
  is unchanged.
\<close>

theorem finished_root_counted_once:
  assumes "V (pr_scheduler p) = uring_scheduler K" "pr_scheduler p \<noteq> 0"
    and "final_await_suspend V resume p (c, el, w) = (c1, el1, w1)"
  shows "c1 = c \<and> u_active_task_count el1 = u_active_task_count el - of_bool (pr_tracked p)
    \<and> u_ready_queue el1 = u_ready_queue el @ (if pr_continuation p = 0 then [] else [pr_continuation p])"
proof -
  have "final_await_suspend V resume p (c, (el, w)) = (c1, (el1, w1))" using assms(3) by simp
  note f = uring.task_finished(1,2)[OF assms(1,2) this]
  have "sp_ready (uring_abs el1) = sp_ready (uring_abs el) @ (if pr_continuation p = 0 then [] else [pr_continuation p])"
    "sp_active (uring_abs el1) = sp_active (uring_abs el) - of_bool (pr_tracked p)"
    using f(2) by (auto simp: sp_schedule_def sp_complete_def)
  with f(1) show ?thesis by simp
qed

theorem finished_root_counted_once_witness:
  "\<exists>c1 el1 w1. final_await_suspend (\<lambda>_. uring_scheduler ring_kernel) (\<lambda>h cs. cs) (set_scheduler 1 True new_promise)
       (demo_frames, u_spawn 31 (fst ring_loop), snd ring_loop) = (c1, el1, w1)
     \<and> u_active_task_count el1 = u_active_task_count (u_spawn 31 (fst ring_loop)) - 1"
proof -
  let ?V = "\<lambda>_::nat. uring_scheduler ring_kernel" and ?r = "\<lambda>(h::co_handle) (cs :: int coros \<times> uring_loop \<times> world). cs"
  obtain c1 el1 w1 where e: "final_await_suspend ?V ?r (set_scheduler 1 True new_promise)
       (demo_frames, u_spawn 31 (fst ring_loop), snd ring_loop) = (c1, el1, w1)" by (metis prod_cases3)
  from finished_root_counted_once[OF _ _ e] e show ?thesis by (auto simp: set_scheduler_def new_promise_def)
qed

text \<open>
  C26. A result is handed over exactly once. Resuming the parent of a finished child returns what the
  child returned, or the exception it threw, an exception taking precedence, and by the end of the
  await expression the child's frame has been destroyed, exactly once, on either path.
\<close>

theorem awaited_result_delivered:
  assumes "frames c h = Some p" "h \<noteq> 0" "aw_await_resume \<lparr>aw_handle = h\<rparr> c = (r, a1, c1)"
  defines "c2 \<equiv> aw_destroy a1 c1"
  shows "(\<forall>e. pr_exception p = Some e \<longrightarrow> r = Inl e) \<and> (\<forall>v. pr_exception p = None \<longrightarrow> pr_value p = Some v \<longrightarrow> r = Inr v)
    \<and> (pr_exception p = None \<longrightarrow> pr_value p = None \<longrightarrow> r = Inl (Logic_error ''task result is not available''))
    \<and> frames c2 h = None \<and> destroyed c2 = h # destroyed c \<and> (\<forall>x. x \<noteq> h \<longrightarrow> frames c2 x = frames c x)"
proof -
  have d: "c2 = destroy_frame h c"
    using assms(2,3) assms(1) by (auto simp: c2_def aw_await_resume_def aw_destroy_def split: sum.splits)
  have "r = consume_result p"
    using assms(1-3) by (auto simp: aw_await_resume_def split: sum.splits)
  then show ?thesis by (auto simp: consume_result_def d)
qed

theorem awaited_result_delivered_witness:
  "\<exists>a c. aw_await_resume \<lparr>aw_handle = 31\<rparr> \<lparr>frames = [31 \<mapsto> unhandled_exception (Thrown 3) (return_value (7::int) new_promise)],
       destroyed = []\<rparr> = (Inl (Thrown 3), a, c) \<and> destroyed (aw_destroy a c) = [31]"
proof -
  let ?c = "\<lparr>frames = [31 \<mapsto> unhandled_exception (Thrown 3) (return_value (7::int) new_promise)], destroyed = []\<rparr>"
  obtain r a c where run: "aw_await_resume \<lparr>aw_handle = 31\<rparr> ?c = (r, a, c)" by (metis prod_cases3)
  from awaited_result_delivered[OF _ _ run] run show ?thesis by (simp add: unhandled_exception_def)
qed

text \<open>
  Without a scheduler the awaiter resumes the child directly, and a child that runs to its end
  resumes the parent from its final awaiter; \<^verbatim>\<open>await_suspend\<close> then returns \<^verbatim>\<open>false\<close>, which continues the
  parent a second time.
\<close>

lemma await_without_scheduler_resumes_twice:
  assumes "frames c h = Some child" "pr_scheduler child = 0" "parent \<noteq> 0"
    and "\<And>c1 s1 p. frames c1 h = Some p \<Longrightarrow> resume h (c1, s1) = final_await_suspend V resume p (c1, s1)"
  defines "c1 \<equiv> c\<lparr>frames := (frames c)(h \<mapsto> set_continuation parent child)\<rparr>"
  shows "aw_await_suspend V resume None parent \<lparr>aw_handle = h\<rparr> (c, s) = (False, resume parent (c1, s))"
  using assms(1-3) assms(4)[of c1 "set_continuation parent child" s]
  by (simp add: aw_await_suspend_def final_await_suspend_def set_continuation_def c1_def Let_def)

end
