(* ===== verification/Uring_Event_Loop_Props.thy ===== *)
theory Uring_Event_Loop_Props
  imports Uring_Event_Loop_Run Event_Loop_Props
begin

section \<open>The io_uring event loop: running\<close>

text \<open>
  How \<^verbatim>\<open>uring_event_loop::run\<close> ends, and that it runs root tasks that complete to completion. Both
  follow the epoll loop's, with the submissions that are flushed before a wait and at the end.
\<close>

subsection \<open>Root tasks that complete\<close>

definition u_nothing_left :: "uring_loop \<Rightarrow> bool" where
  "u_nothing_left el = (u_ready_queue el = [] \<and> u_active_task_count el = 0 \<and> u_pending_waiter_count el = 0)"

definition u_only_roots :: "('c, uring_loop) coro_env \<Rightarrow> 'c \<Rightarrow> co_handle list \<Rightarrow> uring_loop \<Rightarrow> bool" where
  "u_only_roots E c hs el = (u_ready_queue el = hs \<and> u_root_tasks el = hs \<and> u_active_task_count el = length hs
     \<and> u_pending_waiter_count el = 0 \<and> u_timed_waiter_count el = 0 \<and> u_loop_error el = None
     \<and> \<not> u_stop_requested el \<and> \<not> submission_pending el \<and> distinct hs \<and> 0 \<notin> set hs
     \<and> (\<forall>h \<in> set hs. \<not> co_done E c h))"

lemma u_load_stop_never:
  "never_stopped K \<Longrightarrow> \<not> u_stop_requested el \<Longrightarrow> u_load_stop K el w = (False, el, snd (sys K Atomic_load_stop w))"
  by (simp add: u_load_stop_def never_stopped_def sys_eq)

lemma u_process_expired_untimed:
  "u_timed_waiter_count el = 0 \<Longrightarrow>
     u_process_expired_waiters K el w = (el\<lparr>u_next_deadline := None, u_deadline_index_dirty := False\<rparr>, w)"
  by (simp add: u_process_expired_waiters_def)

lemma u_drain_ready_completes:
  assumes E: "completes_roots E u_on_task_completed J" and K: "never_stopped K"
  shows "u_only_roots E c hs el \<Longrightarrow> J hs c \<Longrightarrow> length hs < k \<Longrightarrow>
    \<exists>c' el' w'. u_drain_ready k K E c el w = Some (c', el', w') \<and> u_only_roots E c' [] el' \<and> J [] c'"
proof (induction hs arbitrary: k c el w)
  case Nil
  then show ?case by (cases k) (auto simp: u_only_roots_def)
next
  case (Cons h hs)
  then obtain k' where k: "k = Suc k'" "length hs < k'" by (cases k) auto
  let ?el1 = "el\<lparr>u_ready_queue := hs\<rparr>"
  obtain c1 w1 where r: "co_resume E h c ?el1 w = (c1, u_on_task_completed ?el1, w1)" and fin: "co_done E c1 h"
    and J: "J hs (co_destroy E h c1)" and rest: "\<forall>h' \<in> set hs. \<not> co_done E (co_destroy E h c1) h'"
    using completes_rootsE[OF E Cons.prems(2), of ?el1 w] Cons.prems(1) by (auto simp: u_only_roots_def)
  let ?c2 = "co_destroy E h c1"
  let ?el2 = "(u_on_task_completed ?el1)\<lparr>u_root_tasks := hs, u_next_deadline := None, u_deadline_index_dirty := False\<rparr>"
  have el: "u_only_roots E ?c2 hs ?el2"
    using Cons.prems(1) rest by (simp add: u_only_roots_def u_on_task_completed_def)
  have cl: "u_cleanup_completed_roots E c1 (u_on_task_completed ?el1)
      = (?c2, (u_on_task_completed ?el1)\<lparr>u_root_tasks := hs\<rparr>)"
    using Cons.prems(1) fin cleanup_roots_none_done[OF rest]
    by (simp add: u_cleanup_completed_roots_def u_only_roots_def u_on_task_completed_def)
  have ex: "u_process_expired_waiters K ((u_on_task_completed ?el1)\<lparr>u_root_tasks := hs\<rparr>) w1 = (?el2, w1)"
    using Cons.prems(1) by (subst u_process_expired_untimed) (simp_all add: u_only_roots_def u_on_task_completed_def)
  have st: "u_load_stop K ?el2 w1 = (False, ?el2, snd (sys K Atomic_load_stop w1))"
    using el by (intro u_load_stop_never[OF K]) (simp add: u_only_roots_def)
  have "u_drain_ready k K E c el w = u_drain_ready k' K E ?c2 ?el2 (snd (sys K Atomic_load_stop w1))"
    using Cons.prems(1) k(1) r cl ex st el by (simp add: u_only_roots_def)
  with Cons.IH[OF el J k(2)] show ?case by simp
qed

lemma u_run_loop_completes:
  assumes E: "completes_roots E u_on_task_completed J" and K: "never_stopped K" and el: "u_only_roots E c hs el"
    and J: "J hs c" and k: "Suc (length hs) < k"
  shows "\<exists>c' el' w'. u_run_loop k K E c el w = Some (Loop_break, c', el', w') \<and> u_only_roots E c' [] el' \<and> J [] c'"
proof -
  obtain k' where k': "k = Suc k'" "length hs < k'" using k by (cases k) auto
  let ?w0 = "snd (sys K Atomic_load_stop w)" and ?el1 = "el\<lparr>u_next_deadline := None, u_deadline_index_dirty := False\<rparr>"
  have el1: "u_only_roots E c hs ?el1" using el by (simp add: u_only_roots_def)
  have s0: "u_load_stop K el w = (False, el, ?w0)" "u_load_stop K ?el1 ?w0 = (False, ?el1, snd (sys K Atomic_load_stop ?w0))"
    using el by (auto intro!: u_load_stop_never[OF K] simp: u_only_roots_def)
  have ex: "u_process_expired_waiters K el ?w0 = (?el1, ?w0)"
    using el by (intro u_process_expired_untimed) (simp add: u_only_roots_def)
  obtain c3 el3 w3 where dr: "u_drain_ready k' K E c ?el1 (snd (sys K Atomic_load_stop ?w0)) = Some (c3, el3, w3)"
    "u_only_roots E c3 [] el3" "J [] c3"
    using u_drain_ready_completes[OF E K el1 J k'(2)] by blast
  have s3: "u_load_stop K el3 w3 = (False, el3, snd (sys K Atomic_load_stop w3))"
    using dr(2) by (intro u_load_stop_never[OF K]) (simp add: u_only_roots_def)
  show ?thesis
    using s0 ex dr s3 el el1 by (simp add: k'(1) u_only_roots_def)
qed

lemma u_run_completes:
  assumes "completes_roots E u_on_task_completed J" "never_stopped K" "uring_loop_valid el" "u_only_roots E c hs el"
    and "J hs c" "Suc (length hs) < k"
  shows "\<exists>c' el' w'. u_run k K E c el w = Some (Inr (), c', el', w') \<and> u_only_roots E c' [] el' \<and> J [] c'"
proof -
  have same: "el\<lparr>u_stop_requested := False, u_loop_error := None\<rparr> = el"
    using assms(4) by (intro uring_loop.equality) (simp_all add: u_only_roots_def)
  obtain c1 el1 w1 where l: "u_run_loop k K E c el w = Some (Loop_break, c1, el1, w1)" "u_only_roots E c1 [] el1" "J [] c1"
    using u_run_loop_completes[OF assms(1,2,4,5,6)] by blast
  then have "u_cleanup_completed_roots E c1 el1 = (c1, el1)"
    by (simp add: u_cleanup_completed_roots_def u_only_roots_def)
  with l assms(3) show ?thesis by (simp add: u_run_def same u_only_roots_def flush_submissions_def)
qed

subsection \<open>How a run ends\<close>

text \<open>
  A run is left because of a stop, a recorded error or nothing left, or returns early: \<^verbatim>\<open>EDEADLK\<close>, or
  the reactor's error when submissions are flushed or completions waited for.
\<close>

definition u_exit_ok :: "kernel \<Rightarrow> loop_exit \<Rightarrow> uring_loop \<Rightarrow> bool" where
  "u_exit_ok K ex el = (case ex of
       Loop_break \<Rightarrow> u_stop_requested el \<or> u_loop_error el \<noteq> None \<or> u_nothing_left el
     | Loop_return r \<Rightarrow> u_ready_queue el = [] \<and> u_loop_error el = None \<and>
         (if u_pending_waiter_count el = 0 then 0 < u_active_task_count el \<and> r = errno_error EDEADLK
          else \<exists>e t v v'. r = Inl e \<and> (uring_submit K (u_reactor el) v = (Inl e, v')
            \<or> uring_wait K 64 t (u_reactor el) v = (Inl e, v'))))"

lemma u_load_stop_flag: "u_load_stop K el w = (b, el', w') \<Longrightarrow> b \<Longrightarrow> u_stop_requested el'"
  by (auto simp: u_load_stop_def Let_def split: prod.splits if_splits)

lemma flush_submissions_fails:
  "flush_submissions K el w = (Inl e, el', w') \<Longrightarrow> el' = el \<and> (\<exists>v v'. uring_submit K (u_reactor el) v = (Inl e, v'))"
  by (auto simp: flush_submissions_def split: if_splits prod.splits sum.splits)

lemma u_reactor_failure:
  assumes "flush_submissions K el w = (r, el', w')" "uring_wait K 64 t (u_reactor el') w' = (res, w'')" "r = Inl e \<or> res = Inl e"
  shows "\<exists>t v v'. uring_submit K (u_reactor el') v = (Inl e, v') \<or> uring_wait K 64 t (u_reactor el') v = (Inl e, v')"
  using assms flush_submissions_fails by blast

lemma u_run_loop_exit:
  "u_run_loop k K E c el w = Some (ex, c', el', w') \<Longrightarrow> u_exit_ok K ex el'"
proof (induction k arbitrary: c el w)
  case (Suc k)
  obtain b0 el0 w0 where s0: "u_load_stop K el w = (b0, el0, w0)" by (metis prod_cases3)
  obtain el1 w1 where ex: "u_process_expired_waiters K el0 w0 = (el1, w1)" by fastforce
  obtain b1 el2 w2 where s1: "u_load_stop K el1 w1 = (b1, el2, w2)" by (metis prod_cases3)
  show ?case
  proof (cases "b0 \<or> b1 \<or> u_loop_error el2 \<noteq> None \<or> u_drain_ready k K E c el2 w2 = None")
    case True
    with Suc.prems s0 ex s1 u_load_stop_flag[OF s0] u_load_stop_flag[OF s1] show ?thesis
      by (auto simp: u_exit_ok_def split: if_splits)
  next
    case False
    then obtain c3 el3 w3 where dr: "u_drain_ready k K E c el2 w2 = Some (c3, el3, w3)" by force
    obtain b3 el4 w4 where s3: "u_load_stop K el3 w3 = (b3, el4, w4)" by (metis prod_cases3)
    obtain t w5 where wt: "u_wait_timeout K el4 w4 = (t, w5)" by fastforce
    obtain r5 el5 w6 where fl: "flush_submissions K el4 w5 = (r5, el5, w6)" by (metis prod_cases3)
    obtain b where el5: "el5 = el4\<lparr>submission_pending := b\<rparr>" using flush_submissions_frame[OF fl] by blast
    obtain res w7 where rw: "uring_wait K 64 t (u_reactor el5) w6 = (res, w7)" by fastforce
    consider (left) "b3 \<or> u_loop_error el4 \<noteq> None" | (more) "\<not> b3" "u_loop_error el4 = None" "u_ready_queue el4 \<noteq> []"
      | (idle) "\<not> b3" "u_loop_error el4 = None" "u_ready_queue el4 = []" "u_pending_waiter_count el4 = 0"
      | (wait) "\<not> b3" "u_loop_error el4 = None" "u_ready_queue el4 = []" "u_pending_waiter_count el4 \<noteq> 0" by blast
    then show ?thesis
    proof cases
      case left
      with Suc.prems False s0 ex s1 dr s3 u_load_stop_flag[OF s3] show ?thesis by (auto simp: u_exit_ok_def)
    next
      case more
      with Suc.prems False s0 ex s1 dr s3 show ?thesis by (simp add: Suc.IH)
    next
      case idle
      with Suc.prems False s0 ex s1 dr s3 show ?thesis by (auto simp: u_exit_ok_def u_nothing_left_def split: if_splits)
    next
      case wait
      then have same: "u_ready_queue el5 = []" "u_loop_error el5 = None" "u_pending_waiter_count el5 \<noteq> 0" using el5 by simp_all
      from wait Suc.prems False s0 ex s1 dr s3 wt fl rw
      consider e where "ex = Loop_return (Inl e)" "el' = el5" "r5 = Inl e \<or> res = Inl e"
        | v u where "u_run_loop k K E c3 v u = Some (ex, c', el', w')"
        by (cases r5; cases res) (auto split: option.splits)
      then show ?thesis
      proof cases
        case 1
        with same u_reactor_failure[OF fl rw, of e] show ?thesis by (simp add: u_exit_ok_def)
      qed (rule Suc.IH)
    qed
  qed
qed simp

text \<open>
  How \<^verbatim>\<open>uring_event_loop::run\<close> ends: with success only if a stop was requested or nothing is left, and
  then every submission has reached the kernel; with an error only if one was recorded, the reactor
  failed to submit or to wait, or root tasks are active while none is ready and nothing is waited for.
\<close>

theorem u_run_outcome:
  assumes "uring_loop_valid el" "u_run fuel K E c el w = Some (r, c', el', w')"
  shows "case r of
      Inr _ \<Rightarrow> u_loop_error el' = None \<and> \<not> submission_pending el' \<and> (u_stop_requested el' \<or> u_nothing_left el')
    | Inl e \<Rightarrow> u_loop_error el' = Some e \<or> u_exit_ok K (Loop_return (Inl e)) el'"
proof -
  obtain ex c1 el1 w1 where l: "u_run_loop fuel K E c (el\<lparr>u_stop_requested := False, u_loop_error := None\<rparr>) w
      = Some (ex, c1, el1, w1)"
    using assms by (auto simp: u_run_def split: option.splits)
  note ok = u_run_loop_exit[OF l]
  show ?thesis
  proof (cases ex)
    case Loop_break
    obtain c2 el2 where cl: "u_cleanup_completed_roots E c1 el1 = (c2, el2)" by fastforce
    obtain r3 el3 w2 where fl: "flush_submissions K el2 w1 = (r3, el3, w2)" by (metis prod_cases3)
    obtain b where el3: "el3 = el2\<lparr>submission_pending := b\<rparr>" "r3 = Inr () \<Longrightarrow> \<not> b"
      using flush_submissions_frame[OF fl] by blast
    have "u_loop_error el2 = u_loop_error el1" "u_stop_requested el2 = u_stop_requested el1"
      "u_nothing_left el2 = u_nothing_left el1"
      using cl by (auto simp: u_cleanup_completed_roots_def u_nothing_left_def split: prod.splits)
    moreover have "u_nothing_left el3 = u_nothing_left el2" "u_loop_error el3 = u_loop_error el2"
      "u_stop_requested el3 = u_stop_requested el2" "submission_pending el3 = b" using el3 by (simp_all add: u_nothing_left_def)
    moreover have "u_stop_requested el1 \<or> u_loop_error el1 \<noteq> None \<or> u_nothing_left el1"
      using ok Loop_break by (simp add: u_exit_ok_def)
    ultimately show ?thesis using assms l Loop_break cl fl el3(2)
      by (cases r3) (auto simp: u_run_def Let_def split: option.splits if_splits)
  next
    case (Loop_return r')
    with assms l ok show ?thesis by (auto simp: u_run_def u_exit_ok_def split: sum.splits if_splits)
  qed
qed

subsection \<open>Construction\<close>

lemma u_construct_cases:
  assumes "uring_loop_construct K depth w = (el, w')" "uring_loop_valid el"
  obtains r a t el3 e4 where "allocate_token (fresh_uring_loop\<lparr>u_reactor := r, u_wake_fd := make_fd a\<rparr>) = (t, el3)"
    "el = (el3\<lparr>wake_token := t, submission_pending := e4\<rparr>)\<lparr>submission_pending := False\<rparr>"
proof -
  obtain r w1 where cr: "uring_create K depth w = (Inr r, w1)"
    using assms by (auto simp: uring_loop_construct_def uring_loop_valid_def split: sum.splits prod.splits)
  let ?a = "fst (sys K Eventfd w1)" and ?w2 = "snd (sys K Eventfd w1)"
  let ?el2 = "fresh_uring_loop\<lparr>u_reactor := r, u_wake_fd := make_fd (a_ret ?a)\<rparr>"
  obtain t el3 where tok: "allocate_token ?el2 = (t, el3)" by fastforce
  let ?el4 = "el3\<lparr>wake_token := t\<rparr>"
  obtain r5 el5 w3 where add: "queue_poll_add K t (fd_get (u_wake_fd ?el4)) kReadPollMask ?el4 ?w2 = (r5, el5, w3)"
    by (metis prod_cases3)
  obtain r6 el6 w4 where fl: "flush_submissions K el5 w3 = (r6, el6, w4)" by (metis prod_cases3)
  have "el = el6 \<and> r6 = Inr ()"
    using assms cr tok add fl
    by (auto simp: uring_loop_construct_def uring_loop_valid_def Let_def case_prod_beta split: sum.splits if_splits)
  moreover have "el5 = ?el4\<lparr>submission_pending := submission_pending el5\<rparr>" using add by (rule queue_poll_add_frame)
  moreover obtain b where "el6 = el5\<lparr>submission_pending := b\<rparr>" "r6 = Inr () \<Longrightarrow> \<not> b"
    using flush_submissions_frame[OF fl] by blast
  ultimately show thesis using that[OF tok, of "submission_pending el5"] by (metis (full_types))
qed

lemma u_construct_idle:
  assumes "uring_loop_construct K depth w = (el, w')" "uring_loop_valid el"
  shows "u_only_roots E c [] el"
proof -
  from u_construct_cases[OF assms] obtain r a t el3 b where
    tok: "allocate_token (fresh_uring_loop\<lparr>u_reactor := r, u_wake_fd := make_fd a\<rparr>) = (t, el3)"
    and el: "el = (el3\<lparr>wake_token := t, submission_pending := b\<rparr>)\<lparr>submission_pending := False\<rparr>" by metis
  from tok have "\<exists>nt. el3 = fresh_uring_loop\<lparr>u_reactor := r, u_wake_fd := make_fd a, next_token := nt\<rparr>"
    by (rule allocate_token_ok[OF fresh_uring_loop_inv]) auto
  then show ?thesis by (auto simp: el u_only_roots_def fresh_uring_loop_def)
qed

end
