(* ===== verification/Engine.thy ===== *)
theory Engine
  imports Task_Claims Uring_Event_Loop_Props
begin

section \<open>The engine and the I/O context\<close>

text \<open>
  \<^verbatim>\<open>runtime/engine.hpp\<close>, \<^verbatim>\<open>engine.cpp\<close> and \<^verbatim>\<open>io_context.hpp\<close>: an owner of one event loop of either kind.
  The two loops are \<^verbatim>\<open>std::optional\<close> members; \<^verbatim>\<open>this\<close> of the loop, the \<^verbatim>\<open>scheduler*\<close> its tasks are
  given, is the number \<open>self\<close>. Coroutines run on one of two environments, according to the loop
  that resumes them.
\<close>

datatype backend = Epoll | Io_uring

record engine =
  eng_backend :: backend
  eng_epoll :: "event_loop option"
  eng_uring :: "uring_loop option"

definition engine_construct :: "kernel \<Rightarrow> backend \<Rightarrow> 32 word \<Rightarrow> world \<Rightarrow> engine \<times> world" where
  "engine_construct K choice depth w =
     (let g = \<lparr>eng_backend = choice, eng_epoll = None, eng_uring = None\<rparr>
      in if eng_backend g = Epoll
         then let (el, w1) = event_loop_construct K w in (g\<lparr>eng_epoll := Some el\<rparr>, w1)
         else let (el, w1) = uring_loop_construct K depth w in (g\<lparr>eng_uring := Some el\<rparr>, w1))"

definition engine_selected_backend :: "engine \<Rightarrow> backend" where
  "engine_selected_backend g = eng_backend g"

definition engine_valid :: "engine \<Rightarrow> bool" where
  "engine_valid g =
     (case eng_epoll g of
        Some el \<Rightarrow> loop_valid el
      | None \<Rightarrow> (case eng_uring g of Some el \<Rightarrow> uring_loop_valid el | None \<Rightarrow> False))"

definition engine_run ::
    "nat \<Rightarrow> kernel \<Rightarrow> ('c, event_loop) coro_env \<Rightarrow> ('c, uring_loop) coro_env \<Rightarrow> 'c \<Rightarrow> engine \<Rightarrow> world
       \<Rightarrow> (unit result \<times> 'c \<times> engine \<times> world) option" where
  "engine_run fuel K E U c g w =
     (case eng_epoll g of
        Some el \<Rightarrow> map_option (\<lambda>(r, c1, el1, w1). (r, c1, g\<lparr>eng_epoll := Some el1\<rparr>, w1)) (run fuel K E c el w)
      | None \<Rightarrow>
          (case eng_uring g of
             Some el \<Rightarrow> map_option (\<lambda>(r, c1, el1, w1). (r, c1, g\<lparr>eng_uring := Some el1\<rparr>, w1)) (u_run fuel K U c el w)
           | None \<Rightarrow> Some (errno_error EINVAL, c, g, w)))"

definition engine_stop :: "nat \<Rightarrow> kernel \<Rightarrow> engine \<Rightarrow> world \<Rightarrow> (engine \<times> world) option" where
  "engine_stop fuel K g w =
     (case eng_epoll g of
        Some el \<Rightarrow> map_option (\<lambda>(el1, w1). (g\<lparr>eng_epoll := Some el1\<rparr>, w1)) (stop fuel K el w)
      | None \<Rightarrow>
          (case eng_uring g of
             Some el \<Rightarrow> map_option (\<lambda>(el1, w1). (g\<lparr>eng_uring := Some el1\<rparr>, w1)) (u_stop fuel K el w)
           | None \<Rightarrow> Some (g, w)))"

text \<open>
  The loops' \<^verbatim>\<open>spawn\<close>, from the task on: take the handle out of the task, tell its promise the
  scheduler and that it is a root, and hand the handle to the loop.
\<close>

definition adopt_root :: "nat \<Rightarrow> co_handle \<Rightarrow> 'v coros \<Rightarrow> 'v coros" where
  "adopt_root self h c =
     (if h = null_handle then c
      else c\<lparr>frames := (frames c)(h := map_option (set_scheduler self True) (frames c h))\<rparr>)"

definition loop_spawn_task ::
    "nat \<Rightarrow> task \<Rightarrow> 'v coros \<Rightarrow> event_loop \<Rightarrow> task \<times> 'v coros \<times> event_loop" where
  "loop_spawn_task self t c el =
     (let (h, t1) = task_release t in (t1, adopt_root self h c, spawn h el))"

definition uring_spawn_task ::
    "nat \<Rightarrow> task \<Rightarrow> 'v coros \<Rightarrow> uring_loop \<Rightarrow> task \<times> 'v coros \<times> uring_loop" where
  "uring_spawn_task self t c el =
     (let (h, t1) = task_release t in (t1, adopt_root self h c, u_spawn h el))"

definition engine_spawn :: "nat \<Rightarrow> task \<Rightarrow> 'v coros \<Rightarrow> engine \<Rightarrow> task \<times> 'v coros \<times> engine" where
  "engine_spawn self t c g =
     (case eng_epoll g of
        Some el \<Rightarrow> (let (t1, c1, el1) = loop_spawn_task self t c el in (t1, c1, g\<lparr>eng_epoll := Some el1\<rparr>))
      | None \<Rightarrow>
          (case eng_uring g of
             Some el \<Rightarrow> (let (t1, c1, el1) = uring_spawn_task self t c el in (t1, c1, g\<lparr>eng_uring := Some el1\<rparr>))
           | None \<Rightarrow> (t, c, g)))"

subsection \<open>The I/O context\<close>

record io_context =
  ctx_engine :: engine

definition io_context_construct :: "kernel \<Rightarrow> backend \<Rightarrow> 32 word \<Rightarrow> world \<Rightarrow> io_context \<times> world" where
  "io_context_construct K choice depth w =
     (let (g, w1) = engine_construct K choice depth w in (\<lparr>ctx_engine = g\<rparr>, w1))"

definition io_context_valid :: "io_context \<Rightarrow> bool" where
  "io_context_valid x = engine_valid (ctx_engine x)"

definition io_context_selected_backend :: "io_context \<Rightarrow> backend" where
  "io_context_selected_backend x = engine_selected_backend (ctx_engine x)"

definition io_context_spawn :: "nat \<Rightarrow> task \<Rightarrow> 'v coros \<Rightarrow> io_context \<Rightarrow> task \<times> 'v coros \<times> io_context" where
  "io_context_spawn self t c x =
     (let (t1, c1, g) = engine_spawn self t c (ctx_engine x) in (t1, c1, x\<lparr>ctx_engine := g\<rparr>))"

definition io_context_run ::
    "nat \<Rightarrow> kernel \<Rightarrow> ('c, event_loop) coro_env \<Rightarrow> ('c, uring_loop) coro_env \<Rightarrow> 'c \<Rightarrow> io_context \<Rightarrow> world
       \<Rightarrow> (unit result \<times> 'c \<times> io_context \<times> world) option" where
  "io_context_run fuel K E U c x w =
     map_option (\<lambda>(r, c1, g, w1). (r, c1, x\<lparr>ctx_engine := g\<rparr>, w1)) (engine_run fuel K E U c (ctx_engine x) w)"

definition io_context_stop :: "nat \<Rightarrow> kernel \<Rightarrow> io_context \<Rightarrow> world \<Rightarrow> (io_context \<times> world) option" where
  "io_context_stop fuel K x w =
     map_option (\<lambda>(g, w1). (x\<lparr>ctx_engine := g\<rparr>, w1)) (engine_stop fuel K (ctx_engine x) w)"

subsection \<open>The selected loop, and only it\<close>

text \<open>
  What can happen to a context: it is constructed, given tasks, run and stopped, in any order. The
  frames may change in between in any way.
\<close>

inductive context_reachable ::
    "kernel \<Rightarrow> ('v coros, event_loop) coro_env \<Rightarrow> ('v coros, uring_loop) coro_env \<Rightarrow> backend
       \<Rightarrow> 'v coros \<Rightarrow> io_context \<Rightarrow> world \<Rightarrow> bool" for K E U b where
  cr_construct: "io_context_construct K b depth w = (x, w1) \<Longrightarrow> context_reachable K E U b c x w1"
| cr_spawn: "context_reachable K E U b c x w \<Longrightarrow> io_context_spawn self t c x = (t1, c1, x1) \<Longrightarrow>
     context_reachable K E U b c2 x1 w"
| cr_run: "context_reachable K E U b c x w \<Longrightarrow> io_context_run fuel K E U c x w = Some (r, c1, x1, w1) \<Longrightarrow>
     context_reachable K E U b c2 x1 w1"
| cr_stop: "context_reachable K E U b c x w \<Longrightarrow> io_context_stop fuel K x w = Some (x1, w1) \<Longrightarrow>
     context_reachable K E U b c2 x1 w1"

definition engine_ok ::
    "kernel \<Rightarrow> ('v coros, event_loop) coro_env \<Rightarrow> ('v coros, uring_loop) coro_env \<Rightarrow> backend \<Rightarrow> engine \<Rightarrow> world \<Rightarrow> bool"
  where
  "engine_ok K E U b g w = (eng_backend g = b \<and>
     (case b of
        Epoll \<Rightarrow> \<exists>el. eng_epoll g = Some el \<and> eng_uring g = None \<and> (\<forall>c. loop_reachable K E c el w)
      | Io_uring \<Rightarrow> \<exists>el. eng_uring g = Some el \<and> eng_epoll g = None \<and> (\<forall>c. uring_reachable K U c el w)))"

lemma loop_reachable_frames: "loop_reachable K E c el w \<Longrightarrow> loop_reachable K E c' el w"
  using cl_call[of w w] by (blast intro: lr_client)

lemma uring_reachable_frames: "uring_reachable K E c el w \<Longrightarrow> uring_reachable K E c' el w"
  using ucl_call[of w w] by (blast intro: ur_client)

lemma engine_construct_ok: "engine_construct K b depth w = (g, w1) \<Longrightarrow> engine_ok K E U b g w1"
  by (auto simp: engine_construct_def engine_ok_def Let_def intro: lr_construct ur_construct
      split: prod.splits if_splits backend.splits)

lemma engine_spawn_ok:
  assumes "engine_ok K E U b g w" "engine_spawn self t c g = (t1, c1, g1)"
  shows "engine_ok K E U b g1 w"
  using assms lr_client[OF _ cl_spawn] ur_client[OF _ ucl_spawn]
  by (fastforce simp: engine_spawn_def engine_ok_def loop_spawn_task_def uring_spawn_task_def task_release_def
      split: backend.splits)

lemma engine_run_ok:
  assumes "engine_ok K E U b g w" "engine_run fuel K E U c g w = Some (r, c1, g1, w1)"
  shows "engine_ok K E U b g1 w1"
proof (cases b)
  case Epoll
  with assms obtain el el1 where "eng_epoll g = Some el" "\<forall>c. loop_reachable K E c el w"
    "run fuel K E c el w = Some (r, c1, el1, w1)" "g1 = g\<lparr>eng_epoll := Some el1\<rparr>"
    by (auto simp: engine_run_def engine_ok_def)
  then show ?thesis using assms(1) Epoll loop_reachable_frames[OF lr_run] by (fastforce simp: engine_ok_def)
next
  case Io_uring
  with assms obtain el el1 where "eng_uring g = Some el" "\<forall>c. uring_reachable K U c el w"
    "u_run fuel K U c el w = Some (r, c1, el1, w1)" "g1 = g\<lparr>eng_uring := Some el1\<rparr>"
    by (auto simp: engine_run_def engine_ok_def)
  then show ?thesis using assms(1) Io_uring uring_reachable_frames[OF ur_run] by (fastforce simp: engine_ok_def)
qed

lemma engine_stop_ok:
  assumes "engine_ok K E U b g w" "engine_stop fuel K g w = Some (g1, w1)"
  shows "engine_ok K E U b g1 w1"
  using assms lr_client[OF _ cl_stop] ur_client[OF _ ucl_stop]
  by (fastforce simp: engine_stop_def engine_ok_def split: backend.splits)

lemma context_reachable_ok: "context_reachable K E U b c x w \<Longrightarrow> engine_ok K E U b (ctx_engine x) w"
  by (induction rule: context_reachable.induct)
    (auto simp: io_context_construct_def io_context_spawn_def io_context_run_def io_context_stop_def
      intro: engine_construct_ok engine_spawn_ok engine_run_ok engine_stop_ok split: prod.splits)


definition idle_env :: "('v coros, 'l) coro_env" where
  "idle_env = \<lparr>co_done = (\<lambda>c h. frame_done h c), co_resume = (\<lambda>h c el w. (c, el, w)), co_destroy = destroy_frame\<rparr>"


subsection \<open>From tasks to completion\<close>

text \<open>
  A program that calls coroutine functions, spawns the tasks and runs the context. The coroutines
  run from their initial suspension to their end without waiting; \<open>body h\<close> is what the one at \<open>h\<close>
  returns or throws.
\<close>

definition finish_frame :: "task_exn + 'v \<Rightarrow> 'v promise \<Rightarrow> 'v promise" where
  "finish_frame out p =
     (case out of Inl e \<Rightarrow> unhandled_exception e p | Inr v \<Rightarrow> return_value v p)\<lparr>pr_done := True\<rparr>"

definition straight_env ::
    "('l \<times> world) scheduler \<Rightarrow> (co_handle \<Rightarrow> task_exn + 'v) \<Rightarrow> ('v coros, 'l) coro_env" where
  "straight_env v body = \<lparr>co_done = (\<lambda>c h. frame_done h c),
     co_resume = (\<lambda>h c el w. case frames c h of
         None \<Rightarrow> (c, el, w)
       | Some p \<Rightarrow> final_await_suspend (\<lambda>_. v) (\<lambda>_ s. s) (finish_frame (body h) p)
           (c\<lparr>frames := (frames c)(h \<mapsto> finish_frame (body h) p)\<rparr>, el, w)),
     co_destroy = destroy_frame\<rparr>"

fun spawn_all :: "nat \<Rightarrow> co_handle list \<Rightarrow> 'v coros \<Rightarrow> io_context \<Rightarrow> 'v coros \<times> io_context" where
  "spawn_all self [] c x = (c, x)"
| "spawn_all self (h # hs) c x =
     (let (t, c1) = get_return_object h c;
          (t1, c2, x1) = io_context_spawn self t c1 x
      in spawn_all self hs (task_destroy t1 c2) x1)"

abbreviation root_promise :: "nat \<Rightarrow> 'v promise" where
  "root_promise self \<equiv> set_scheduler self True new_promise"

definition roots_left :: "nat \<Rightarrow> co_handle list \<Rightarrow> co_handle list \<Rightarrow> 'v coros \<Rightarrow> bool" where
  "roots_left self all hs c =
     (frames c = (\<lambda>h. if h \<in> set hs then Some (root_promise self) else None)
      \<and> (\<exists>ran. all = ran @ hs \<and> destroyed c = rev ran))"

lemma straight_env_completes:
  fixes body :: "co_handle \<Rightarrow> task_exn + 'v"
  assumes "self \<noteq> 0" "\<And>el w. on_task_completed_fn v (el, w) = (fin el, w)"
  shows "completes_roots (straight_env v body) fin (roots_left self all)"
  unfolding completes_roots_def
proof (intro allI impI)
  fix h hs w and c :: "'v coros" and el
  assume "roots_left self all (h # hs) c \<and> h \<notin> set hs"
  then obtain ran where c: "frames c = (\<lambda>h'. if h' \<in> set (h # hs) then Some (root_promise self) else None)"
    "all = ran @ h # hs" "destroyed c = rev ran" "h \<notin> set hs" by (auto simp: roots_left_def)
  let ?E = "straight_env v body" and ?p = "finish_frame (body h) (root_promise self)"
  let ?c1 = "c\<lparr>frames := (frames c)(h \<mapsto> ?p)\<rparr>"
  have p: "pr_tracked ?p" "pr_scheduler ?p = self" "pr_continuation ?p = 0" "pr_done ?p"
    by (simp_all add: finish_frame_def set_scheduler_def new_promise_def return_value_def unhandled_exception_def
        split: sum.splits)
  have "co_resume ?E h c el w = (?c1, fin el, w)"
    using c(1) p assms by (simp add: straight_env_def final_await_suspend_def)
  moreover have "co_done ?E ?c1 h" using p by (simp add: straight_env_def frame_done_def)
  moreover have "\<forall>h' \<in> set hs. co_done ?E (co_destroy ?E h ?c1) h' = co_done ?E c h'"
    using c(4) by (auto simp: straight_env_def frame_done_def destroy_frame_def)
  moreover have "roots_left self all hs (co_destroy ?E h ?c1)"
    using c by (auto simp: roots_left_def straight_env_def destroy_frame_def intro!: exI[of _ "ran @ [h]"])
  ultimately show "\<exists>c' w'. co_resume ?E h c el w = (c', fin el, w') \<and> co_done ?E c' h \<and>
      (\<forall>h' \<in> set hs. co_done ?E (co_destroy ?E h c') h' = co_done ?E c h') \<and>
      roots_left self all hs (co_destroy ?E h c')" by blast
qed

text \<open>Spawning all the handles of a list on the selected loop.\<close>

definition engine_spawned :: "co_handle list \<Rightarrow> engine \<Rightarrow> engine" where
  "engine_spawned hs g =
     (case eng_epoll g of
        Some el \<Rightarrow> g\<lparr>eng_epoll := Some (fold spawn hs el)\<rparr>
      | None \<Rightarrow> (case eng_uring g of Some el \<Rightarrow> g\<lparr>eng_uring := Some (fold u_spawn hs el)\<rparr> | None \<Rightarrow> g))"

lemma engine_spawn_fresh:
  assumes "h \<noteq> 0" "eng_epoll g \<noteq> None \<or> eng_uring g \<noteq> None"
  shows "engine_spawn self \<lparr>task_handle = h\<rparr> (c\<lparr>frames := (frames c)(h \<mapsto> new_promise)\<rparr>) g =
    (task_empty, c\<lparr>frames := (frames c)(h \<mapsto> root_promise self)\<rparr>, engine_spawned [h] g)"
  using assms by (auto simp: engine_spawn_def engine_spawned_def loop_spawn_task_def uring_spawn_task_def
      task_release_def adopt_root_def task_empty_def split: option.splits)

lemma engine_spawned_append:
  "engine_spawned hs (engine_spawned [h] g) = engine_spawned (h # hs) g"
  "eng_epoll (engine_spawned hs g) = None \<longleftrightarrow> eng_epoll g = None"
  "eng_epoll g = None \<Longrightarrow> eng_uring (engine_spawned hs g) = None \<longleftrightarrow> eng_uring g = None"
  by (auto simp: engine_spawned_def split: option.splits)

lemma spawn_all_effect:
  assumes "eng_epoll (ctx_engine x) \<noteq> None \<or> eng_uring (ctx_engine x) \<noteq> None" "0 \<notin> set hs"
  shows "spawn_all self hs c x =
    (c\<lparr>frames := (\<lambda>h. if h \<in> set hs then Some (root_promise self) else frames c h)\<rparr>,
     x\<lparr>ctx_engine := engine_spawned hs (ctx_engine x)\<rparr>)"
  using assms
proof (induction hs arbitrary: c x)
  case Nil
  then show ?case by (auto simp: engine_spawned_def split: option.splits)
next
  case (Cons h hs)
  let ?x1 = "x\<lparr>ctx_engine := engine_spawned [h] (ctx_engine x)\<rparr>"
  let ?c1 = "c\<lparr>frames := (frames c)(h \<mapsto> root_promise self)\<rparr>"
  have "spawn_all self (h # hs) c x = spawn_all self hs ?c1 ?x1"
    using Cons.prems engine_spawn_fresh[of h "ctx_engine x" self c]
    by (simp add: get_return_object_def io_context_spawn_def task_destroy_def task_empty_def)
  also have "\<dots> = (?c1\<lparr>frames := (\<lambda>h'. if h' \<in> set hs then Some (root_promise self) else frames ?c1 h')\<rparr>,
     ?x1\<lparr>ctx_engine := engine_spawned hs (ctx_engine ?x1)\<rparr>)"
    using Cons.prems engine_spawned_append(2)[of "[h]" "ctx_engine x"] engine_spawned_append(3)[of "ctx_engine x" "[h]"] by (intro Cons.IH) auto
  finally show ?case by (simp add: engine_spawned_append(1) fun_eq_iff del: spawn_all.simps cong: if_cong)
qed

lemma roots_spawned_only:
  assumes "only_roots E c ks el" "distinct (ks @ hs)" "0 \<notin> set hs" "\<forall>h \<in> set hs. \<not> co_done E c h"
  shows "only_roots E c (ks @ hs) (fold spawn hs el) \<and> (loop_valid (fold spawn hs el) = loop_valid el)"
  using assms
proof (induction hs arbitrary: ks el)
  case (Cons h hs)
  have "only_roots E c (ks @ [h]) (spawn h el)"
    using Cons.prems by (auto simp: only_roots_def spawn_def schedule_def)
  moreover have "loop_valid (spawn h el) = loop_valid el"
    using Cons.prems by (simp add: loop_valid_def spawn_def schedule_def)
  ultimately show ?case using Cons.IH[of "ks @ [h]" "spawn h el"] Cons.prems by simp
qed simp

lemma u_roots_spawned_only:
  assumes "u_only_roots E c ks el" "distinct (ks @ hs)" "0 \<notin> set hs" "\<forall>h \<in> set hs. \<not> co_done E c h"
  shows "u_only_roots E c (ks @ hs) (fold u_spawn hs el) \<and> (uring_loop_valid (fold u_spawn hs el) = uring_loop_valid el)"
  using assms
proof (induction hs arbitrary: ks el)
  case (Cons h hs)
  have "u_only_roots E c (ks @ [h]) (u_spawn h el)"
    using Cons.prems by (auto simp: u_only_roots_def u_spawn_def u_schedule_def)
  moreover have "uring_loop_valid (u_spawn h el) = uring_loop_valid el"
    using Cons.prems by (simp add: uring_loop_valid_def u_spawn_def u_schedule_def)
  ultimately show ?case using Cons.IH[of "ks @ [h]" "u_spawn h el"] Cons.prems by simp
qed simp

lemma construct_idle: "event_loop_construct K w = (el, w') \<Longrightarrow> only_roots E c [] el"
  by (auto simp: event_loop_construct_def fresh_loop_def only_roots_def Let_def
      split: prod.splits sum.splits if_splits)

definition roots_calm :: "io_context \<Rightarrow> bool" where
  "roots_calm x =
     (case eng_epoll (ctx_engine x) of
        Some el \<Rightarrow> root_tasks el = [] \<and> nothing_left el
      | None \<Rightarrow> (case eng_uring (ctx_engine x) of
                   Some el \<Rightarrow> u_root_tasks el = [] \<and> u_nothing_left el | None \<Rightarrow> False))"

lemma spawned_frames_live:
  assumes "c = \<lparr>frames = (\<lambda>h. if h \<in> set hs then Some (root_promise self) else None), destroyed = []\<rparr>"
  shows "\<forall>h \<in> set hs. \<not> co_done (straight_env v body) c h" "roots_left self hs hs c"
  by (simp_all add: assms straight_env_def frame_done_def set_scheduler_def new_promise_def roots_left_def)

lemma epoll_context_completes:
  assumes "engine_construct K Epoll depth w0 = (g, w1)" "engine_valid g" "never_stopped K" "self \<noteq> 0"
    and "distinct hs" "0 \<notin> set hs" "Suc (length hs) < fuel"
    and c: "c = \<lparr>frames = (\<lambda>h. if h \<in> set hs then Some (root_promise self) else None), destroyed = []\<rparr>"
  shows "\<exists>c' el w'. engine_run fuel K (straight_env (epoll_scheduler K) body) U c (engine_spawned hs g) w1
      = Some (Inr (), c', g\<lparr>eng_epoll := Some el\<rparr>, w') \<and> roots_left self hs [] c' \<and> root_tasks el = [] \<and> nothing_left el"
proof -
  let ?E = "straight_env (epoll_scheduler K) body"
  obtain el0 where el0: "event_loop_construct K w0 = (el0, w1)" "eng_epoll g = Some el0"
    using assms(1) by (auto simp: engine_construct_def Let_def split: prod.splits)
  let ?el = "fold spawn hs el0"
  note live = spawned_frames_live(1)[OF c, of "epoll_scheduler K" body]
  have roots: "only_roots ?E c hs ?el" "loop_valid ?el"
    using roots_spawned_only[OF construct_idle[OF el0(1)], of hs ?E c] assms(2,5,6) live el0(2)
    by (auto simp: engine_valid_def)
  have fin: "on_task_completed_fn (epoll_scheduler K) (el, w) = (on_task_completed el, w)" for el w
    by (simp add: epoll_scheduler_def)
  from run_completes_aux[OF straight_env_completes[where body = body, OF assms(4) fin] assms(3) roots(2,1) spawned_frames_live(2)[OF c] assms(7), of w1]
  obtain c' el' w' where "run fuel K ?E c ?el w1 = Some (Inr (), c', el', w')" "only_roots ?E c' [] el'"
    "roots_left self hs [] c'" by blast
  then show ?thesis
    by (auto simp: engine_run_def engine_spawned_def el0(2) only_roots_def nothing_left_def)
qed

lemma uring_context_completes:
  assumes "engine_construct K Io_uring depth w0 = (g, w1)" "engine_valid g" "never_stopped K" "self \<noteq> 0"
    and "distinct hs" "0 \<notin> set hs" "Suc (length hs) < fuel"
    and c: "c = \<lparr>frames = (\<lambda>h. if h \<in> set hs then Some (root_promise self) else None), destroyed = []\<rparr>"
  shows "\<exists>c' el w'. engine_run fuel K E (straight_env (uring_scheduler K) body) c (engine_spawned hs g) w1
      = Some (Inr (), c', g\<lparr>eng_uring := Some el\<rparr>, w') \<and> roots_left self hs [] c' \<and> u_root_tasks el = [] \<and> u_nothing_left el"
proof -
  let ?U = "straight_env (uring_scheduler K) body"
  obtain el0 where el0: "uring_loop_construct K depth w0 = (el0, w1)" "eng_uring g = Some el0" "eng_epoll g = None"
    using assms(1) by (auto simp: engine_construct_def Let_def split: prod.splits)
  have valid: "uring_loop_valid el0" using assms(2) el0 by (simp add: engine_valid_def)
  let ?el = "fold u_spawn hs el0"
  note live = spawned_frames_live(1)[OF c, of "uring_scheduler K" body]
  have roots: "u_only_roots ?U c hs ?el" "uring_loop_valid ?el"
    using u_roots_spawned_only[OF u_construct_idle[OF el0(1) valid], of hs ?U c] assms(5,6) live valid by auto
  have fin: "on_task_completed_fn (uring_scheduler K) (el, w) = (u_on_task_completed el, w)" for el w
    by (simp add: uring_scheduler_def)
  from u_run_completes[OF straight_env_completes[where body = body, OF assms(4) fin] assms(3) roots(2,1) spawned_frames_live(2)[OF c] assms(7), of w1]
  obtain c' el' w' where "u_run fuel K ?U c ?el w1 = Some (Inr (), c', el', w')" "u_only_roots ?U c' [] el'"
    "roots_left self hs [] c'" by blast
  then show ?thesis
    by (auto simp: engine_run_def engine_spawned_def el0(2,3) u_only_roots_def u_nothing_left_def)
qed

lemma context_runs_to_completion:
  assumes "io_context_construct K b depth w0 = (x0, w1)" "io_context_valid x0" "never_stopped K"
    and "distinct hs" "0 \<notin> set hs" "self \<noteq> 0" "length hs + 2 \<le> fuel"
    and "spawn_all self hs \<lparr>frames = Map.empty, destroyed = []\<rparr> x0 = (c, x)"
  shows "\<exists>c' x' w'. io_context_run fuel K (straight_env (epoll_scheduler K) body) (straight_env (uring_scheduler K) body) c x w1
      = Some (Inr (), c', x', w')
    \<and> frames c' = Map.empty \<and> destroyed c' = rev hs \<and> roots_calm x'"
proof -
  let ?E = "straight_env (epoll_scheduler K) body" and ?U = "straight_env (uring_scheduler K) body"
  let ?g = "ctx_engine x0"
  have g: "engine_construct K b depth w0 = (?g, w1)" "engine_valid ?g"
    using assms(1,2) by (auto simp: io_context_construct_def io_context_valid_def split: prod.splits)
  have some: "eng_epoll ?g \<noteq> None \<or> eng_uring ?g \<noteq> None" using g(2) by (auto simp: engine_valid_def split: option.splits)
  have c: "c = \<lparr>frames = (\<lambda>h. if h \<in> set hs then Some (root_promise self) else None), destroyed = []\<rparr>"
    and x: "x = x0\<lparr>ctx_engine := engine_spawned hs ?g\<rparr>"
    using assms(8) unfolding spawn_all_effect[OF some assms(5)] by (auto cong: if_cong)
  have fuel: "Suc (length hs) < fuel" using assms(7) by simp
  have "\<exists>c' g' w'. engine_run fuel K ?E ?U c (engine_spawned hs ?g) w1 = Some (Inr (), c', g', w')
      \<and> roots_left self hs [] c' \<and> roots_calm (x\<lparr>ctx_engine := g'\<rparr>)"
  proof (cases b)
    case Epoll
    with epoll_context_completes[OF _ g(2) assms(3,6,4,5) fuel c, of depth w0 w1 body ?U] g(1)
    show ?thesis by (fastforce simp: roots_calm_def)
  next
    case Io_uring
    moreover from Io_uring have "eng_epoll ?g = None"
      using g(1) by (auto simp: engine_construct_def Let_def split: prod.splits dest!: sym[of _ ?g])
    ultimately show ?thesis
      using uring_context_completes[OF _ g(2) assms(3,6,4,5) fuel c, of depth w0 w1 ?E body] g(1)
      by (fastforce simp: roots_calm_def)
  qed
  then show ?thesis by (fastforce simp: x io_context_run_def roots_left_def)
qed


text \<open>A kernel on which both loops can be constructed.\<close>

definition both_kernel :: kernel where
  "both_kernel tr c = (if c \<in> {New_ring, Uring_get_sqe} then ok_answer\<lparr>a_ptr := True\<rparr>
     else if c = Uring_submit then ok_answer\<lparr>a_ret := 1\<rparr> else demo_kernel tr c)"

definition demo_body :: "co_handle \<Rightarrow> task_exn + int" where
  "demo_body h = (if h = 21 then Inr 5 else Inl (Thrown 1))"

definition demo_program :: "backend \<Rightarrow> (unit result \<times> int coros \<times> io_context \<times> world) option" where
  "demo_program b =
     (let (x0, w) = io_context_construct both_kernel b 8 init_world;
          (c, x) = spawn_all 1 [21, 22] \<lparr>frames = Map.empty, destroyed = []\<rparr> x0
      in io_context_run 4 both_kernel (straight_env (epoll_scheduler both_kernel) demo_body)
           (straight_env (uring_scheduler both_kernel) demo_body) c x w)"


end
