(* ===== verification/Task_Void.thy ===== *)
theory Task_Void
  imports Engine
begin

section \<open>Tasks without a value\<close>

text \<open>
  The specialisation \<^verbatim>\<open>task<void>\<close> of \<^verbatim>\<open>runtime/task.hpp\<close>, which repeats the class \<^verbatim>\<open>task<T>\<close> with a promise that
  stores no value. It is modelled from its own lines, over frames of its own, and then related to \<^verbatim>\<open>task<T>\<close> at
  the type with one value: \<open>as_unit\<close> gives a finished frame that value. Programs of task operations, and
  awaiting, are the same through \<open>as_unit\<close>, except that \<^verbatim>\<open>task<void>\<close> does not notice a child that has not finished.
\<close>

subsection \<open>The promise\<close>

record void_promise =
  vp_scheduler :: nat
  vp_continuation :: co_handle
  vp_tracked :: bool
  vp_exception :: "task_exn option"
  vp_done :: bool

record void_coros =
  v_frames :: "co_handle \<rightharpoonup> void_promise"
  v_destroyed :: "co_handle list"

record void_task =
  vt_handle :: co_handle

definition void_get_return_object :: "co_handle \<Rightarrow> void_coros \<Rightarrow> void_task \<times> void_coros" where
  "void_get_return_object h c = (\<lparr>vt_handle = h\<rparr>, c\<lparr>v_frames := (v_frames c)(h \<mapsto>
     \<lparr>vp_scheduler = 0, vp_continuation = null_handle, vp_tracked = False, vp_exception = None, vp_done = False\<rparr>)\<rparr>)"

definition return_void :: "void_promise \<Rightarrow> void_promise" where
  "return_void p = p"

definition void_unhandled_exception :: "task_exn \<Rightarrow> void_promise \<Rightarrow> void_promise" where
  "void_unhandled_exception e p = p\<lparr>vp_exception := Some e\<rparr>"

definition void_consume_result :: "void_promise \<Rightarrow> task_exn + unit" where
  "void_consume_result p = (case vp_exception p of Some e \<Rightarrow> Inl e | None \<Rightarrow> Inr ())"

subsection \<open>The owner\<close>

definition void_destroy_frame :: "co_handle \<Rightarrow> void_coros \<Rightarrow> void_coros" where
  "void_destroy_frame h c = c\<lparr>v_frames := (v_frames c)(h := None), v_destroyed := h # v_destroyed c\<rparr>"

definition void_frame_done :: "co_handle \<Rightarrow> void_coros \<Rightarrow> bool" where
  "void_frame_done h c = (case v_frames c h of None \<Rightarrow> False | Some p \<Rightarrow> vp_done p)"

definition void_task_empty :: void_task where
  "void_task_empty = \<lparr>vt_handle = null_handle\<rparr>"

definition void_task_valid :: "void_task \<Rightarrow> bool" where
  "void_task_valid t = (vt_handle t \<noteq> null_handle)"

definition void_task_done :: "void_task \<Rightarrow> void_coros \<Rightarrow> bool" where
  "void_task_done t c = (vt_handle t = null_handle \<or> void_frame_done (vt_handle t) c)"

definition void_release :: "void_task \<Rightarrow> co_handle \<times> void_task" where
  "void_release t = (vt_handle t, t\<lparr>vt_handle := null_handle\<rparr>)"

definition void_move_construct :: "void_task \<Rightarrow> void_task \<times> void_task" where
  "void_move_construct other = (\<lparr>vt_handle = vt_handle other\<rparr>, other\<lparr>vt_handle := null_handle\<rparr>)"

text \<open>Move assignment of two distinct objects; self-assignment does nothing.\<close>

definition void_move_assign :: "void_task \<Rightarrow> void_task \<Rightarrow> void_coros \<Rightarrow> void_task \<times> void_task \<times> void_coros" where
  "void_move_assign this other c =
     (this\<lparr>vt_handle := vt_handle other\<rparr>, other\<lparr>vt_handle := null_handle\<rparr>,
      if vt_handle this \<noteq> null_handle then void_destroy_frame (vt_handle this) c else c)"

definition void_task_destroy :: "void_task \<Rightarrow> void_coros \<Rightarrow> void_coros" where
  "void_task_destroy t c = (if vt_handle t \<noteq> null_handle then void_destroy_frame (vt_handle t) c else c)"

subsection \<open>Awaiting\<close>

record void_awaiter =
  va_handle :: co_handle

definition void_co_await :: "void_task \<Rightarrow> void_awaiter \<times> void_task" where
  "void_co_await t = (\<lparr>va_handle = vt_handle t\<rparr>, t\<lparr>vt_handle := null_handle\<rparr>)"

definition void_await_ready :: "void_awaiter \<Rightarrow> void_coros \<Rightarrow> bool" where
  "void_await_ready a c = (va_handle a = null_handle \<or> void_frame_done (va_handle a) c)"

definition void_await_suspend ::
    "(nat \<Rightarrow> 's scheduler) \<Rightarrow> (co_handle \<Rightarrow> void_coros \<times> 's \<Rightarrow> void_coros \<times> 's) \<Rightarrow> nat option
       \<Rightarrow> co_handle \<Rightarrow> void_awaiter \<Rightarrow> void_coros \<times> 's \<Rightarrow> bool \<times> void_coros \<times> 's" where
  "void_await_suspend V resume parent_sched awaiting a cs =
     (case cs of (c, s) \<Rightarrow>
        case v_frames c (va_handle a) of
          None \<Rightarrow> (False, c, s)
        | Some child \<Rightarrow>
            let child1 = child\<lparr>vp_continuation := awaiting\<rparr>;
                child2 = (case parent_sched of
                            None \<Rightarrow> child1
                          | Some v \<Rightarrow> if vp_scheduler child1 = 0
                                      then child1\<lparr>vp_scheduler := v, vp_tracked := False\<rparr> else child1);
                c1 = c\<lparr>v_frames := (v_frames c)(va_handle a \<mapsto> child2)\<rparr>
            in if vp_scheduler child2 \<noteq> 0
               then (True, c1, schedule_fn (V (vp_scheduler child2)) (va_handle a) s)
               else (False, resume (va_handle a) (c1, s)))"

definition void_await_resume :: "void_awaiter \<Rightarrow> void_coros \<Rightarrow> (task_exn + unit) \<times> void_awaiter \<times> void_coros" where
  "void_await_resume a c =
     (if va_handle a = null_handle then (Inl (Logic_error ''awaited task has no coroutine handle''), a, c)
      else case v_frames c (va_handle a) of
             None \<Rightarrow> (Inl (Logic_error ''awaited task has no coroutine handle''), a, c)
           | Some p \<Rightarrow>
               (case void_consume_result p of
                  Inl e \<Rightarrow> (Inl e, a, c)
                | Inr _ \<Rightarrow> (Inr (), a\<lparr>va_handle := null_handle\<rparr>, void_destroy_frame (va_handle a) c)))"

definition void_awaiter_destroy :: "void_awaiter \<Rightarrow> void_coros \<Rightarrow> void_coros" where
  "void_awaiter_destroy a c = (if va_handle a \<noteq> null_handle then void_destroy_frame (va_handle a) c else c)"

subsection \<open>Programs\<close>

text \<open>The operations of \<open>Task_Claims\<close> on objects of type \<^verbatim>\<open>task<void>\<close>.\<close>

record void_program =
  v_tasks :: "void_task list"
  v_released :: "co_handle list"
  v_coros :: void_coros

fun void_exec :: "task_op \<Rightarrow> void_program \<Rightarrow> void_program option" where
  "void_exec (T_call i h) p =
     (if i < length (v_tasks p) \<and> h \<noteq> null_handle \<and> v_frames (v_coros p) h = None
      then let (t, c1) = void_get_return_object h (v_coros p);
               (ti, t', c2) = void_move_assign (v_tasks p ! i) t c1
           in Some (p\<lparr>v_tasks := (v_tasks p)[i := ti], v_coros := void_task_destroy t' c2\<rparr>)
      else None)"
| "void_exec (T_move i j) p =
     (if i < length (v_tasks p) \<and> j < length (v_tasks p)
      then if i = j then Some p
           else let (ti, tj, c1) = void_move_assign (v_tasks p ! i) (v_tasks p ! j) (v_coros p)
                in Some (p\<lparr>v_tasks := (v_tasks p)[i := ti, j := tj], v_coros := c1\<rparr>)
      else None)"
| "void_exec (T_release i) p =
     (if i < length (v_tasks p)
      then let (h, t) = void_release (v_tasks p ! i)
           in Some (p\<lparr>v_tasks := (v_tasks p)[i := t], v_released := (if h \<noteq> 0 then h # v_released p else v_released p)\<rparr>)
      else None)"
| "void_exec (T_await i) p =
     (if i < length (v_tasks p)
      then let (a, t) = void_co_await (v_tasks p ! i);
               (r, a1, c1) = void_await_resume a (v_coros p)
           in Some (p\<lparr>v_tasks := (v_tasks p)[i := t], v_coros := void_awaiter_destroy a1 c1\<rparr>)
      else None)"
| "void_exec (T_destroy i) p =
     (if i < length (v_tasks p)
      then Some (p\<lparr>v_tasks := (v_tasks p)[i := void_task_empty], v_coros := void_task_destroy (v_tasks p ! i) (v_coros p)\<rparr>)
      else None)"

fun void_run :: "task_op list \<Rightarrow> void_program \<Rightarrow> void_program option" where
  "void_run [] p = Some p"
| "void_run (x # xs) p = (case void_exec x p of None \<Rightarrow> None | Some p1 \<Rightarrow> void_run xs p1)"

subsection \<open>As tasks with the one value\<close>

definition as_unit :: "void_promise \<Rightarrow> unit promise" where
  "as_unit p = \<lparr>pr_scheduler = vp_scheduler p, pr_continuation = vp_continuation p, pr_tracked = vp_tracked p,
     pr_value = (if vp_done p \<and> vp_exception p = None then Some () else None), pr_exception = vp_exception p,
     pr_done = vp_done p\<rparr>"

definition unit_coros :: "void_coros \<Rightarrow> unit coros" where
  "unit_coros c = \<lparr>frames = map_option as_unit \<circ> v_frames c, destroyed = v_destroyed c\<rparr>"

definition unit_task :: "void_task \<Rightarrow> task" where
  "unit_task t = \<lparr>task_handle = vt_handle t\<rparr>"

definition unit_awaiter :: "void_awaiter \<Rightarrow> awaiter" where
  "unit_awaiter a = \<lparr>aw_handle = va_handle a\<rparr>"

definition unit_program :: "void_program \<Rightarrow> unit task_program" where
  "unit_program p = \<lparr>tasks = map unit_task (v_tasks p), released = v_released p, coros = unit_coros (v_coros p)\<rparr>"

lemma unit_frame_ops [simp]:
  "frames (unit_coros c) h = map_option as_unit (v_frames c h)"
  "unit_coros (void_destroy_frame h c) = destroy_frame h (unit_coros c)"
  "frame_done h (unit_coros c) = void_frame_done h c"
  "unit_coros (c\<lparr>v_frames := (v_frames c)(h \<mapsto> p)\<rparr>) = (unit_coros c)\<lparr>frames := (frames (unit_coros c))(h \<mapsto> as_unit p)\<rparr>"
  by (auto simp: unit_coros_def void_destroy_frame_def destroy_frame_def void_frame_done_def frame_done_def as_unit_def fun_eq_iff
      split: option.splits)

lemma unit_update [simp]: "task_handle (unit_task t) = vt_handle t" "aw_handle (unit_awaiter a) = va_handle a"
  "unit_task (t\<lparr>vt_handle := h\<rparr>) = \<lparr>task_handle = h\<rparr>" "unit_task \<lparr>vt_handle = h\<rparr> = \<lparr>task_handle = h\<rparr>"
  by (simp_all add: unit_task_def unit_awaiter_def)

text \<open>The operations of the owner, through the abstraction.\<close>

lemma unit_ops:
  "get_return_object h (unit_coros c) = map_prod unit_task unit_coros (void_get_return_object h c)"
  "task_move_assign (unit_task t) (unit_task u) (unit_coros c)
     = map_prod unit_task (map_prod unit_task unit_coros) (void_move_assign t u c)"
  "task_move_construct (unit_task t) = map_prod unit_task unit_task (void_move_construct t)"
  "task_release (unit_task t) = map_prod id unit_task (void_release t)"
  "task_destroy (unit_task t) (unit_coros c) = unit_coros (void_task_destroy t c)"
  "co_await_task (unit_task t) = map_prod unit_awaiter unit_task (void_co_await t)"
  "aw_destroy (unit_awaiter a) (unit_coros c) = unit_coros (void_awaiter_destroy a c)"
  "task_valid (unit_task t) = void_task_valid t" "task_done (unit_task t) (unit_coros c) = void_task_done t c"
  "aw_await_ready (unit_awaiter a) (unit_coros c) = void_await_ready a c" "unit_task void_task_empty = task_empty"
  by (simp_all add: get_return_object_def void_get_return_object_def new_promise_def as_unit_def task_move_assign_def
      void_move_assign_def task_move_construct_def void_move_construct_def task_release_def void_release_def task_destroy_def
      void_task_destroy_def co_await_task_def void_co_await_def aw_destroy_def void_awaiter_destroy_def task_valid_def
      void_task_valid_def task_done_def void_task_done_def aw_await_ready_def void_await_ready_def task_empty_def
      void_task_empty_def unit_awaiter_def Let_def fun_eq_iff)

subsection \<open>Results and endings\<close>

text \<open>A coroutine that returns or throws, and suspends at its final point.\<close>

definition void_finish :: "task_exn + unit \<Rightarrow> void_promise \<Rightarrow> void_promise" where
  "void_finish out p = (case out of Inl e \<Rightarrow> void_unhandled_exception e p | Inr _ \<Rightarrow> return_void p)\<lparr>vp_done := True\<rparr>"

lemma finish_unit: "\<not> vp_done p \<Longrightarrow> vp_exception p = None \<Longrightarrow> as_unit (void_finish out p) = finish_frame out (as_unit p)"
  by (auto simp: void_finish_def finish_frame_def void_unhandled_exception_def unhandled_exception_def return_void_def
      return_value_def as_unit_def split: sum.splits)

lemma await_resume_unit:
  assumes "v_frames c (va_handle a) = Some q" "va_handle a \<noteq> 0" "void_await_resume a c = (r, a1, c1)"
  shows "vp_done q \<or> vp_exception q \<noteq> None \<Longrightarrow>
      aw_await_resume (unit_awaiter a) (unit_coros c) = (r, unit_awaiter a1, unit_coros c1)"
    and "\<not> vp_done q \<Longrightarrow> vp_exception q = None \<Longrightarrow>
      r = Inr () \<and> fst (aw_await_resume (unit_awaiter a) (unit_coros c)) = Inl (Logic_error ''task result is not available'')"
  using assms
  by (auto simp: void_await_resume_def aw_await_resume_def void_consume_result_def consume_result_def as_unit_def unit_awaiter_def
      split: option.splits)

text \<open>Whatever the result, the frame is gone at the end of the full expression.\<close>

lemma awaited_gone:
  "(case aw_await_resume (unit_awaiter a) (unit_coros c) of (r, a1, c1) \<Rightarrow> aw_destroy a1 c1)
    = unit_coros (case void_await_resume a c of (r, a1, c1) \<Rightarrow> void_awaiter_destroy a1 c1)"
  by (auto simp: void_await_resume_def aw_await_resume_def void_consume_result_def consume_result_def aw_destroy_def
      void_awaiter_destroy_def unit_awaiter_def split: option.splits sum.splits)

lemma await_suspend_unit:
  assumes "\<And>h cs. resume' h (map_prod unit_coros id cs) = map_prod unit_coros id (resume h cs)"
  shows "aw_await_suspend V resume' sched awaiting (unit_awaiter a) (unit_coros c, s)
    = map_prod id (map_prod unit_coros id) (void_await_suspend V resume sched awaiting a (c, s))"
proof (cases "v_frames c (va_handle a)")
  case (Some child)
  have base: "set_continuation h (as_unit q) = as_unit (q\<lparr>vp_continuation := h\<rparr>)"
    "set_scheduler v b (as_unit q) = as_unit (q\<lparr>vp_scheduler := v, vp_tracked := b\<rparr>)" "pr_scheduler (as_unit q) = vp_scheduler q" for h q v b
    by (simp_all add: set_continuation_def set_scheduler_def as_unit_def)
  have go: "resume' h ((unit_coros c)\<lparr>frames := (frames (unit_coros c))(va_handle a \<mapsto> as_unit q)\<rparr>, s)
      = map_prod unit_coros id (resume h (c\<lparr>v_frames := (v_frames c)(va_handle a \<mapsto> q)\<rparr>, s))" for h q
    using assms[of h "(c\<lparr>v_frames := (v_frames c)(va_handle a \<mapsto> q)\<rparr>, s)"] by simp
  show ?thesis
    by (cases sched) (auto simp: Some aw_await_suspend_def void_await_suspend_def base go Let_def)
qed (simp add: aw_await_suspend_def void_await_suspend_def)

lemma exec_unit: "task_exec x (unit_program p) = map_option unit_program (void_exec x p)"
proof (cases x)
  case (T_await i)
  show ?thesis
  proof (cases "i < length (v_tasks p)")
    case True
    obtain a t where co: "void_co_await (v_tasks p ! i) = (a, t)" by fastforce
    have "co_await_task (tasks (unit_program p) ! i) = (unit_awaiter a, unit_task t)"
      using True co unit_ops(6)[of "v_tasks p ! i"] by (simp add: unit_program_def)
    with True co awaited_gone[of a "v_coros p"] T_await show ?thesis
      by (simp add: unit_program_def case_prod_beta map_update)
  qed (simp add: T_await unit_program_def)
qed (auto simp: unit_program_def unit_ops map_update nth_append case_prod_beta Let_def)

lemma run_unit: "task_run ops (unit_program p) = map_option unit_program (void_run ops p)"
  by (induction ops arbitrary: p) (auto simp: exec_unit simp del: task_exec.simps void_exec.simps split: option.splits)

text \<open>
  C27. \<^verbatim>\<open>task<void>\<close> is \<^verbatim>\<open>task<T>\<close> at the type with one value. Every program of calls, moves, releases, awaits and
  destructions does the same to the frames; awaiting schedules or resumes the child in the same way; a
  coroutine that ends leaves the same promise; and resuming the parent of a finished child gives the same
  result and the same frames. Only for a child that has not finished they differ: \<^verbatim>\<open>task<T>\<close> throws, \<^verbatim>\<open>task<void>\<close>
  goes on as if it had.
\<close>

theorem void_task_equivalent:
  assumes "\<forall>h cs. resume' h (map_prod unit_coros id cs) = map_prod unit_coros id (resume h cs)"
  shows "task_run ops (unit_program p) = map_option unit_program (void_run ops p)
    \<and> aw_await_suspend V resume' sched awaiting (unit_awaiter a) (unit_coros c, s)
        = map_prod id (map_prod unit_coros id) (void_await_suspend V resume sched awaiting a (c, s))
    \<and> (\<not> vp_done q \<and> vp_exception q = None \<longrightarrow> as_unit (void_finish out q) = finish_frame out (as_unit q))
    \<and> (\<forall>q r a1 c1. v_frames c (va_handle a) = Some q \<and> va_handle a \<noteq> 0 \<and> void_await_resume a c = (r, a1, c1) \<longrightarrow>
         (if vp_done q \<or> vp_exception q \<noteq> None
          then aw_await_resume (unit_awaiter a) (unit_coros c) = (r, unit_awaiter a1, unit_coros c1)
          else r = Inr () \<and> fst (aw_await_resume (unit_awaiter a) (unit_coros c)) = Inl (Logic_error ''task result is not available'')))"
proof (intro conjI)
  show "aw_await_suspend V resume' sched awaiting (unit_awaiter a) (unit_coros c, s)
        = map_prod id (map_prod unit_coros id) (void_await_suspend V resume sched awaiting a (c, s))"
    by (rule await_suspend_unit) (use assms in blast)
qed (use run_unit finish_unit await_resume_unit[of c a] in auto)

definition void_idle :: void_coros where
  "void_idle = \<lparr>v_frames = Map.empty, v_destroyed = []\<rparr>"

theorem void_task_equivalent_witness:
  "let p = \<lparr>v_tasks = [void_task_empty, void_task_empty], v_released = [], v_coros = void_idle\<rparr>;
       ops = [T_call 0 5, T_call 1 6, T_move 0 1, T_await 0, T_call 1 7, T_release 1]
   in task_run ops (unit_program p) = map_option unit_program (void_run ops p)
      \<and> map_option (\<lambda>p. v_destroyed (v_coros p)) (void_run ops p) = Some [6, 5]"
proof -
  let ?p = "\<lparr>v_tasks = [void_task_empty, void_task_empty], v_released = [], v_coros = void_idle\<rparr>"
  let ?ops = "[T_call 0 5, T_call 1 6, T_move 0 1, T_await 0, T_call 1 7, T_release 1]"
  have "map_option (\<lambda>p. v_destroyed (v_coros p)) (void_run ?ops ?p) = Some [6, 5]" by code_simp
  with void_task_equivalent[of "\<lambda>h cs. cs" "\<lambda>h cs. cs" ?ops ?p undefined undefined undefined undefined undefined undefined undefined undefined]
  show ?thesis unfolding Let_def by blast
qed

end
