(* ===== verification/Command_Line.thy ===== *)
theory Command_Line
  imports Endpoint Engine
begin

section \<open>Numbers and options on the command line\<close>

text \<open>
  What the programs under \<^verbatim>\<open>src/example\<close> do with their arguments: \<^verbatim>\<open>std::strtoull\<close> and \<^verbatim>\<open>std::stoul\<close> as the C and
  C++ standards describe them for base ten, on 64-bit numbers, and the parsers built on them. The
  arguments are the list \<open>argv[1]\<close>, \<open>argv[2]\<close>, and so on; a parser that reports failure ends its program.
\<close>

subsection \<open>Reading a number\<close>

definition is_space :: "char \<Rightarrow> bool" where
  "is_space c = (c = CHR 0x20 \<or> (9 \<le> (of_char c :: nat) \<and> (of_char c :: nat) \<le> 13))"

text \<open>
  The subject sequence: blanks, an optional sign, digits. The result is the value, whether it was out
  of range, and the text at \<^verbatim>\<open>end\<close>; a sequence without digits is not converted, and \<^verbatim>\<open>end\<close> is the text
  itself. A minus sign negates the value modulo \<open>2^64\<close>.
\<close>

definition strtoull :: "string \<Rightarrow> 64 word \<times> bool \<times> string" where
  "strtoull text =
     (let t1 = dropWhile is_space text;
          neg = (t1 \<noteq> [] \<and> hd t1 = CHR ''-'');
          t2 = (if t1 \<noteq> [] \<and> hd t1 \<in> {CHR ''+'', CHR ''-''} then tl t1 else t1);
          ds = takeWhile is_digit t2;
          n = dec_value ds
      in if ds = [] then (0, False, text)
         else if 2 ^ 64 \<le> int n then (- 1, True, dropWhile is_digit t2)
         else (if neg then - of_nat n else of_nat n, False, dropWhile is_digit t2))"

text \<open>\<^verbatim>\<open>stoul\<close> throws, \<open>None\<close>, if nothing was converted or the value is out of range.\<close>

definition stoul :: "string \<Rightarrow> (64 word \<times> string) option" where
  "stoul text = (case strtoull text of (v, erange, rest) \<Rightarrow>
     if rest = text \<or> erange then None else Some (v, rest))"

text \<open>
  \<^verbatim>\<open>parse_positive_size\<close> of the three benchmarks, whose \<^verbatim>\<open>size_t\<close> and \<^verbatim>\<open>unsigned long long\<close> are both 64
  bits wide; \<open>None\<close> as an argument is a null pointer.
\<close>

definition parse_positive_size :: "string option \<Rightarrow> 64 word option" where
  "parse_positive_size arg =
     (case arg of
        None \<Rightarrow> None
      | Some text \<Rightarrow>
          if text = [] then None
          else case strtoull text of (parsed, erange, rest) \<Rightarrow>
            if erange \<or> rest = text \<or> rest \<noteq> [] \<or> parsed = 0 then None
            else if - 1 < parsed then None
            else Some parsed)"

definition parse_positive_u32 :: "string option \<Rightarrow> 32 word option" where
  "parse_positive_u32 arg =
     (case parse_positive_size arg of
        None \<Rightarrow> None
      | Some parsed \<Rightarrow> if 0xFFFFFFFF < parsed then None else Some (ucast parsed))"

text \<open>
  The port argument of the echo server and the echo client: the complaint it is answered with, or the
  port.
\<close>

abbreviation newline :: string where "newline \<equiv> [CHR 0x0A]"

definition parse_port_arg :: "string \<Rightarrow> string + 16 word" where
  "parse_port_arg text =
     (case stoul text of
        None \<Rightarrow> Inl (''invalid port argument'' @ newline)
      | Some (parsed, rest) \<Rightarrow>
          if rest \<noteq> [] then Inl (''invalid port argument'' @ newline)
          else if parsed = 0 \<or> 65535 < parsed then Inl (''port must be in range [1, 65535]'' @ newline)
          else Inr (ucast parsed))"

subsection \<open>Backends and modes\<close>

definition parse_backend :: "string \<Rightarrow> backend option" where
  "parse_backend arg =
     (if arg = ''epoll'' then Some Epoll else if arg = ''io_uring'' then Some Io_uring else None)"

definition backend_name :: "backend \<Rightarrow> string" where
  "backend_name b = (if b = Io_uring then ''io_uring'' else ''epoll'')"

datatype bench_mode = All | Alloc_only | Reuse_only

definition parse_mode :: "string \<Rightarrow> bench_mode option" where
  "parse_mode v =
     (if v = ''all'' then Some All else if v = ''alloc'' then Some Alloc_only
      else if v = ''reuse'' then Some Reuse_only else None)"

subsection \<open>Options\<close>

record options =
  iterations :: "64 word"
  payload_size :: "64 word"
  connections :: "64 word"

record async_options = options +
  opt_backend :: backend
  uring_queue_depth :: "32 word"

record churn_options =
  churn_iterations :: "64 word"
  churn_connections :: "64 word"

definition default_options :: options where
  "default_options = \<lparr>iterations = 2000, payload_size = 1024, connections = 8\<rparr>"

definition default_async_options :: async_options where
  "default_async_options = \<lparr>iterations = 2000, payload_size = 1024, connections = 8, opt_backend = Epoll,
     uring_queue_depth = 512\<rparr>"

definition default_churn_options :: churn_options where
  "default_churn_options = \<lparr>churn_iterations = 2000, churn_connections = 32\<rparr>"

text \<open>\<^verbatim>\<open>parse_args\<close> of the TCP echo, the asynchronous echo, the connection churn and the reactor benchmark.\<close>

fun parse_args_tcp :: "string list \<Rightarrow> options \<Rightarrow> options option" where
  "parse_args_tcp [] out = Some out"
| "parse_args_tcp (arg # rest) out =
     (if arg = ''--iterations'' \<and> rest \<noteq> [] then
        (case parse_positive_size (Some (hd rest)) of
           None \<Rightarrow> None | Some v \<Rightarrow> parse_args_tcp (tl rest) (out\<lparr>iterations := v\<rparr>))
      else if arg = ''--payload-size'' \<and> rest \<noteq> [] then
        (case parse_positive_size (Some (hd rest)) of
           None \<Rightarrow> None | Some v \<Rightarrow> parse_args_tcp (tl rest) (out\<lparr>payload_size := v\<rparr>))
      else if arg = ''--connections'' \<and> rest \<noteq> [] then
        (case parse_positive_size (Some (hd rest)) of
           None \<Rightarrow> None | Some v \<Rightarrow> parse_args_tcp (tl rest) (out\<lparr>connections := v\<rparr>))
      else None)"

fun parse_args_async :: "string list \<Rightarrow> async_options \<Rightarrow> async_options option" where
  "parse_args_async [] out = Some out"
| "parse_args_async (arg # rest) out =
     (if arg = ''--iterations'' \<and> rest \<noteq> [] then
        (case parse_positive_size (Some (hd rest)) of
           None \<Rightarrow> None | Some v \<Rightarrow> parse_args_async (tl rest) (out\<lparr>iterations := v\<rparr>))
      else if arg = ''--payload-size'' \<and> rest \<noteq> [] then
        (case parse_positive_size (Some (hd rest)) of
           None \<Rightarrow> None | Some v \<Rightarrow> parse_args_async (tl rest) (out\<lparr>payload_size := v\<rparr>))
      else if arg = ''--connections'' \<and> rest \<noteq> [] then
        (case parse_positive_size (Some (hd rest)) of
           None \<Rightarrow> None | Some v \<Rightarrow> parse_args_async (tl rest) (out\<lparr>connections := v\<rparr>))
      else if arg = ''--backend'' \<and> rest \<noteq> [] then
        (case parse_backend (hd rest) of
           None \<Rightarrow> None | Some v \<Rightarrow> parse_args_async (tl rest) (out\<lparr>opt_backend := v\<rparr>))
      else if arg = ''--uring-queue-depth'' \<and> rest \<noteq> [] then
        (case parse_positive_u32 (Some (hd rest)) of
           None \<Rightarrow> None | Some v \<Rightarrow> parse_args_async (tl rest) (out\<lparr>uring_queue_depth := v\<rparr>))
      else None)"

fun parse_args_churn :: "string list \<Rightarrow> churn_options \<Rightarrow> churn_options option" where
  "parse_args_churn [] out = Some out"
| "parse_args_churn (arg # rest) out =
     (if arg = ''--iterations'' \<and> rest \<noteq> [] then
        (case parse_positive_size (Some (hd rest)) of
           None \<Rightarrow> None | Some v \<Rightarrow> parse_args_churn (tl rest) (out\<lparr>churn_iterations := v\<rparr>))
      else if arg = ''--connections'' \<and> rest \<noteq> [] then
        (case parse_positive_size (Some (hd rest)) of
           None \<Rightarrow> None | Some v \<Rightarrow> parse_args_churn (tl rest) (out\<lparr>churn_connections := v\<rparr>))
      else None)"

fun parse_args_reactor :: "string list \<Rightarrow> 64 word \<Rightarrow> bench_mode \<Rightarrow> (64 word \<times> bench_mode) option" where
  "parse_args_reactor [] its mode = Some (its, mode)"
| "parse_args_reactor (arg # rest) its mode =
     (if arg = ''--mode'' then
        if rest = [] then None
        else (case parse_mode (hd rest) of None \<Rightarrow> None | Some m \<Rightarrow> parse_args_reactor (tl rest) its m)
      else (case stoul arg of
              None \<Rightarrow> None
            | Some (parsed, left) \<Rightarrow>
                if left \<noteq> [] \<or> parsed = 0 then None else parse_args_reactor rest parsed mode))"

text \<open>The check of the benchmarks' \<^verbatim>\<open>main\<close> that \<^verbatim>\<open>iterations * connections\<close> fits, and the totals they report.\<close>

definition product_fits :: "64 word \<Rightarrow> 64 word \<Rightarrow> bool" where
  "product_fits its conns = (\<not> (- 1) div conns < its)"

definition echoes :: "'a options_scheme \<Rightarrow> 64 word" where
  "echoes opts = iterations opts * connections opts"

definition total_bytes :: "'a options_scheme \<Rightarrow> 64 word" where
  "total_bytes opts = echoes opts * payload_size opts * 2"

definition listen_backlog :: "64 word \<Rightarrow> int" where
  "listen_backlog conns = sint (ucast (if 64 < conns then conns else 64) :: 32 word)"

subsection \<open>What is accepted\<close>

text \<open>
  The texts a number is read from: blanks, a sign and digits, with the value the program goes on
  with.
\<close>

definition number_text :: "string \<Rightarrow> 64 word \<Rightarrow> bool" where
  "number_text text v = (\<exists>bs sg ds. text = bs @ sg @ ds \<and> list_all is_space bs \<and> sg \<in> {[], ''+'', ''-''}
     \<and> ds \<noteq> [] \<and> list_all is_digit ds \<and> dec_value ds < 2 ^ 64
     \<and> v = (if sg = ''-'' then - of_nat (dec_value ds) else of_nat (dec_value ds)))"

lemma digit_not_blank: "is_digit c \<Longrightarrow> \<not> is_space c \<and> c \<noteq> CHR ''+'' \<and> c \<noteq> CHR ''-''"
  by (auto simp: is_digit_def is_space_def)

lemma sign_not_blank: "\<not> is_space CHR ''+''" "\<not> is_space CHR ''-''" "\<not> is_digit CHR ''+''" "\<not> is_digit CHR ''-''"
  by (simp_all add: is_space_def is_digit_def)

lemma strtoull_number:
  assumes "list_all is_space bs" "sg \<in> {[], ''+'', ''-''}" "ds \<noteq> []" "list_all is_digit ds"
  shows "strtoull (bs @ sg @ ds) =
    (if 2 ^ 64 \<le> dec_value ds then (- 1, True, [])
     else (if sg = ''-'' then - of_nat (dec_value ds) else of_nat (dec_value ds), False, []))"
proof -
  have ds: "takeWhile is_digit ds = ds" "dropWhile is_digit ds = []" "is_digit (hd ds)"
    using assms(3,4) by (auto simp: list_all_iff takeWhile_eq_all_conv dropWhile_eq_Nil_conv)
  have "dropWhile is_space (sg @ ds) = sg @ ds"
    using assms(2,3) digit_not_blank[OF ds(3)] sign_not_blank by (cases ds) auto
  then have front: "dropWhile is_space (bs @ sg @ ds) = sg @ ds"
    using assms(1) by (induction bs) auto
  have hd: "hd ds \<noteq> CHR ''+''" "hd ds \<noteq> CHR ''-''" using digit_not_blank[OF ds(3)] by blast+
  have fits: "2 ^ 64 \<le> int (dec_value ds) \<longleftrightarrow> 2 ^ 64 \<le> dec_value ds" by simp
  consider "sg = []" | "sg = ''+''" | "sg = ''-''" using assms(2) by blast
  then show ?thesis
    using front hd assms(3) by cases (simp_all add: strtoull_def Let_def ds(1,2) fits)
qed

lemma strtoull_converted:
  assumes "strtoull text = (v, e, [])" "text \<noteq> []"
  obtains bs sg ds where "text = bs @ sg @ ds" "list_all is_space bs" "sg \<in> {[], ''+'', ''-''}"
    "ds \<noteq> []" "list_all is_digit ds"
proof -
  define t1 where "t1 = dropWhile is_space text"
  define sg where "sg = (if t1 \<noteq> [] \<and> hd t1 \<in> {CHR ''+'', CHR ''-''} then [hd t1] else [])"
  define t2 where "t2 = (if t1 \<noteq> [] \<and> hd t1 \<in> {CHR ''+'', CHR ''-''} then tl t1 else t1)"
  have t1: "t1 = sg @ t2" by (auto simp: sg_def t2_def)
  have "takeWhile is_digit t2 \<noteq> [] \<and> dropWhile is_digit t2 = []"
    using assms unfolding strtoull_def Let_def t1_def[symmetric] t2_def[symmetric] by (auto split: if_splits)
  then have "t2 \<noteq> []" "list_all is_digit t2" by (auto simp: list_all_iff dropWhile_eq_Nil_conv)
  moreover have "text = takeWhile is_space text @ sg @ t2"
    using takeWhile_dropWhile_id[of is_space] t1 by (metis t1_def)
  moreover have "list_all is_space (takeWhile is_space text)" by (auto simp: list_all_iff dest: set_takeWhileD)
  moreover have "sg \<in> {[], ''+'', ''-''}" by (auto simp: sg_def)
  ultimately show thesis by (intro that)
qed

lemma number_text_nonempty: "number_text text v \<Longrightarrow> text \<noteq> []"
  by (auto simp: number_text_def)

lemma strtoull_number_text:
  assumes "text \<noteq> []"
  shows "strtoull text = (v, False, []) \<longleftrightarrow> number_text text v"
proof
  assume conv: "strtoull text = (v, False, [])"
  then obtain bs sg ds where parts: "text = bs @ sg @ ds" "list_all is_space bs" "sg \<in> {[], ''+'', ''-''}"
    "ds \<noteq> []" "list_all is_digit ds" using assms by (rule strtoull_converted)
  with strtoull_number[OF parts(2-5)] conv
  have "dec_value ds < 2 ^ 64" "v = (if sg = ''-'' then - of_nat (dec_value ds) else of_nat (dec_value ds))"
    by (auto split: if_splits)
  with parts show "number_text text v" unfolding number_text_def by blast
next
  assume "number_text text v"
  then obtain bs sg ds where "text = bs @ sg @ ds" "list_all is_space bs" "sg \<in> {[], ''+'', ''-''}"
    "ds \<noteq> []" "list_all is_digit ds" "dec_value ds < 2 ^ 64"
    "v = (if sg = ''-'' then - of_nat (dec_value ds) else of_nat (dec_value ds))" unfolding number_text_def by blast
  with strtoull_number[of bs sg ds] show "strtoull text = (v, False, [])" by simp
qed

theorem parse_positive_size_grammar:
  "parse_positive_size (Some text) = Some v \<longleftrightarrow> number_text text v \<and> v \<noteq> 0"
proof (cases "text = []")
  case True
  then show ?thesis using number_text_nonempty by (auto simp: parse_positive_size_def)
next
  case False
  have "\<not> - 1 < (parsed :: 64 word)" for parsed by (simp add: not_less)
  then have "parse_positive_size (Some text) = Some v \<longleftrightarrow> strtoull text = (v, False, []) \<and> v \<noteq> 0"
    using False by (auto simp: parse_positive_size_def split: prod.splits)
  with strtoull_number_text[OF False] show ?thesis by simp
qed

theorem parse_port_arg_grammar:
  "parse_port_arg text = Inr p \<longleftrightarrow> (\<exists>v. number_text text v \<and> v \<noteq> 0 \<and> v \<le> 65535 \<and> p = ucast v)"
proof (cases "text = []")
  case True
  then show ?thesis using number_text_nonempty
    by (auto simp: parse_port_arg_def stoul_def strtoull_def Let_def)
next
  case False
  then have "parse_port_arg text = Inr p \<longleftrightarrow> (\<exists>v. strtoull text = (v, False, []) \<and> v \<noteq> 0 \<and> v \<le> 65535 \<and> p = ucast v)"
    by (auto simp: parse_port_arg_def stoul_def not_less split: prod.splits if_splits)
  with strtoull_number_text[OF False] show ?thesis by simp
qed

lemma number_text_to_string: "n < 2 ^ 64 \<Longrightarrow> number_text (to_string n) (of_nat n)"
  using to_string_facts[of n] unfolding number_text_def
  by (intro exI[of _ "[]"] exI[of _ "to_string n"]) auto

text \<open>Every number the programs can mean is accepted in its usual decimal form.\<close>

lemma parse_positive_size_decimal:
  assumes "0 < n" "n < 2 ^ 64"
  shows "parse_positive_size (Some (to_string n)) = Some (of_nat n)"
proof -
  have "(of_nat n :: 64 word) \<noteq> 0"
  proof
    assume "(of_nat n :: 64 word) = 0"
    then have "unat (of_nat n :: 64 word) = 0" by simp
    with assms show False by (simp add: unat_of_nat take_bit_nat_eq_self)
  qed
  with number_text_to_string[OF assms(2)] show ?thesis by (simp add: parse_positive_size_grammar)
qed

text \<open>But so is a negative number, as a huge one: \<^verbatim>\<open>--iterations -1\<close>.\<close>

lemma negative_size_accepted: "parse_positive_size (Some ''-1'') = Some 18446744073709551615"
  by (simp add: parse_positive_size_def strtoull_def is_space_def is_digit_def dec_value_def digit_val_def Let_def)

subsection \<open>Options and totals\<close>

definition options_ok :: "'a options_scheme \<Rightarrow> bool" where
  "options_ok opts = (iterations opts \<noteq> 0 \<and> payload_size opts \<noteq> 0 \<and> connections opts \<noteq> 0)"

lemma parse_positive_size_pos: "parse_positive_size arg = Some v \<Longrightarrow> v \<noteq> 0"
  by (auto simp: parse_positive_size_def split: option.splits if_splits prod.splits)

lemma parse_args_tcp_ok: "parse_args_tcp args out = Some opts \<Longrightarrow> options_ok out \<Longrightarrow> options_ok opts"
  by (induction args out rule: parse_args_tcp.induct)
    (auto simp: options_ok_def split: if_splits option.splits dest: parse_positive_size_pos)

lemma parse_args_async_ok: "parse_args_async args out = Some opts \<Longrightarrow> options_ok out \<Longrightarrow> options_ok opts"
  by (induction args out rule: parse_args_async.induct)
    (auto simp: options_ok_def split: if_splits option.splits dest: parse_positive_size_pos)

text \<open>The division in the check is exact: it lets a product through exactly if it does not wrap.\<close>

lemma product_fits_iff:
  assumes "conns \<noteq> 0"
  shows "product_fits its conns \<longleftrightarrow> unat its * unat conns < 2 ^ 64"
proof -
  have c: "0 < unat conns" using assms by (simp add: unat_gt_0)
  have "unat (- 1 :: 64 word) = 2 ^ 64 - 1" by (simp add: unsigned_minus_1_eq_mask mask_eq_exp_minus_1)
  then have "product_fits its conns \<longleftrightarrow> unat its \<le> (2 ^ 64 - 1) div unat conns"
    by (simp add: product_fits_def word_less_nat_alt unat_div not_less)
  also have "\<dots> \<longleftrightarrow> unat its * unat conns \<le> 2 ^ 64 - 1" using c by (rule less_eq_div_iff_mult_less_eq)
  finally show ?thesis by auto
qed

lemma echoes_exact:
  assumes "connections opts \<noteq> 0" "product_fits (iterations opts) (connections opts)"
  shows "unat (echoes opts) = unat (iterations opts) * unat (connections opts)"
  using product_fits_iff[OF assms(1)] assms(2) by (simp add: echoes_def unat_word_ariths)

text \<open>The reported number of bytes is not checked, and wraps.\<close>

lemma total_bytes_wraps:
  "\<exists>opts :: options. options_ok opts \<and> product_fits (iterations opts) (connections opts) \<and> total_bytes opts = 0"
  by (intro exI[of _ "\<lparr>iterations = 2 ^ 40, payload_size = 2 ^ 23, connections = 1\<rparr>"])
    (simp add: options_ok_def product_fits_def total_bytes_def echoes_def)

end
