(* ===== verification/Echo_Programs.thy ===== *)
theory Echo_Programs
  imports Command_Line Io_Ops_Time Blocking_Sockets
begin

section \<open>The echo server and the echo client\<close>

text \<open>
  \<^verbatim>\<open>example/echo_server.cpp\<close> and \<^verbatim>\<open>example/echo_client.cpp\<close>: programs written against the library, and so the
  places where its layers meet. The text of an error, \<^verbatim>\<open>error::message()\<close>, is the C library's, a
  parameter \<open>msg\<close>. What the programs print is in the history. \<open>None\<close> is running on beyond the fuel.
\<close>

type_synonym messages = "error \<Rightarrow> string"

definition cout :: "kernel \<Rightarrow> string \<Rightarrow> world \<Rightarrow> world" where
  "cout K text w = snd (sys K (Cout text) w)"

definition cerr :: "kernel \<Rightarrow> string \<Rightarrow> world \<Rightarrow> world" where
  "cerr K text w = snd (sys K (Cerr text) w)"

fun printed :: "history \<Rightarrow> string" where
  "printed [] = []"
| "printed ((c, a) # tr) = printed tr @ (case c of Cout text \<Rightarrow> text | _ \<Rightarrow> [])"

subsection \<open>The server\<close>

text \<open>
  One accepted connection. The result says which of the three ways out of the inner loop was taken.
  The buffer is kept from turn to turn.
\<close>

datatype session_end = Peer_closed | Read_failed | Write_failed

fun echo_session ::
    "nat \<Rightarrow> nat \<Rightarrow> kernel \<Rightarrow> byte list \<Rightarrow> nb_stream \<Rightarrow> world \<Rightarrow> (session_end \<times> world) option" where
  "echo_session 0 fuel K buf s w = None"
| "echo_session (Suc turns) fuel K buf s w =
     (case async_read_some fuel K buf s w of
        None \<Rightarrow> None
      | Some (Inl e, buf1, w1) \<Rightarrow>
          if error_value e = EAGAIN \<or> error_value e = EWOULDBLOCK then echo_session turns fuel K buf1 s w1
          else Some (Read_failed, w1)
      | Some (Inr read_count, buf1, w1) \<Rightarrow>
          if read_count = 0 then Some (Peer_closed, w1)
          else (case async_write_all fuel K (take read_count buf1) s w1 of
                  None \<Rightarrow> None
                | Some (Inl e, w2) \<Rightarrow> Some (Write_failed, w2)
                | Some (Inr _, w2) \<Rightarrow> echo_session turns fuel K buf1 s w2))"

text \<open>
  The server accepts and serves one connection after the other; the stream is destroyed at the end
  of each turn. It refers to the engine only to stop it, when accepting fails; \<open>g\<close> is the engine at
  that point.
\<close>

fun run_echo_server ::
    "nat \<Rightarrow> nat \<Rightarrow> kernel \<Rightarrow> messages \<Rightarrow> engine \<Rightarrow> nb_listener \<Rightarrow> world \<Rightarrow> (engine \<times> world) option" where
  "run_echo_server 0 fuel K msg g l w = None"
| "run_echo_server (Suc turns) fuel K msg g l w =
     (case async_accept fuel K l w of
        None \<Rightarrow> None
      | Some (Inl e, w1) \<Rightarrow> engine_stop fuel K g (cerr K (''accept failed: '' @ msg e @ newline) w1)
      | Some (Inr s, w1) \<Rightarrow>
          (case echo_session fuel fuel K (replicate 4096 0) s w1 of
             None \<Rightarrow> None
           | Some (_, w2) \<Rightarrow> run_echo_server turns fuel K msg g l (fd_destroy K (nb_stream_fd s) w2)))"

subsection \<open>The client\<close>

definition to_bytes :: "string \<Rightarrow> byte list" where
  "to_bytes value = map (\<lambda>ch. of_nat (of_char ch)) value"

definition from_bytes :: "byte list \<Rightarrow> string" where
  "from_bytes bytes = map (\<lambda>b. char_of (unat b)) bytes"

text \<open>
  The client's \<^verbatim>\<open>main\<close>, in two parts: the arguments, and the exchange. Every return after the
  connection was made destroys the stream.
\<close>

definition client_exchange ::
    "nat \<Rightarrow> inet \<Rightarrow> kernel \<Rightarrow> messages \<Rightarrow> endpoint \<Rightarrow> string \<Rightarrow> world \<Rightarrow> (int \<times> world) option" where
  "client_exchange fuel I K msg remote payload w =
     (case stream_connect I remote K w of
        (Inl e, w1) \<Rightarrow> Some (1, cerr K (''connect failed: '' @ msg e @ newline) w1)
      | (Inr client, w1) \<Rightarrow>
          (case write_all fuel K (to_bytes payload) client w1 of
             None \<Rightarrow> None
           | Some (Inl e, w2) \<Rightarrow>
               Some (1, fd_destroy K (stream_fd client) (cerr K (''write failed: '' @ msg e @ newline) w2))
           | Some (Inr _, w2) \<Rightarrow>
               (case read_exact fuel K (replicate (length payload) 0) client w2 of
                  None \<Rightarrow> None
                | Some (Inl e, response, w3) \<Rightarrow>
                    Some (1, fd_destroy K (stream_fd client) (cerr K (''read failed: '' @ msg e @ newline) w3))
                | Some (Inr _, response, w3) \<Rightarrow>
                    Some (0, fd_destroy K (stream_fd client) (cout K (from_bytes response @ newline) w3)))))"

definition echo_client_main ::
    "nat \<Rightarrow> inet \<Rightarrow> kernel \<Rightarrow> messages \<Rightarrow> string list \<Rightarrow> world \<Rightarrow> (int \<times> world) option" where
  "echo_client_main fuel I K msg args w =
     (if 3 < length args then Some (2, cerr K (''usage: simplenet_echo_client [host] [port] [payload]'' @ newline) w)
      else
        let h = (if 0 < length args then args ! 0 else ''127.0.0.1'');
            payload = (if 2 < length args then args ! 2 else ''hello libsimplenet'')
        in case (if 1 < length args then parse_port_arg (args ! 1) else Inr 8080) of
             Inl complaint \<Rightarrow> Some (2, cerr K complaint w)
           | Inr p \<Rightarrow> client_exchange fuel I K msg \<lparr>host = h, port = p\<rparr> payload w)"

subsection \<open>Descriptors that stay as they are\<close>

text \<open>
  Transfers open and close nothing, whether they succeed or fail, and printing transfers nothing.
\<close>

definition same_fds :: "world \<Rightarrow> world \<Rightarrow> bool" where
  "same_fds w w' = (opened (trace w') = opened (trace w) \<and> closed (trace w') = closed (trace w))"

lemma same_fds_refl [simp]: "same_fds w w"
  by (simp add: same_fds_def)

lemma same_fds_trans [trans]: "same_fds w w1 \<Longrightarrow> same_fds w1 w2 \<Longrightarrow> same_fds w w2"
  by (simp add: same_fds_def)

lemma ledger_same_fds: "same_fds w1 w2 \<Longrightarrow> ledger w w2 M = ledger w w1 M"
  by (simp add: same_fds_def ledger_def)

lemma same_fds_print [simp]: "same_fds w1 (cerr K text w) = same_fds w1 w" "same_fds w1 (cout K text w) = same_fds w1 w"
  by (simp_all add: same_fds_def cerr_def cout_def sys_eq)

lemma print_quiet [simp]:
  "sent n (trace (cerr K text w)) = sent n (trace w)" "sent n (trace (cout K text w)) = sent n (trace w)"
  "received n (trace (cerr K text w)) = received n (trace w)" "received n (trace (cout K text w)) = received n (trace w)"
  "printed (trace (cerr K text w)) = printed (trace w)" "printed (trace (cout K text w)) = printed (trace w) @ text"
  by (simp_all add: cerr_def cout_def sys_eq)

lemma fd_destroy_quiet [simp]:
  "sent n (trace (fd_destroy K u w)) = sent n (trace w)" "received n (trace (fd_destroy K u w)) = received n (trace w)"
  "printed (trace (fd_destroy K u w)) = printed (trace w)"
  by (simp_all add: fd_destroy_eq sys_eq)

text \<open>
  What a transfer leaves alone: the ledger, the output, and the bytes that go the other way.
\<close>

definition only_sends :: "world \<Rightarrow> world \<Rightarrow> bool" where
  "only_sends w w' = (same_fds w w' \<and> printed (trace w') = printed (trace w)
     \<and> (\<forall>n. received n (trace w') = received n (trace w)))"

definition only_receives :: "world \<Rightarrow> world \<Rightarrow> bool" where
  "only_receives w w' = (same_fds w w' \<and> printed (trace w') = printed (trace w)
     \<and> (\<forall>n. sent n (trace w') = sent n (trace w)))"

lemmas transfer_defs = only_sends_def only_receives_def same_fds_def sys_eq

lemma write_loop_only_sends: "write_loop fuel K n buf w = Some (r, w') \<Longrightarrow> only_sends w w'"
proof (induction fuel arbitrary: buf w)
  case (Suc fuel)
  then show ?case by (fastforce simp: transfer_defs split: if_splits)
qed simp

lemma read_loop_only_receives: "read_loop fuel K n m got w = Some (r, got', w') \<Longrightarrow> only_receives w w'"
proof (induction fuel arbitrary: m got w)
  case (Suc fuel)
  then show ?case by (fastforce simp: transfer_defs split: if_splits)
qed simp

lemma write_all_only_sends: "write_all fuel K buf s w = Some (r, w') \<Longrightarrow> only_sends w w'"
  using write_loop_only_sends by (auto simp: write_all_def transfer_defs split: if_splits)

lemma read_exact_only_receives: "read_exact fuel K buf s w = Some (r, buf', w') \<Longrightarrow> only_receives w w'"
  using read_loop_only_receives by (fastforce simp: read_exact_def transfer_defs split: if_splits option.splits)

lemma nb_write_some_only_sends: "nb_write_some K buf s w = (r, w') \<Longrightarrow> only_sends w w'"
  by (auto simp: nb_write_some_def transfer_defs split: if_splits)

lemma nb_read_some_only_receives: "nb_read_some K buf s w = (r, buf', w') \<Longrightarrow> only_receives w w'"
  by (auto simp: nb_read_some_def transfer_defs split: if_splits)

lemma await_readiness_neutral:
  "await_readiness K n rd t w = (r, w') \<Longrightarrow> only_sends w w' \<and> only_receives w w'"
  by (auto simp: await_readiness_def transfer_defs)

lemma only_refl [simp]: "only_sends w w" "only_receives w w"
  by (simp_all add: transfer_defs)

lemma only_trans [trans]:
  "only_sends w w1 \<Longrightarrow> only_sends w1 w2 \<Longrightarrow> only_sends w w2"
  "only_receives w w1 \<Longrightarrow> only_receives w1 w2 \<Longrightarrow> only_receives w w2"
  by (simp_all add: transfer_defs)

lemma async_write_some_only_sends: "async_write_some fuel K buf s w = Some (r, w') \<Longrightarrow> only_sends w w'"
proof (induction fuel arbitrary: w)
  case (Suc fuel)
  obtain r1 w1 where wr: "nb_write_some K buf s w = (r1, w1)" by fastforce
  obtain r2 w2 where wt: "wait_writable K (nb_native_handle s) w1 = (r2, w2)" by fastforce
  note q = nb_write_some_only_sends[OF wr] await_readiness_neutral[OF wt[unfolded waits]]
  with Suc.prems wr wt show ?case
    by (auto split: sum.splits if_splits intro: only_trans(1) dest!: Suc.IH)
qed simp

lemma async_read_some_only_receives: "async_read_some fuel K buf s w = Some (r, buf', w') \<Longrightarrow> only_receives w w'"
proof (induction fuel arbitrary: buf w)
  case (Suc fuel)
  obtain r1 buf1 w1 where rd: "nb_read_some K buf s w = (r1, buf1, w1)" by (metis prod_cases3)
  obtain r2 w2 where wt: "wait_readable K (nb_native_handle s) w1 = (r2, w2)" by fastforce
  note q = nb_read_some_only_receives[OF rd] await_readiness_neutral[OF wt[unfolded waits]]
  with Suc.prems rd wt show ?case
    by (auto split: sum.splits if_splits intro: only_trans(2) dest!: Suc.IH)
qed simp

lemma async_write_loop_only_sends: "async_write_loop turns fuel K tot buf s w = Some (r, w') \<Longrightarrow> only_sends w w'"
proof (induction turns arbitrary: tot w)
  case (Suc turns)
  then show ?case
    by (auto split: if_splits option.splits prod.splits sum.splits
        dest!: async_write_some_only_sends intro: only_trans(1))
qed simp

subsection \<open>The session echoes\<close>

lemma echo_session_step:
  assumes "send_bounded K" "recv_bounded K" "n = nb_native_handle s"
    and "async_read_some fuel K buf s w = Some (Inr j, buf1, w1)"
    and "async_write_all fuel K (take j buf1) s w1 = Some (r, w2)"
  obtains d k where "length d = j" "received n (trace w2) = received n (trace w) @ d" "k \<le> length d"
    "sent n (trace w2) = sent n (trace w) @ take k d" "r = Inr () \<longleftrightarrow> k = length d" "j \<le> length buf" "length buf1 = length buf"
proof -
  from async_read_some_filled[OF assms(2,4)] obtain d where d: "length d = j" "j \<le> length buf" "buf1 = d @ drop j buf"
    "received n (trace w1) = received n (trace w) @ d" by (auto simp: filled_def assms(3))
  then have "take j buf1 = d" by simp
  with async_write_loop_sends[OF assms(1) assms(5)[unfolded async_write_all_def]] obtain k where
    k: "k \<le> length d" "sent n (trace w2) @ drop k d = sent n (trace w1) @ d" "r = Inr () \<longleftrightarrow> k = length d"
    by (auto simp: assms(3))
  then have "sent n (trace w2) = sent n (trace w1) @ take k d"
    by (metis append.assoc append_take_drop_id append_same_eq)
  moreover have "received n (trace w2) = received n (trace w1)" "sent n (trace w1) = sent n (trace w)"
    using async_write_loop_only_sends[OF assms(5)[unfolded async_write_all_def]] async_read_some_only_receives[OF assms(4)]
    by (auto simp: only_sends_def only_receives_def)
  ultimately show thesis using that d k by simp
qed

text \<open>What a session owes for what it received: everything, or all but a part of the last buffer.\<close>

definition echoed :: "int \<Rightarrow> nat \<Rightarrow> session_end \<Rightarrow> world \<Rightarrow> world \<Rightarrow> bool" where
  "echoed n room e w w' = (\<exists>d k. received n (trace w') = received n (trace w) @ d
     \<and> sent n (trace w') = sent n (trace w) @ take k d
     \<and> (if e = Write_failed then k < length d \<and> length d \<le> k + room else k = length d))"

lemma echoed_after:
  assumes "echoed n room e w1 w'" "received n (trace w1) = received n (trace w) @ d" "sent n (trace w1) = sent n (trace w) @ d"
  shows "echoed n room e w w'"
proof -
  from assms(1) obtain d' k where "received n (trace w') = received n (trace w1) @ d'"
    "sent n (trace w') = sent n (trace w1) @ take k d'"
    "if e = Write_failed then k < length d' \<and> length d' \<le> k + room else k = length d'" by (auto simp: echoed_def)
  with assms(2,3) show ?thesis unfolding echoed_def
    by (intro exI[of _ "d @ d'"] exI[of _ "length d + k"]) (auto split: if_splits)
qed

lemma echo_session_echoed:
  assumes "send_bounded K" "recv_bounded K" "n = nb_native_handle s"
    and "echo_session turns fuel K buf s w = Some (e, w')"
  shows "echoed n (length buf) e w w' \<and> same_fds w w'"
  using assms(4)
proof (induction turns arbitrary: buf w)
  case (Suc turns)
  obtain r buf1 w1 where rd: "async_read_some fuel K buf s w = Some (r, buf1, w1)"
    using Suc.prems by (auto split: option.splits)
  note fill = async_read_some_filled[OF assms(2) rd] and quiet = async_read_some_only_receives[OF rd]
  show ?case
  proof (cases r)
    case (Inl e1)
    with fill have same: "buf1 = buf" "received n (trace w1) = received n (trace w)" by (simp_all add: filled_Inl assms(3))
    moreover have "sent n (trace w1) = sent n (trace w)" using quiet by (simp add: only_receives_def)
    ultimately have "echoed n (length buf) Read_failed w w1" "echoed n (length buf) e w1 w' \<Longrightarrow> echoed n (length buf) e w w'"
      by (auto simp: echoed_def)
    with Suc rd Inl quiet same show ?thesis
      by (auto simp: only_receives_def split: if_splits intro: same_fds_trans)
  next
    case (Inr j)
    show ?thesis
    proof (cases "j = 0")
      case True
      with fill Inr quiet Suc.prems rd show ?thesis by (auto simp: filled_def echoed_def only_receives_def assms(3))
    next
      case False
      then obtain r2 w2 where wr: "async_write_all fuel K (take j buf1) s w1 = Some (r2, w2)"
        using Suc.prems rd Inr by (auto split: option.splits)
      from echo_session_step[OF assms(1-3) rd[unfolded Inr] wr] obtain d k where step: "length d = j"
        "received n (trace w2) = received n (trace w) @ d" "k \<le> length d" "sent n (trace w2) = sent n (trace w) @ take k d"
        "r2 = Inr () \<longleftrightarrow> k = length d" "j \<le> length buf" "length buf1 = length buf" by blast
      have fds: "same_fds w w2"
        using quiet async_write_loop_only_sends[OF wr[unfolded async_write_all_def]] same_fds_trans
        by (auto simp: only_receives_def only_sends_def)
      show ?thesis
      proof (cases r2)
        case (Inl e2)
        with step Suc.prems rd Inr False wr fds show ?thesis by (auto simp: echoed_def)
      next
        case (Inr u)
        with Suc.prems rd \<open>r = Inr j\<close> False wr have "echo_session turns fuel K buf1 s w2 = Some (e, w')" by simp
        from Suc.IH[OF this] echoed_after[of n "length buf" e w2 w' w d] step Inr fds show ?thesis
          by (auto intro: same_fds_trans)
      qed
    qed
  qed
qed simp

text \<open>
  A session ends: the peer sends finitely many bytes, calls stall finitely often, and the loop reports
  no wait as \<^verbatim>\<open>EAGAIN\<close>.
\<close>

definition delivers_at_most :: "nat \<Rightarrow> int \<Rightarrow> kernel \<Rightarrow> bool" where
  "delivers_at_most N n K = (\<forall>tr m. 0 < a_ret (K tr (Recv n m)) \<longrightarrow>
     length (received n tr) + nat (a_ret (K tr (Recv n m))) \<le> N)"

definition waits_decide :: "kernel \<Rightarrow> bool" where
  "waits_decide K = (\<forall>tr n rd t. a_num (K tr (Await_ready n rd t)) \<noteq> EAGAIN)"

lemma async_read_some_decides:
  assumes "waits_decide K" "async_read_some fuel K buf s w = Some (Inl e, buf', w')"
  shows "\<not> is_would_block e"
  using assms(2)
proof (induction fuel arbitrary: buf w)
  case (Suc fuel)
  then show ?case using assms(1)
    by (auto simp: waits_decide_def wait_readable_def await_readiness_def sys_eq is_would_block_def
        split: sum.splits prod.splits if_splits)
qed simp

lemma nb_read_some_within:
  assumes "delivers_at_most N n K" "recv_bounded K" "n = nb_native_handle s" "nb_read_some K buf s w = (Inr j, buf', w')" "0 < j"
  shows "length (received n (trace w')) \<le> N"
proof -
  let ?a = "K (trace w) (Recv n (length buf))"
  from assms(4,5) have a: "0 < a_ret ?a" "w' = snd (sys K (Recv n (length buf)) w)"
    by (auto simp: nb_read_some_def assms(3) nb_native_handle_def sys_eq split: if_splits)
  with assms(1) have "length (received n (trace w)) + nat (a_ret ?a) \<le> N" unfolding delivers_at_most_def by blast
  with a recv_boundedD[OF assms(2), of "trace w" n "length buf"] show ?thesis by simp
qed

lemma async_read_some_within:
  assumes "delivers_at_most N n K" "recv_bounded K" "n = nb_native_handle s"
    and "async_read_some fuel K buf s w = Some (Inr j, buf', w')" "0 < j"
  shows "length (received n (trace w')) \<le> N"
  using assms(4)
proof (induction fuel arbitrary: buf w)
  case (Suc fuel)
  then show ?case using nb_read_some_within[OF assms(1-3) _ assms(5), of buf w]
    by (auto split: sum.splits prod.splits if_splits)
qed simp

lemma echo_session_ends:
  assumes "send_bounded K" "recv_bounded K" "n = nb_native_handle s" "stalls_at_most m K" "m < fuel"
    and "delivers_at_most N n K" "waits_decide K" "N - length (received n (trace w)) < turns"
  shows "\<exists>e w'. echo_session turns fuel K buf s w = Some (e, w')"
  using assms(8)
proof (induction turns arbitrary: buf w)
  case (Suc turns)
  have "m - stalls (trace w) < fuel" using assms(5) by simp
  from async_read_some_ends[OF assms(4) this] obtain r buf1 w1 where rd: "async_read_some fuel K buf s w = Some (r, buf1, w1)" by blast
  show ?case
  proof (cases r)
    case (Inl e)
    with async_read_some_decides[OF assms(7)] rd show ?thesis by (auto simp: is_would_block_def)
  next
    case (Inr j)
    from async_write_loop_ends[OF assms(4,5), of "take j buf1" 0 "length (take j buf1) + 1" s w1] obtain r2 w2
      where wr: "async_write_all fuel K (take j buf1) s w1 = Some (r2, w2)" by (auto simp: async_write_all_def)
    show ?thesis
    proof (cases "j = 0 \<or> (\<exists>e. r2 = Inl e)")
      case False
      from echo_session_step[OF assms(1-3) rd[unfolded Inr] wr] obtain d where
        d: "length d = j" "received n (trace w2) = received n (trace w) @ d" by blast
      have "received n (trace w2) = received n (trace w1)"
        using async_write_loop_only_sends[OF wr[unfolded async_write_all_def]] by (simp add: only_sends_def)
      with async_read_some_within[OF assms(6,2,3) rd[unfolded Inr]] False d
      have "length (received n (trace w)) + j \<le> N" "0 < j" by simp_all
      with d Suc.prems have "N - length (received n (trace w2)) < turns" by simp
      from Suc.IH[OF this, of buf1] False rd Inr wr show ?thesis by (auto split: sum.split)
    qed (use rd Inr wr in auto)
  qed
qed simp

text \<open>
  C35. The echo server echoes. A session sends back what it received, in order and each byte once, and
  nothing else: all of it if the peer closed or reading failed, and all but a part of the last buffer
  if writing failed. It opens and closes nothing. If the peer sends at most \<open>N\<close> bytes, calls stall at most
  \<open>m\<close> times and waits do not fail with \<^verbatim>\<open>EAGAIN\<close>, the session ends within \<open>N + 1\<close> turns.
\<close>

theorem echo_session_echoes:
  assumes "send_bounded K" "recv_bounded K" "n = nb_native_handle s"
  shows "(\<forall>e w'. echo_session turns fuel K buf s w = Some (e, w') \<longrightarrow> echoed n (length buf) e w w' \<and> same_fds w w')
    \<and> (stalls_at_most m K \<and> m < fuel \<and> delivers_at_most N n K \<and> waits_decide K \<and> N < turns \<longrightarrow>
        (\<exists>e w'. echo_session turns fuel K buf s w = Some (e, w')))"
  using echo_session_echoed[OF assms, of turns fuel buf w] echo_session_ends[OF assms, of m fuel N w turns buf] by auto

text \<open>A peer that sends four bytes, two at a time, and then closes; one byte is accepted at a time.\<close>

definition peer_kernel :: kernel where
  "peer_kernel tr c = (case c of
       Recv n m \<Rightarrow> (let j = min (min 2 m) (4 - length (received n tr))
                      in ok_answer\<lparr>a_ret := int j, a_data := replicate j 7\<rparr>)
     | Send n buf \<Rightarrow> ok_answer\<lparr>a_ret := min 1 (int (length buf))\<rparr>
     | _ \<Rightarrow> ok_answer)"

lemma peer_kernel_ok:
  "send_bounded peer_kernel" "recv_bounded peer_kernel" "stalls_at_most 0 peer_kernel" "waits_decide peer_kernel"
  "delivers_at_most 4 n peer_kernel"
  by (auto simp: send_bounded_def recv_bounded_def stalls_at_most_def stalled_answer_def waits_decide_def
      delivers_at_most_def peer_kernel_def ok_answer_def Let_def split: ext_call.splits)

theorem echo_session_echoes_witness:
  "\<exists>e w. echo_session 5 1 peer_kernel [0, 0, 0] \<lparr>nb_stream_fd = make_fd 5\<rparr> init_world = Some (e, w)
     \<and> echoed 5 3 e init_world w"
  using echo_session_echoes[OF peer_kernel_ok(1,2), of 5 "\<lparr>nb_stream_fd = make_fd 5\<rparr>" 5 1 "[0, 0, 0]" init_world 0 4]
    peer_kernel_ok(3-5) by (auto simp: nb_native_handle_def numeral_3_eq_3)

subsection \<open>The server keeps its ledger\<close>

lemma ledger_neutral: "ledger w w1 M \<Longrightarrow> same_fds w1 w2 \<Longrightarrow> ledger w w2 M"
  using ledger_same_fds by blast

lemma write_wakeup_same_fds: "write_wakeup fuel K n w = Some w' \<Longrightarrow> same_fds w w'"
proof (induction fuel arbitrary: w)
  case (Suc fuel)
  then show ?case by (fastforce simp: same_fds_def sys_eq split: if_splits)
qed simp

lemma engine_stop_same_fds: "engine_stop fuel K g w = Some (g', w') \<Longrightarrow> same_fds w w'"
  by (auto simp: engine_stop_def stop_def u_stop_def Let_def split: option.splits if_splits dest: write_wakeup_same_fds)

lemma async_same_fds:
  "async_read_some fuel K buf s w = Some (r, buf', w') \<Longrightarrow> same_fds w w'"
  "async_write_all fuel K buf s w = Some (r', w') \<Longrightarrow> same_fds w w'"
  using async_read_some_only_receives async_write_loop_only_sends[of "length buf + 1"]
  by (auto simp: only_receives_def only_sends_def async_write_all_def simp del: async_write_loop.simps)

lemma echo_session_same_fds: "echo_session turns fuel K buf s w = Some (e, w') \<Longrightarrow> same_fds w w'"
proof (induction turns arbitrary: buf w)
  case (Suc turns)
  from Suc.prems show ?case
    by (auto split: option.splits sum.splits if_splits dest!: async_same_fds Suc.IH) (blast intro: same_fds_trans)+
qed simp

text \<open>
  The echo server leaks no connection: when it stops, every descriptor it accepted has been
  closed again, however the sessions ended, and it has stopped the engine.
\<close>

lemma echo_server_leak_free:
  assumes "run_echo_server turns fuel K msg g l w = Some (g', w')"
  shows "ledger w w' {#} \<and> (\<exists>w1. engine_stop fuel K g w1 = Some (g', w'))"
  using assms
proof (induction turns arbitrary: w)
  case (Suc turns)
  obtain r w1 where acc: "async_accept fuel K l w = Some (r, w1)" using Suc.prems by (auto split: option.splits)
  note made = async_accept_made[OF acc]
  show ?case
  proof (cases r)
    case (Inl e)
    with Suc.prems acc have st: "engine_stop fuel K g (cerr K (''accept failed: '' @ msg e @ newline) w1) = Some (g', w')" by simp
    have "ledger w w1 {#}" using made Inl by (simp add: made_def)
    moreover have "same_fds w1 w'" using engine_stop_same_fds[OF st] by (simp add: same_fds_def cerr_def sys_eq)
    ultimately show ?thesis using st ledger_neutral by blast
  next
    case (Inr s)
    with Suc.prems acc obtain e w2 where ses: "echo_session fuel fuel K (replicate 4096 0) s w1 = Some (e, w2)"
      "run_echo_server turns fuel K msg g l (fd_destroy K (nb_stream_fd s) w2) = Some (g', w')"
      by (auto split: option.splits)
    have "ledger w w1 (owns (nb_stream_fd s))" using made Inr by (simp add: made_def owns_def)
    then have "ledger w w2 (owns (nb_stream_fd s))" using echo_session_same_fds[OF ses(1)] by (rule ledger_neutral)
    from ledger_destroy[OF this] Suc.IH[OF ses(2)] ledger_trans[of w _ "{#}" w' "{#}"] show ?thesis by auto
  qed
qed simp

subsection \<open>The client\<close>

lemma bytes_roundtrip: "from_bytes (to_bytes text) = text" "to_bytes (from_bytes bytes) = bytes"
  "length (to_bytes text) = length text" "length (from_bytes bytes) = length bytes"
proof -
  have "unat b mod 256 = unat b" for b :: byte using unsigned_less[of b, where 'a = nat] by simp
  then show "to_bytes (from_bytes bytes) = bytes" by (auto simp: to_bytes_def from_bytes_def intro!: map_idI)
qed (auto simp: to_bytes_def from_bytes_def unat_of_nat take_bit_nat_eq_self intro!: map_idI)

lemma stream_connect_quiet:
  assumes "stream_connect I remote K w = (r, w')"
  shows "sent n (trace w') = sent n (trace w)" "received n (trace w') = received n (trace w)"
    "printed (trace w') = printed (trace w)"
  using assms
  by (auto simp: stream_connect_def return_error_def return_owned_eq fd_destroy_eq sys_eq Let_def split: sum.splits if_splits)

text \<open>The outcome of the exchange: what was sent, what was printed, and what is open.\<close>

lemma client_exchange_outcome:
  assumes "send_bounded K" "recv_bounded K" "client_exchange fuel I K msg remote payload w = Some (code, w')"
  shows "ledger w w' {#} \<and> (code = 0 \<and> (\<exists>n d. 0 \<le> n \<and> length d = length payload
        \<and> sent n (trace w') = sent n (trace w) @ to_bytes payload \<and> received n (trace w') = received n (trace w) @ d
        \<and> printed (trace w') = printed (trace w) @ from_bytes d @ newline)
      \<or> code = 1 \<and> printed (trace w') = printed (trace w))"
proof -
  obtain r w1 where con: "stream_connect I remote K w = (r, w1)" by fastforce
  note q1 = stream_connect_quiet[OF con] and made = tcp_connect.make_made[of w I remote K, unfolded con]
  show ?thesis
  proof (cases r)
    case (Inl e)
    with assms(3) con made q1 show ?thesis
      using ledger_neutral[of w w1 "{#}" w'] by (auto simp: client_exchange_def made_def same_fds_def cerr_def sys_eq)
  next
    case (Inr s)
    then have s: "stream_valid s" "ledger w w1 (owns (stream_fd s))" "0 \<le> stream_native_handle s"
      using made by (auto simp: made_def stream_valid_def owns_def stream_native_handle_def fd_valid_def)
    then have closes: "ledger w (fd_destroy K (stream_fd s) w2) {#}" if "same_fds w1 w2" for w2
      using ledger_destroy[OF ledger_neutral] that by blast
    obtain r2 w2 where wr: "write_all fuel K (to_bytes payload) s w1 = Some (r2, w2)"
      using assms(3) con Inr by (auto simp: client_exchange_def split: option.splits)
    note quiet2 = write_all_only_sends[OF wr]
    show ?thesis
    proof (cases r2)
      case (Inl e)
      with assms(3) con \<open>r = Inr s\<close> wr quiet2 closes q1 show ?thesis
        by (auto simp: client_exchange_def only_sends_def)
    next
      case (Inr u)
      obtain r3 resp w3 where rd: "read_exact fuel K (replicate (length payload) 0) s w2 = Some (r3, resp, w3)"
        using assms(3) con \<open>r = Inr s\<close> wr Inr by (auto simp: client_exchange_def split: option.splits)
      note quiet3 = read_exact_only_receives[OF rd]
      then have fds: "same_fds w1 w3" using quiet2 by (auto simp: only_sends_def only_receives_def intro: same_fds_trans)
      from read_exact_exact[OF assms(2) s(1) rd] obtain d where d: "resp = d @ drop (length d) (replicate (length payload) 0)"
        "received (stream_native_handle s) (trace w3) = received (stream_native_handle s) (trace w2) @ d"
        "r3 = Inr () \<longleftrightarrow> length d = length payload" "length d \<le> length payload" by auto
      have "sent (stream_native_handle s) (trace w2) = sent (stream_native_handle s) (trace w1) @ to_bytes payload"
        using write_all_exact[OF assms(1) s(1) wr] Inr by auto
      then show ?thesis
        using assms(3) con \<open>r = Inr s\<close> wr Inr rd quiet2 quiet3 closes[of "cerr K _ w3"] closes[of "cout K _ w3"] fds d q1 s(3)
        by (auto simp: client_exchange_def only_sends_def only_receives_def split: sum.splits
            intro!: exI[of _ "stream_native_handle s"] exI[of _ d])
    qed
  qed
qed

lemma client_exchange_ends:
  assumes "interrupts_at_most m K" "length payload + m < fuel"
  shows "\<exists>code w'. client_exchange fuel I K msg remote payload w = Some (code, w')"
proof (cases "stream_connect I remote K w")
  case (Pair r w1)
  have "\<exists>r w'. write_all fuel K (to_bytes payload) s w = Some (r, w')"
    "\<exists>r b w'. read_exact fuel K (replicate (length payload) 0) s w = Some (r, b, w')" for s w
    using write_all_ends[OF assms(1), of "to_bytes payload"] read_exact_ends[OF assms(1), of "replicate (length payload) 0"]
      assms(2) by (simp_all add: bytes_roundtrip)
  note ends = this
  show ?thesis
  proof (cases r)
    case (Inr s)
    obtain r2 w2 where wr: "write_all fuel K (to_bytes payload) s w1 = Some (r2, w2)" using ends(1) by blast
    obtain r3 b w3 where "read_exact fuel K (replicate (length payload) 0) s w2 = Some (r3, b, w3)" using ends(2) by blast
    with Pair Inr wr show ?thesis by (cases r2; cases r3) (simp_all add: client_exchange_def)
  qed (simp add: client_exchange_def Pair)
qed

definition client_payload :: "string list \<Rightarrow> string" where
  "client_payload args = (if 2 < length args then args ! 2 else ''hello libsimplenet'')"

definition usage_ok :: "string list \<Rightarrow> bool" where
  "usage_ok args = (length args \<le> 3 \<and> (1 < length args \<longrightarrow> (\<exists>p. parse_port_arg (args ! 1) = Inr p)))"

lemma echo_client_main_cases:
  "echo_client_main fuel I K msg args w = (if usage_ok args
     then client_exchange fuel I K msg \<lparr>host = (if 0 < length args then args ! 0 else ''127.0.0.1''),
            port = (if 1 < length args then projr (parse_port_arg (args ! 1)) else 8080)\<rparr> (client_payload args) w
     else Some (2, cerr K (if 3 < length args then ''usage: simplenet_echo_client [host] [port] [payload]'' @ newline
                           else projl (parse_port_arg (args ! 1))) w))"
  by (cases "parse_port_arg (args ! 1)") (auto simp: echo_client_main_def usage_ok_def client_payload_def Let_def)

text \<open>
  C36. The echo client. It exits with 2 exactly if its arguments are no usage; with 0 only after the
  whole payload was accepted on a connection of its own and as many bytes came back, which, and
  nothing else, it has printed (the payload itself, if they are its bytes); with 1, and nothing
  printed, otherwise. On every exit each descriptor it opened has been closed, and it exits if it is
  interrupted finitely often.
\<close>

theorem echo_client_outcome:
  assumes "send_bounded K" "recv_bounded K" "payload = client_payload args"
  shows "(\<forall>code w'. echo_client_main fuel I K msg args w = Some (code, w') \<longrightarrow>
      ledger w w' {#} \<and> (code = 2 \<longleftrightarrow> \<not> usage_ok args) \<and> code \<in> {0, 1, 2}
      \<and> (if code = 0
         then \<exists>n d. 0 \<le> n \<and> length d = length payload \<and> sent n (trace w') = sent n (trace w) @ to_bytes payload
           \<and> received n (trace w') = received n (trace w) @ d
           \<and> printed (trace w') = printed (trace w) @ from_bytes d @ newline
           \<and> (d = to_bytes payload \<longrightarrow> from_bytes d = payload)
         else printed (trace w') = printed (trace w)))
    \<and> (interrupts_at_most m K \<and> length payload + m < fuel \<longrightarrow>
        (\<exists>code w'. echo_client_main fuel I K msg args w = Some (code, w')))"
proof (cases "usage_ok args")
  case True
  let ?ep = "\<lparr>host = (if 0 < length args then args ! 0 else ''127.0.0.1''),
      port = (if 1 < length args then projr (parse_port_arg (args ! 1)) else 8080)\<rparr>"
  have main: "echo_client_main fuel I K msg args w = client_exchange fuel I K msg ?ep payload w"
    unfolding echo_client_main_cases assms(3) using True by simp
  show ?thesis
    unfolding main using client_exchange_outcome[OF assms(1,2), of fuel I msg ?ep payload w]
      client_exchange_ends[of m K payload fuel I msg ?ep w] True by (fastforce simp: bytes_roundtrip)
next
  case False
  have "ledger w (cerr K t w) {#}" for t using ledger_neutral[of w w "{#}" "cerr K t w"] by simp
  with False show ?thesis unfolding echo_client_main_cases by simp
qed

text \<open>A network that returns what it was sent, two bytes at a time.\<close>

definition mirror_kernel :: kernel where
  "mirror_kernel tr c = (case c of
       Socket _ _ _ \<Rightarrow> ok_answer\<lparr>a_ret := 3\<rparr>
     | Recv n m \<Rightarrow> (let d = take (min 2 m) (drop (length (received n tr)) (sent n tr))
                      in ok_answer\<lparr>a_ret := int (length d), a_data := d\<rparr>)
     | Send n buf \<Rightarrow> ok_answer\<lparr>a_ret := min 2 (int (length buf))\<rparr>
     | _ \<Rightarrow> ok_answer)"

lemma mirror_kernel_ok: "send_bounded mirror_kernel" "recv_bounded mirror_kernel" "interrupts_at_most 0 mirror_kernel"
  by (auto simp: send_bounded_def recv_bounded_def interrupts_at_most_def interrupted_answer_def mirror_kernel_def
      ok_answer_def Let_def split: ext_call.splits)

theorem echo_client_outcome_witness:
  "\<exists>w n. echo_client_main 4 quad_inet mirror_kernel (\<lambda>_. []) [''127.0.0.1'', ''7'', ''abc''] init_world = Some (0, w)
     \<and> sent n (trace w) = to_bytes ''abc'' \<and> ledger init_world w {#}"
proof -
  let ?run = "echo_client_main 4 quad_inet mirror_kernel (\<lambda>_. []) [''127.0.0.1'', ''7'', ''abc''] init_world"
  note spec = echo_client_outcome[OF mirror_kernel_ok(1,2) refl, of 4 quad_inet "\<lambda>_. []" "[''127.0.0.1'', ''7'', ''abc'']" init_world 0]
  have payload: "client_payload [''127.0.0.1'', ''7'', ''abc''] = ''abc''" by (simp add: client_payload_def)
  from spec mirror_kernel_ok(3) obtain code w where run: "?run = Some (code, w)" by (auto simp: payload)
  moreover have "map_option fst ?run = Some 0" by code_simp
  ultimately show ?thesis using spec by (force simp: payload init_world_def)
qed

end
