(* ===== verification/Benchmarks.thy ===== *)
theory Benchmarks
  imports Echo_Programs Epoll_Reactor
begin

section \<open>The benchmark programs\<close>

text \<open>
  The servers and clients of \<^verbatim>\<open>example/perf_tcp_echo_libsimplenet.cpp\<close>, \<^verbatim>\<open>perf_async_echo_libsimplenet.cpp\<close>,
  \<^verbatim>\<open>perf_connection_churn_libsimplenet.cpp\<close> and \<^verbatim>\<open>perf_reactor_wait.cpp\<close>: everything between the parsing of
  the options and the printing of the figures. Threads share one flag, whose loads and exchanges are
  calls of the environment; a thread's function is modelled as what that thread does. Vectors of a
  size given on the command line are lists of that length.
\<close>

subsection \<open>The shared flag\<close>

definition failed_load :: "kernel \<Rightarrow> world \<Rightarrow> bool \<times> world" where
  "failed_load K w = (let (a, w1) = sys K Failed_load w in (a_ret a \<noteq> 0, w1))"

text \<open>The exchange answers whether the flag was set before.\<close>

definition record_failure :: "kernel \<Rightarrow> string \<Rightarrow> world \<Rightarrow> world" where
  "record_failure K message w =
     (let (a, w1) = sys K Failed_exchange w
      in if a_ret a \<noteq> 0 then w1 else snd (sys K (Store_message message) w1))"

text \<open>This thread has set the flag or seen it set; the flag is never cleared.\<close>

fun failed_seen :: "history \<Rightarrow> bool" where
  "failed_seen [] = False"
| "failed_seen ((c, a) # tr) = (c = Failed_exchange \<or> (c = Failed_load \<and> a_ret a \<noteq> 0) \<or> failed_seen tr)"

definition flag_sticks :: "kernel \<Rightarrow> bool" where
  "flag_sticks K = (\<forall>tr. failed_seen tr \<longrightarrow> a_ret (K tr Failed_load) \<noteq> 0)"

subsection \<open>Servers\<close>

text \<open>
  The loop of \<^verbatim>\<open>run_echo_connection\<close> and \<^verbatim>\<open>run_echo_session\<close>, over the blocking and the asynchronous
  transfers: read a whole payload, write it back. The result is the number of rounds that were left.
\<close>

fun echo_rounds ::
    "(byte list \<Rightarrow> world \<Rightarrow> (unit result \<times> byte list \<times> world) option) \<Rightarrow> string
       \<Rightarrow> (byte list \<Rightarrow> world \<Rightarrow> (unit result \<times> world) option) \<Rightarrow> string
       \<Rightarrow> kernel \<Rightarrow> messages \<Rightarrow> nat \<Rightarrow> byte list \<Rightarrow> world \<Rightarrow> (nat \<times> world) option" where
  "echo_rounds rd rd_text wr wr_text K msg 0 payload w = Some (0, w)"
| "echo_rounds rd rd_text wr wr_text K msg (Suc i) payload w =
     (case failed_load K w of
        (True, w1) \<Rightarrow> Some (Suc i, w1)
      | (False, w1) \<Rightarrow>
          (case rd payload w1 of
             None \<Rightarrow> None
           | Some (Inl e, _, w2) \<Rightarrow> Some (Suc i, record_failure K (rd_text @ msg e) w2)
           | Some (Inr _, payload1, w2) \<Rightarrow>
               (case wr payload1 w2 of
                  None \<Rightarrow> None
                | Some (Inl e, w3) \<Rightarrow> Some (Suc i, record_failure K (wr_text @ msg e) w3)
                | Some (Inr _, w3) \<Rightarrow> echo_rounds rd rd_text wr wr_text K msg i payload1 w3)))"

text \<open>
  The blocking handler owns its stream, which is destroyed on return; the coroutine's stream is
  destroyed with its frame.
\<close>

definition run_echo_connection ::
    "nat \<Rightarrow> kernel \<Rightarrow> messages \<Rightarrow> tcp_stream \<Rightarrow> nat \<Rightarrow> nat \<Rightarrow> world \<Rightarrow> (nat \<times> world) option" where
  "run_echo_connection fuel K msg s its size_arg w =
     map_option (\<lambda>(i, w1). (i, fd_destroy K (stream_fd s) w1))
       (echo_rounds (\<lambda>buf. read_exact fuel K buf s) ''server read failed: ''
          (\<lambda>buf. write_all fuel K buf s) ''server write failed: '' K msg its (replicate size_arg 0) w)"

definition run_echo_session ::
    "nat \<Rightarrow> kernel \<Rightarrow> messages \<Rightarrow> nb_stream \<Rightarrow> nat \<Rightarrow> nat \<Rightarrow> world \<Rightarrow> (nat \<times> world) option" where
  "run_echo_session fuel K msg s its size_arg w =
     echo_rounds (\<lambda>buf. async_read_exact fuel K buf s) ''server async_read_exact failed: ''
       (\<lambda>buf. async_write_all fuel K buf s) ''server async_write_all failed: '' K msg its (replicate size_arg 0) w"

text \<open>
  The accept loops of the TCP and the asynchronous benchmark, with the streams they handed to a new
  thread or a new coroutine, in order.
\<close>

fun tcp_accept_loop ::
    "kernel \<Rightarrow> messages \<Rightarrow> tcp_listener \<Rightarrow> nat \<Rightarrow> tcp_stream list \<Rightarrow> world \<Rightarrow> tcp_stream list \<times> world" where
  "tcp_accept_loop K msg l 0 handlers w = (handlers, w)"
| "tcp_accept_loop K msg l (Suc c) handlers w =
     (case failed_load K w of
        (True, w1) \<Rightarrow> (handlers, w1)
      | (False, w1) \<Rightarrow>
          (case listener_accept l K w1 of
             (Inl e, w2) \<Rightarrow> (handlers, record_failure K (''accept failed: '' @ msg e) w2)
           | (Inr s, w2) \<Rightarrow> tcp_accept_loop K msg l c (handlers @ [s]) w2))"

fun run_accept_loop ::
    "nat \<Rightarrow> kernel \<Rightarrow> messages \<Rightarrow> nb_listener \<Rightarrow> nat \<Rightarrow> nb_stream list \<Rightarrow> world \<Rightarrow> (nb_stream list \<times> world) option" where
  "run_accept_loop fuel K msg l 0 spawned w = Some (spawned, w)"
| "run_accept_loop fuel K msg l (Suc c) spawned w =
     (case failed_load K w of
        (True, w1) \<Rightarrow> Some (spawned, w1)
      | (False, w1) \<Rightarrow>
          (case async_accept fuel K l w1 of
             None \<Rightarrow> None
           | Some (Inl e, w2) \<Rightarrow> Some (spawned, record_failure K (''server async_accept failed: '' @ msg e) w2)
           | Some (Inr s, w2) \<Rightarrow>
               run_accept_loop fuel K msg l c (spawned @ [s]) (snd (sys K Count_accepted w2))))"

text \<open>The server thread of the churn benchmark: one byte for each connection; leaving a turn destroys its stream.\<close>

fun churn_server ::
    "nat \<Rightarrow> kernel \<Rightarrow> messages \<Rightarrow> tcp_listener \<Rightarrow> nat \<Rightarrow> byte list \<Rightarrow> world \<Rightarrow> world option" where
  "churn_server fuel K msg l 0 tok w = Some w"
| "churn_server fuel K msg l (Suc i) tok w =
     (case failed_load K w of
        (True, w1) \<Rightarrow> Some w1
      | (False, w1) \<Rightarrow>
          (case listener_accept l K w1 of
             (Inl e, w2) \<Rightarrow> Some (record_failure K (''accept failed: '' @ msg e) w2)
           | (Inr s, w2) \<Rightarrow>
               (case read_exact fuel K tok s w2 of
                  None \<Rightarrow> None
                | Some (Inl e, _, w3) \<Rightarrow>
                    Some (fd_destroy K (stream_fd s) (record_failure K (''server read failed: '' @ msg e) w3))
                | Some (Inr _, tok1, w3) \<Rightarrow>
                    (case write_all fuel K tok1 s w3 of
                       None \<Rightarrow> None
                     | Some (Inl e, w4) \<Rightarrow>
                         Some (fd_destroy K (stream_fd s) (record_failure K (''server write failed: '' @ msg e) w4))
                     | Some (Inr _, w4) \<Rightarrow>
                         churn_server fuel K msg l i tok1 (fd_destroy K (stream_fd s) w4)))))"

subsection \<open>Clients\<close>

text \<open>
  \<^verbatim>\<open>posix_socket\<close> of the asynchronous benchmark, its own owner of a descriptor. Assignment from a
  temporary closes what the target had.
\<close>

record posix_socket =
  ps_fd :: int

definition posix_none :: posix_socket where
  "posix_none = \<lparr>ps_fd = -1\<rparr>"

definition posix_native_handle :: "posix_socket \<Rightarrow> int" where
  "posix_native_handle s = ps_fd s"

definition posix_close :: "kernel \<Rightarrow> posix_socket \<Rightarrow> world \<Rightarrow> posix_socket \<times> world" where
  "posix_close K s w =
     (if 0 \<le> ps_fd s then (s\<lparr>ps_fd := -1\<rparr>, snd (sys K (Close (ps_fd s)) w)) else (s, w))"

definition posix_move_construct :: "posix_socket \<Rightarrow> posix_socket \<times> posix_socket" where
  "posix_move_construct other = (\<lparr>ps_fd = ps_fd other\<rparr>, other\<lparr>ps_fd := -1\<rparr>)"

definition posix_move_assign ::
    "kernel \<Rightarrow> posix_socket \<Rightarrow> posix_socket \<Rightarrow> world \<Rightarrow> posix_socket \<times> posix_socket \<times> world" where
  "posix_move_assign K this other w =
     (let (this1, w1) = posix_close K this w in (this1\<lparr>ps_fd := ps_fd other\<rparr>, other\<lparr>ps_fd := -1\<rparr>, w1))"

definition posix_destroy :: "kernel \<Rightarrow> posix_socket \<Rightarrow> world \<Rightarrow> world" where
  "posix_destroy K s w = snd (posix_close K s w)"

definition posix_error_message :: "messages \<Rightarrow> int \<Rightarrow> string" where
  "posix_error_message msg n = msg (error_of_code n generic_category)"

text \<open>\<^verbatim>\<open>htonl(INADDR_LOOPBACK)\<close> is the network form of 127.0.0.1, as a number on a little-endian machine.\<close>

definition loopback_sockaddr :: "16 word \<Rightarrow> sockaddr_in" where
  "loopback_sockaddr p = \<lparr>sin_family = AF_INET, sin_port = htons p, sin_addr = 0x0100007F\<rparr>"

fun posix_connect_loop ::
    "nat \<Rightarrow> kernel \<Rightarrow> int \<Rightarrow> sockaddr_in \<Rightarrow> posix_socket \<Rightarrow> int \<Rightarrow> world
       \<Rightarrow> (bool \<times> posix_socket \<times> int \<times> world) option" where
  "posix_connect_loop 0 K n addr out en w = None"
| "posix_connect_loop (Suc fuel) K n addr out en w =
     (let (a, w1) = sys K (Connect n addr) w
      in if a_ret a = 0
         then let (out1, temp, w2) = posix_move_assign K out \<lparr>ps_fd = n\<rparr> w1
              in Some (True, out1, en, posix_destroy K temp w2)
         else if errno w1 = EINTR then posix_connect_loop fuel K n addr out en w1
         else Some (False, out, errno w1, snd (sys K (Close n) w1)))"

definition connect_loopback_socket ::
    "nat \<Rightarrow> kernel \<Rightarrow> 16 word \<Rightarrow> posix_socket \<Rightarrow> int \<Rightarrow> world \<Rightarrow> (bool \<times> posix_socket \<times> int \<times> world) option" where
  "connect_loopback_socket fuel K p out en w =
     (let (a, w1) = sys K (Socket SOCK_STREAM False False) w
      in if a_ret a < 0 then Some (False, out, errno w1, w1)
         else posix_connect_loop fuel K (a_ret a) (loopback_sockaddr p) out en w1)"

fun write_socket_loop ::
    "nat \<Rightarrow> kernel \<Rightarrow> int \<Rightarrow> nat \<Rightarrow> byte list \<Rightarrow> int \<Rightarrow> world \<Rightarrow> (bool \<times> int \<times> world) option" where
  "write_socket_loop 0 K n offset payload en w = None"
| "write_socket_loop (Suc fuel) K n offset payload en w =
     (if offset < length payload then
        let (a, w1) = sys K (Send_plain n (drop offset payload)) w
        in if a_ret a < 0
           then if errno w1 = EINTR then write_socket_loop fuel K n offset payload en w1
                else Some (False, errno w1, w1)
           else if a_ret a = 0 then Some (False, EPIPE, w1)
           else write_socket_loop fuel K n (offset + nat (a_ret a)) payload en w1
      else Some (True, en, w))"

definition write_all_socket ::
    "nat \<Rightarrow> kernel \<Rightarrow> posix_socket \<Rightarrow> byte list \<Rightarrow> int \<Rightarrow> world \<Rightarrow> (bool \<times> int \<times> world) option" where
  "write_all_socket fuel K s payload en w = write_socket_loop fuel K (posix_native_handle s) 0 payload en w"

fun read_socket_loop ::
    "nat \<Rightarrow> kernel \<Rightarrow> int \<Rightarrow> nat \<Rightarrow> byte list \<Rightarrow> int \<Rightarrow> world \<Rightarrow> (bool \<times> byte list \<times> int \<times> world) option" where
  "read_socket_loop 0 K n offset payload en w = None"
| "read_socket_loop (Suc fuel) K n offset payload en w =
     (if offset < length payload then
        let (a, w1) = sys K (Recv n (length payload - offset)) w
        in if a_ret a < 0
           then if errno w1 = EINTR then read_socket_loop fuel K n offset payload en w1
                else Some (False, payload, errno w1, w1)
           else if a_ret a = 0 then Some (False, payload, ECONNRESET, w1)
           else read_socket_loop fuel K n (offset + nat (a_ret a))
                  (take offset payload @ store (a_data a) (drop offset payload)) en w1
      else Some (True, payload, en, w))"

definition read_exact_socket ::
    "nat \<Rightarrow> kernel \<Rightarrow> posix_socket \<Rightarrow> byte list \<Rightarrow> int \<Rightarrow> world \<Rightarrow> (bool \<times> byte list \<times> int \<times> world) option" where
  "read_exact_socket fuel K s payload en w = read_socket_loop fuel K (posix_native_handle s) 0 payload en w"

text \<open>
  One pass over the clients: \<open>step\<close> transfers for one client, over the shared response buffer, and
  says what to record if it failed, which ends the pass.
\<close>

fun for_clients ::
    "kernel \<Rightarrow> ('s \<Rightarrow> byte list \<Rightarrow> world \<Rightarrow> (string option \<times> byte list \<times> world) option)
       \<Rightarrow> 's list \<Rightarrow> byte list \<Rightarrow> world \<Rightarrow> (byte list \<times> world) option" where
  "for_clients K step [] response w = Some (response, w)"
| "for_clients K step (c # cs) response w =
     (case step c response w of
        None \<Rightarrow> None
      | Some (Some text, response1, w1) \<Rightarrow> Some (response1, record_failure K text w1)
      | Some (None, response1, w1) \<Rightarrow> for_clients K step cs response1 w1)"

text \<open>The rounds of the TCP and the asynchronous benchmark: every client writes, then every client reads.\<close>

fun client_rounds ::
    "kernel \<Rightarrow> ('s \<Rightarrow> byte list \<Rightarrow> world \<Rightarrow> (string option \<times> byte list \<times> world) option)
       \<Rightarrow> ('s \<Rightarrow> byte list \<Rightarrow> world \<Rightarrow> (string option \<times> byte list \<times> world) option)
       \<Rightarrow> nat \<Rightarrow> 's list \<Rightarrow> byte list \<Rightarrow> world \<Rightarrow> world option" where
  "client_rounds K wr rd 0 clients response w = Some w"
| "client_rounds K wr rd (Suc i) clients response w =
     (case for_clients K wr clients response w of
        None \<Rightarrow> None
      | Some (response1, w1) \<Rightarrow>
          (case failed_load K w1 of
             (True, w2) \<Rightarrow> Some w2
           | (False, w2) \<Rightarrow>
               (case for_clients K rd clients response1 w2 of
                  None \<Rightarrow> None
                | Some (response2, w3) \<Rightarrow>
                    (case failed_load K w3 of
                       (True, w4) \<Rightarrow> Some w4
                     | (False, w4) \<Rightarrow> client_rounds K wr rd i clients response2 w4))))"

definition tcp_write :: "nat \<Rightarrow> kernel \<Rightarrow> messages \<Rightarrow> byte list \<Rightarrow> tcp_stream \<Rightarrow> byte list \<Rightarrow> world
    \<Rightarrow> (string option \<times> byte list \<times> world) option" where
  "tcp_write fuel K msg request c response w =
     (case write_all fuel K request c w of
        None \<Rightarrow> None
      | Some (Inl e, w1) \<Rightarrow> Some (Some (''client write failed: '' @ msg e), response, w1)
      | Some (Inr _, w1) \<Rightarrow> Some (None, response, w1))"

definition tcp_read :: "nat \<Rightarrow> kernel \<Rightarrow> messages \<Rightarrow> tcp_stream \<Rightarrow> byte list \<Rightarrow> world
    \<Rightarrow> (string option \<times> byte list \<times> world) option" where
  "tcp_read fuel K msg c response w =
     (case read_exact fuel K response c w of
        None \<Rightarrow> None
      | Some (Inl e, response1, w1) \<Rightarrow> Some (Some (''client read failed: '' @ msg e), response1, w1)
      | Some (Inr _, response1, w1) \<Rightarrow> Some (None, response1, w1))"

definition posix_write :: "nat \<Rightarrow> kernel \<Rightarrow> messages \<Rightarrow> byte list \<Rightarrow> posix_socket \<Rightarrow> byte list \<Rightarrow> world
    \<Rightarrow> (string option \<times> byte list \<times> world) option" where
  "posix_write fuel K msg request c response w =
     (case write_all_socket fuel K c request 0 w of
        None \<Rightarrow> None
      | Some (done_ok, en, w1) \<Rightarrow>
          Some (if done_ok then None else Some (''client send failed: '' @ posix_error_message msg en), response, w1))"

definition posix_read :: "nat \<Rightarrow> kernel \<Rightarrow> messages \<Rightarrow> posix_socket \<Rightarrow> byte list \<Rightarrow> world
    \<Rightarrow> (string option \<times> byte list \<times> world) option" where
  "posix_read fuel K msg c response w =
     (case read_exact_socket fuel K c response 0 w of
        None \<Rightarrow> None
      | Some (done_ok, response1, en, w1) \<Rightarrow>
          Some (if done_ok then None else Some (''client recv failed: '' @ posix_error_message msg en), response1, w1))"

definition tcp_client_rounds ::
    "nat \<Rightarrow> kernel \<Rightarrow> messages \<Rightarrow> nat \<Rightarrow> nat \<Rightarrow> tcp_stream list \<Rightarrow> world \<Rightarrow> world option" where
  "tcp_client_rounds fuel K msg its size_arg clients w =
     (case failed_load K w of
        (True, w1) \<Rightarrow> Some w1
      | (False, w1) \<Rightarrow>
          client_rounds K (tcp_write fuel K msg (replicate size_arg 0x42)) (tcp_read fuel K msg) its clients
            (replicate size_arg 0) w1)"

definition async_client_rounds ::
    "nat \<Rightarrow> kernel \<Rightarrow> messages \<Rightarrow> nat \<Rightarrow> nat \<Rightarrow> posix_socket list \<Rightarrow> world \<Rightarrow> world option" where
  "async_client_rounds fuel K msg its size_arg clients w =
     (case failed_load K w of
        (True, w1) \<Rightarrow> Some w1
      | (False, w1) \<Rightarrow>
          client_rounds K (posix_write fuel K msg (replicate size_arg 0x42)) (posix_read fuel K msg) its clients
            (replicate size_arg 0) w1)"

text \<open>Connecting the clients, up to the first failure, and destroying them.\<close>

fun connect_clients ::
    "inet \<Rightarrow> kernel \<Rightarrow> messages \<Rightarrow> 16 word \<Rightarrow> nat \<Rightarrow> tcp_stream list \<Rightarrow> world \<Rightarrow> tcp_stream list \<times> world" where
  "connect_clients I K msg p 0 clients w = (clients, w)"
| "connect_clients I K msg p (Suc c) clients w =
     (case stream_connect I (loopback p) K w of
        (Inl e, w1) \<Rightarrow> (clients, record_failure K (''connect failed: '' @ msg e) w1)
      | (Inr s, w1) \<Rightarrow> connect_clients I K msg p c (clients @ [s]) w1)"

definition clear_clients :: "kernel \<Rightarrow> tcp_stream list \<Rightarrow> world \<Rightarrow> world" where
  "clear_clients K clients w = fold (\<lambda>s. fd_destroy K (stream_fd s)) clients w"

text \<open>
  The asynchronous benchmark's clients: the local socket is moved into the vector and destroyed, empty,
  at the end of the turn.
\<close>

fun connect_sockets ::
    "nat \<Rightarrow> kernel \<Rightarrow> messages \<Rightarrow> 16 word \<Rightarrow> nat \<Rightarrow> posix_socket list \<Rightarrow> world \<Rightarrow> (posix_socket list \<times> world) option" where
  "connect_sockets fuel K msg p 0 clients w = Some (clients, w)"
| "connect_sockets fuel K msg p (Suc c) clients w =
     (case connect_loopback_socket fuel K p posix_none 0 w of
        None \<Rightarrow> None
      | Some (False, client, en, w1) \<Rightarrow>
          Some (clients, posix_destroy K client
            (record_failure K (''client connect failed: '' @ posix_error_message msg en) w1))
      | Some (True, client, en, w1) \<Rightarrow>
          let (moved, client1) = posix_move_construct client
          in connect_sockets fuel K msg p c (clients @ [moved]) (posix_destroy K client1 w1))"

definition clear_sockets :: "kernel \<Rightarrow> posix_socket list \<Rightarrow> world \<Rightarrow> world" where
  "clear_sockets K clients w = fold (posix_destroy K) clients w"

text \<open>The rounds of the churn benchmark: connect all clients, exchange one byte with each, destroy them.\<close>

fun churn_rounds ::
    "nat \<Rightarrow> inet \<Rightarrow> kernel \<Rightarrow> messages \<Rightarrow> 16 word \<Rightarrow> nat \<Rightarrow> nat \<Rightarrow> byte list \<Rightarrow> world \<Rightarrow> world option" where
  "churn_rounds fuel I K msg p conns 0 tok w = Some w"
| "churn_rounds fuel I K msg p conns (Suc i) tok w =
     (case failed_load K w of
        (True, w1) \<Rightarrow> Some w1
      | (False, w1) \<Rightarrow>
          let (clients, w2) = connect_clients I K msg p conns [] w1
          in case failed_load K w2 of
               (True, w3) \<Rightarrow> Some (clear_clients K clients w3)
             | (False, w3) \<Rightarrow>
                 (case for_clients K (\<lambda>c b. tcp_write fuel K msg b c b) clients tok w3 of
                    None \<Rightarrow> None
                  | Some (_, w4) \<Rightarrow>
                      (case failed_load K w4 of
                         (True, w5) \<Rightarrow> Some (clear_clients K clients w5)
                       | (False, w5) \<Rightarrow>
                           (case for_clients K (tcp_read fuel K msg) clients tok w5 of
                              None \<Rightarrow> None
                            | Some (tok1, w6) \<Rightarrow>
                                (case failed_load K w6 of
                                   (True, w7) \<Rightarrow> Some (clear_clients K clients w7)
                                 | (False, w7) \<Rightarrow>
                                     churn_rounds fuel I K msg p conns i tok1 (clear_clients K clients w7))))))"

subsection \<open>Waiting on the reactor\<close>

text \<open>
  The loops of \<^verbatim>\<open>run_alloc_baseline\<close>, with a fresh buffer for each wait, and of \<^verbatim>\<open>run_reuse_path\<close>, over
  \<^verbatim>\<open>reactor::wait\<close>. The second gives up at an error.
\<close>

definition kBatchSize :: nat where
  "kBatchSize = 64"

fun alloc_baseline :: "kernel \<Rightarrow> int \<Rightarrow> nat \<Rightarrow> ready_event list \<Rightarrow> world \<Rightarrow> ready_event list \<times> world" where
  "alloc_baseline K ep 0 output w = (output, w)"
| "alloc_baseline K ep (Suc i) output w =
     (let (a, w1) = sys K (Epoll_wait ep (length output) 0) w;
          output1 = (if 0 < a_ret a
                     then map (\<lambda>(f, e). \<lparr>ev_fd = f, ev_events = e\<rparr>) (take (nat (a_ret a)) (a_events a))
                            @ drop (nat (a_ret a)) output
                     else output)
      in alloc_baseline K ep i output1 w1)"

fun reuse_path :: "kernel \<Rightarrow> epoll_reactor \<Rightarrow> nat \<Rightarrow> world \<Rightarrow> bool \<times> world" where
  "reuse_path K r 0 w = (True, w)"
| "reuse_path K r (Suc i) w =
     (case reactor_wait K kBatchSize 0 r w of
        (Inl e, w1) \<Rightarrow> (False, w1)
      | (Inr _, w1) \<Rightarrow> reuse_path K r i w1)"

end
