(* ===== verification/Benchmarks_Facts.thy ===== *)
theory Benchmarks_Facts
  imports Benchmarks
begin

section \<open>What the benchmark programs do\<close>

text \<open>
  The rounds of the benchmarks are complete whenever no failure was recorded, servers echo, and no
  descriptor is lost. The two kinds of clients, and the two kinds of servers, satisfy one contract
  each.
\<close>

subsection \<open>Calls of one kind\<close>

definition only_calls :: "(ext_call \<Rightarrow> bool) \<Rightarrow> world \<Rightarrow> world \<Rightarrow> bool" where
  "only_calls P w w' = (\<exists>new. trace w' = new @ trace w \<and> (\<forall>x \<in> set new. P (fst x)))"

fun send_call :: "int \<Rightarrow> ext_call \<Rightarrow> bool" where
  "send_call n (Send m _) = (m = n)"
| "send_call n (Send_plain m _) = (m = n)"
| "send_call n _ = False"

fun recv_call :: "int \<Rightarrow> ext_call \<Rightarrow> bool" where
  "recv_call n (Recv m _) = (m = n)"
| "recv_call n _ = False"

lemma only_calls_refl [simp]: "only_calls P w w"
  by (simp add: only_calls_def)

lemma only_calls_step:
  assumes "only_calls P (snd (sys K c w)) w'" "P c"
  shows "only_calls P w w'"
proof -
  from assms(1) obtain new where "trace w' = new @ (c, K (trace w) c) # trace w" "\<forall>x \<in> set new. P (fst x)"
    by (auto simp: only_calls_def)
  with assms(2) show ?thesis unfolding only_calls_def by (intro exI[of _ "new @ [(c, K (trace w) c)]"]) auto
qed

lemma only_calls_sys: "P c \<Longrightarrow> only_calls P w (snd (sys K c w))"
  by (rule only_calls_step[of P K]) simp_all

lemma only_calls_ledger: "only_calls P w w' \<Longrightarrow> (\<And>c. P c \<Longrightarrow> \<not> opens c \<and> (\<forall>n. c \<noteq> Close n)) \<Longrightarrow> same_fds w w'"
proof -
  assume calls: "only_calls P w w'" and P: "\<And>c. P c \<Longrightarrow> \<not> opens c \<and> (\<forall>n. c \<noteq> Close n)"
  have "opened new = [] \<and> closed new = []" if "\<forall>x \<in> set new. P (fst x)" for new :: history
    using that P by (induction new) (force split: ext_call.splits)+
  with calls show "same_fds w w'" by (auto simp: only_calls_def same_fds_def)
qed

lemma failed_seen_append [simp]: "failed_seen (xs @ ys) = (failed_seen xs \<or> failed_seen ys)"
  by (induction xs) auto

lemma record_failure_facts [simp]:
  "failed_seen (trace (record_failure K t w))" "same_fds v (record_failure K t w) = same_fds v w"
  "sent n (trace (record_failure K t w)) = sent n (trace w)"
  "received n (trace (record_failure K t w)) = received n (trace w)"
  by (simp_all add: record_failure_def sys_eq same_fds_def)

lemma send_calls:
  assumes "only_calls (send_call n) w w'"
  shows "received m (trace w') = received m (trace w)" "m \<noteq> n \<Longrightarrow> sent m (trace w') = sent m (trace w)"
    "failed_seen (trace w') = failed_seen (trace w)" "same_fds w w'"
proof -
  obtain new where new: "trace w' = new @ trace w" "\<forall>x \<in> set new. send_call n (fst x)"
    using assms by (auto simp: only_calls_def)
  from new(2) have "received m new = []" "m \<noteq> n \<longrightarrow> sent m new = []" "\<not> failed_seen new" "opened new = []" "closed new = []"
    by (induction new) (auto elim!: send_call.elims)
  with new(1) show "received m (trace w') = received m (trace w)" "m \<noteq> n \<Longrightarrow> sent m (trace w') = sent m (trace w)"
    "failed_seen (trace w') = failed_seen (trace w)" "same_fds w w'" by (auto simp: same_fds_def)
qed

lemma recv_calls:
  assumes "only_calls (recv_call n) w w'"
  shows "sent m (trace w') = sent m (trace w)" "m \<noteq> n \<Longrightarrow> received m (trace w') = received m (trace w)"
    "failed_seen (trace w') = failed_seen (trace w)" "same_fds w w'"
proof -
  obtain new where new: "trace w' = new @ trace w" "\<forall>x \<in> set new. recv_call n (fst x)"
    using assms by (auto simp: only_calls_def)
  from new(2) have "sent m new = []" "m \<noteq> n \<longrightarrow> received m new = []" "\<not> failed_seen new" "opened new = []" "closed new = []"
    by (induction new) (auto elim!: recv_call.elims)
  with new(1) show "sent m (trace w') = sent m (trace w)" "m \<noteq> n \<Longrightarrow> received m (trace w') = received m (trace w)"
    "failed_seen (trace w') = failed_seen (trace w)" "same_fds w w'" by (auto simp: same_fds_def)
qed

subsection \<open>The calls of the transfers\<close>

lemma write_loop_calls: "write_loop fuel K n buf w = Some (r, w') \<Longrightarrow> only_calls (send_call n) w w'"
proof (induction fuel arbitrary: buf w)
  case (Suc fuel)
  have "only_calls (send_call n) w (snd (sys K (Send n buf) w))" by (rule only_calls_sys) simp
  with Suc.prems show ?case
    by (auto simp: Let_def case_prod_beta split: if_splits dest!: Suc.IH intro: only_calls_step)
qed simp

lemma read_loop_calls: "read_loop fuel K n m got w = Some (r, got', w') \<Longrightarrow> only_calls (recv_call n) w w'"
proof (induction fuel arbitrary: m got w)
  case (Suc fuel)
  have "only_calls (recv_call n) w (snd (sys K (Recv n m) w))" by (rule only_calls_sys) simp
  with Suc.prems show ?case
    by (auto simp: Let_def case_prod_beta split: if_splits dest!: Suc.IH intro: only_calls_step)
qed simp

lemma write_socket_loop_calls:
  "write_socket_loop fuel K n off buf en w = Some (r, en', w') \<Longrightarrow> only_calls (send_call n) w w'"
proof (induction fuel arbitrary: off w)
  case (Suc fuel)
  have "only_calls (send_call n) w (snd (sys K (Send_plain n (drop off buf)) w))" by (rule only_calls_sys) simp
  with Suc.prems show ?case
    by (auto simp: Let_def case_prod_beta split: if_splits dest!: Suc.IH intro: only_calls_step)
qed simp

lemma write_all_calls: "write_all fuel K buf s w = Some (r, w') \<Longrightarrow> only_calls (send_call (stream_native_handle s)) w w'"
  using write_loop_calls by (auto simp: write_all_def split: if_splits)

lemma read_exact_calls: "read_exact fuel K buf s w = Some (r, buf', w') \<Longrightarrow> only_calls (recv_call (stream_native_handle s)) w w'"
  using read_loop_calls by (fastforce simp: read_exact_def split: if_splits option.splits)

subsection \<open>The hand-written transfers\<close>

text \<open>
  \<^verbatim>\<open>read_exact_socket\<close> is \<^verbatim>\<open>blocking::read_exact\<close> with the error number in place of the error: it makes the
  same calls, stores the same bytes and stops at the same point.
\<close>

lemma read_socket_loop_eq:
  assumes "recv_bounded K" "off \<le> length buf"
  shows "read_socket_loop fuel K n off buf en w =
    map_option (\<lambda>(r, got, w'). (r = Inr (), got @ drop (length got) buf,
        (case r of Inl e \<Rightarrow> error_value e | Inr _ \<Rightarrow> en), w'))
      (read_loop fuel K n (length buf - off) (take off buf) w)"
  using assms(2)
proof (induction fuel arbitrary: off buf w)
  case (Suc fuel)
  let ?a = "K (trace w) (Recv n (length buf - off))"
  let ?w = "snd (sys K (Recv n (length buf - off)) w)"
  consider (stop) "off = length buf \<or> a_ret ?a = 0 \<or> (a_ret ?a < 0 \<and> a_errno ?a \<noteq> EINTR)"
    | (retry) "off < length buf" "a_ret ?a < 0" "a_errno ?a = EINTR" | (more) "off < length buf" "0 < a_ret ?a"
    using Suc.prems by linarith
  then show ?case
  proof cases
    case stop
    then show ?thesis using Suc.prems
      by (auto simp: sys_eq from_errno_def error_of_code_def error_value_def make_error_from_errno_def from_errno_value_def)
  next
    case retry
    with Suc.IH[of off buf ?w] Suc.prems show ?thesis by (simp add: sys_eq)
  next
    case more
    let ?j = "nat (a_ret ?a)" and ?b = "take off buf @ store (a_data ?a) (drop off buf)"
    note b = recv_boundedD[OF assms(1), of "trace w" n "length buf - off"]
    have b': "?b = take off buf @ a_data ?a @ drop (off + ?j) buf" "length ?b = length buf"
      using b more Suc.prems by (auto simp: store_fits add.commute)
    then have take: "take (off + ?j) ?b = take off buf @ a_data ?a"
      using b more Suc.prems by auto
    let ?rest = "read_loop fuel K n (length buf - off - ?j) (take off buf @ a_data ?a) ?w"
    have rest: "read_loop (Suc fuel) K n (length buf - off) (take off buf) w = ?rest"
      using more by (simp add: sys_eq)
    have "read_socket_loop (Suc fuel) K n off buf en w = read_socket_loop fuel K n (off + ?j) ?b en ?w"
      using more by (simp add: sys_eq)
    also have "\<dots> = map_option (\<lambda>(r, got, w'). (r = Inr (), got @ drop (length got) ?b,
        (case r of Inl e \<Rightarrow> error_value e | Inr _ \<Rightarrow> en), w')) ?rest"
      using Suc.IH[of "off + ?j" ?b ?w] b b'(2) more Suc.prems take by simp
    also have "\<dots> = map_option (\<lambda>(r, got, w'). (r = Inr (), got @ drop (length got) buf,
        (case r of Inl e \<Rightarrow> error_value e | Inr _ \<Rightarrow> en), w')) ?rest"
    proof -
      have "drop (length got) ?b = drop (length got) buf" if "?rest = Some (r, got, w')" for r got w'
      proof -
        from read_loop_receives[OF assms(1) that] obtain d where "got = take off buf @ a_data ?a @ d" by auto
        then have "off + ?j \<le> length got" using b more Suc.prems by auto
        then show ?thesis using b b'(1) more Suc.prems by simp linarith
      qed
      then show ?thesis by (cases ?rest) auto
    qed
    finally show ?thesis by (simp only: rest)
  qed
qed simp

lemma read_exact_socket_eq:
  assumes "recv_bounded K"
  shows "read_exact_socket fuel K s buf en w =
    map_option (\<lambda>(r, got, w'). (r = Inr (), got @ drop (length got) buf,
        (case r of Inl e \<Rightarrow> error_value e | Inr _ \<Rightarrow> en), w'))
      (read_loop fuel K (posix_native_handle s) (length buf) [] w)"
  unfolding read_exact_socket_def by (simp add: read_socket_loop_eq[OF assms])

lemma write_socket_loop_sends:
  assumes "send_bounded K" "off \<le> length buf" "write_socket_loop fuel K n off buf en w = Some (b, en', w')"
  shows "\<exists>k. off \<le> k \<and> k \<le> length buf \<and> sent n (trace w') @ drop k buf = sent n (trace w) @ drop off buf
    \<and> (b \<longleftrightarrow> k = length buf)"
  using assms(2,3)
proof (induction fuel arbitrary: off w)
  case (Suc fuel)
  let ?a = "K (trace w) (Send_plain n (drop off buf))"
  let ?w = "snd (sys K (Send_plain n (drop off buf)) w)"
  consider (stop) "off = length buf \<or> a_ret ?a = 0 \<or> (a_ret ?a < 0 \<and> a_errno ?a \<noteq> EINTR)"
    | (retry) "off < length buf" "a_ret ?a < 0" "a_errno ?a = EINTR" | (more) "off < length buf" "0 < a_ret ?a"
    using Suc.prems by linarith
  then show ?case
  proof cases
    case stop
    with Suc.prems show ?thesis by (intro exI[of _ off]) (auto simp: sys_eq split: if_splits)
  next
    case retry
    with Suc.prems have "write_socket_loop fuel K n off buf en ?w = Some (b, en', w')" by (simp add: sys_eq)
    from Suc.IH[OF Suc.prems(1) this] retry(2) show ?thesis by simp
  next
    case more
    let ?j = "nat (a_ret ?a)"
    have j: "off + ?j \<le> length buf"
      using assms(1) more by (auto simp: send_bounded_def nat_le_iff dest!: spec[of _ "drop off buf"] spec[of _ n] spec[of _ "trace w"])
    from more Suc.prems have "write_socket_loop fuel K n (off + ?j) buf en ?w = Some (b, en', w')" by (simp add: sys_eq)
    from Suc.IH[OF j this] obtain k where "off + ?j \<le> k" "k \<le> length buf" "b \<longleftrightarrow> k = length buf"
      "sent n (trace w') @ drop k buf = sent n (trace w) @ take ?j (drop off buf) @ drop ?j (drop off buf)"
      by (auto simp: add.commute)
    then show ?thesis by (intro exI[of _ k]) (simp del: drop_drop)
  qed
qed simp

subsection \<open>Complete rounds\<close>

text \<open>
  The contract of a client: a write that is not complained about has sent the request on the client's
  descriptor, a read has filled the response from it, and neither touched anything else.
\<close>

locale benchmark_client =
  fixes wr rd :: "'s \<Rightarrow> byte list \<Rightarrow> world \<Rightarrow> (string option \<times> byte list \<times> world) option"
    and handle :: "'s \<Rightarrow> int"
    and usable :: "'s \<Rightarrow> bool"
    and request :: "byte list"
  assumes wr_done: "usable c \<Longrightarrow> wr c b w = Some (None, b', w') \<Longrightarrow> b' = b \<and> only_calls (send_call (handle c)) w w'
      \<and> sent (handle c) (trace w') = sent (handle c) (trace w) @ request"
    and rd_done: "usable c \<Longrightarrow> rd c b w = Some (None, b', w') \<Longrightarrow> only_calls (recv_call (handle c)) w w'
      \<and> length b' = length b \<and> received (handle c) (trace w') = received (handle c) (trace w) @ b'"
begin

text \<open>A pass over the clients is complete or has recorded a failure.\<close>

lemma write_pass:
  assumes "for_clients K wr cs b w = Some (b', w')" "\<forall>c \<in> set cs. usable c" "distinct (map handle cs)"
  shows "failed_seen (trace w') \<or> (b' = b \<and> (\<forall>m. received m (trace w') = received m (trace w)
    \<and> sent m (trace w') = sent m (trace w) @ (if m \<in> handle ` set cs then request else [])))"
  using assms
proof (induction cs arbitrary: b w)
  case (Cons c cs)
  obtain t b1 w1 where step: "wr c b w = Some (t, b1, w1)" using Cons.prems(1) by (auto split: option.splits)
  show ?case
  proof (cases t)
    case None
    with wr_done[of c b w b1 w1] step Cons.prems(2) have d: "b1 = b" "only_calls (send_call (handle c)) w w1"
      "sent (handle c) (trace w1) = sent (handle c) (trace w) @ request" by auto
    from step None Cons.prems(1) have "for_clients K wr cs b1 w1 = Some (b', w')" by simp
    moreover have "sent m (trace w1) = sent m (trace w) @ (if m = handle c then request else [])" for m
      using d(3) send_calls(2)[OF d(2)] by simp
    moreover have "\<forall>x \<in> set cs. handle x \<noteq> handle c" using Cons.prems(3) by (auto simp: image_iff)
    ultimately show ?thesis using Cons.IH[of b1 w1] Cons.prems(2,3) d(1) send_calls(1)[OF d(2)] by auto
  next
    case (Some complaint)
    with step Cons.prems(1) show ?thesis by auto
  qed
qed simp

lemma read_pass:
  assumes "for_clients K rd cs b w = Some (b', w')" "\<forall>c \<in> set cs. usable c" "distinct (map handle cs)"
  shows "failed_seen (trace w') \<or> (length b' = length b \<and> (\<forall>m. sent m (trace w') = sent m (trace w)
    \<and> length (received m (trace w')) = length (received m (trace w)) + (if m \<in> handle ` set cs then length b else 0)))"
  using assms
proof (induction cs arbitrary: b w)
  case (Cons c cs)
  obtain t b1 w1 where step: "rd c b w = Some (t, b1, w1)" using Cons.prems(1) by (auto split: option.splits)
  show ?case
  proof (cases t)
    case None
    with rd_done[of c b w b1 w1] step Cons.prems(2) have d: "length b1 = length b" "only_calls (recv_call (handle c)) w w1"
      "received (handle c) (trace w1) = received (handle c) (trace w) @ b1" by auto
    from step None Cons.prems(1) have "for_clients K rd cs b1 w1 = Some (b', w')" by simp
    moreover have "length (received m (trace w1)) = length (received m (trace w)) + (if m = handle c then length b else 0)" for m
      using d(1,3) recv_calls(2)[OF d(2)] by simp
    moreover have "\<forall>x \<in> set cs. handle x \<noteq> handle c" using Cons.prems(3) by (auto simp: image_iff)
    ultimately show ?thesis using Cons.IH[of b1 w1] Cons.prems(2,3) d(1) recv_calls(1)[OF d(2)] by auto
  next
    case (Some complaint)
    with step Cons.prems(1) show ?thesis by auto
  qed
qed simp

lemma rounds_complete:
  assumes "flag_sticks K" "\<forall>c \<in> set cs. usable c" "distinct (map handle cs)"
    and "client_rounds K wr rd i cs b w = Some w'" "\<not> failed_seen (trace w')" "m \<in> handle ` set cs"
  shows "sent m (trace w') = sent m (trace w) @ concat (replicate i request)
    \<and> length (received m (trace w')) = length (received m (trace w)) + i * length b"
  using assms(4)
proof (induction i arbitrary: b w)
  case (Suc i)
  obtain b1 w1 where wp: "for_clients K wr cs b w = Some (b1, w1)" using Suc.prems by (auto split: option.splits)
  have load: "failed_load K v = (a_ret (K (trace v) Failed_load) \<noteq> 0, snd (sys K Failed_load v))" for v
    by (simp add: failed_load_def sys_eq)
  have l1: "a_ret (K (trace w1) Failed_load) = 0"
    using Suc.prems wp assms(5) by (auto simp: load sys_eq split: bool.splits)
  obtain b2 w3 where rp: "for_clients K rd cs b1 (snd (sys K Failed_load w1)) = Some (b2, w3)"
    using Suc.prems wp l1 by (auto simp: load split: option.splits)
  have l3: "a_ret (K (trace w3) Failed_load) = 0"
    using Suc.prems wp l1 rp assms(5) by (auto simp: load sys_eq split: bool.splits)
  have "\<not> failed_seen (trace w1)" "\<not> failed_seen (trace w3)" using assms(1) l1 l3 by (auto simp: flag_sticks_def)
  with write_pass[OF wp assms(2,3)] read_pass[OF rp assms(2,3)] assms(6)
  have "length b2 = length b" "sent m (trace w3) = sent m (trace w) @ request"
    "length (received m (trace w3)) = length (received m (trace w)) + length b" by auto
  moreover have "client_rounds K wr rd i cs b2 (snd (sys K Failed_load w3)) = Some w'"
    using Suc.prems wp l1 rp l3 by (simp add: load)
  ultimately show ?case using Suc.IH[of b2 "snd (sys K Failed_load w3)"] by simp
qed simp

end

interpretation tcp_client: benchmark_client "\<lambda>c b w. if send_bounded K then tcp_write fuel K msg request c b w else None"
  "\<lambda>c b w. if recv_bounded K then tcp_read fuel K msg c b w else None"
  stream_native_handle stream_valid request for fuel K msg request
proof
  fix c b w b' w'
  assume c: "stream_valid c"
  assume "(if send_bounded K then tcp_write fuel K msg request c b w else None) = Some (None, b', w')"
  then have wr: "send_bounded K" "write_all fuel K request c w = Some (Inr (), w')" "b' = b"
    by (auto simp: tcp_write_def split: if_splits option.splits sum.splits)
  from write_all_exact[OF wr(1) c wr(2)] write_all_calls[OF wr(2)] wr(3)
  show "b' = b \<and> only_calls (send_call (stream_native_handle c)) w w'
      \<and> sent (stream_native_handle c) (trace w') = sent (stream_native_handle c) (trace w) @ request" by auto
next
  fix c b w b' w'
  assume c: "stream_valid c"
  assume "(if recv_bounded K then tcp_read fuel K msg c b w else None) = Some (None, b', w')"
  then have rd: "recv_bounded K" "read_exact fuel K b c w = Some (Inr (), b', w')"
    by (auto simp: tcp_read_def split: if_splits option.splits sum.splits)
  from read_exact_exact[OF rd(1) c rd(2)] read_exact_calls[OF rd(2)]
  show "only_calls (recv_call (stream_native_handle c)) w w' \<and> length b' = length b
      \<and> received (stream_native_handle c) (trace w') = received (stream_native_handle c) (trace w) @ b'" by auto
qed

interpretation posix_client: benchmark_client "\<lambda>c b w. if send_bounded K then posix_write fuel K msg request c b w else None"
  "\<lambda>c b w. if recv_bounded K then posix_read fuel K msg c b w else None"
  posix_native_handle "\<lambda>_. True" request for fuel K msg request
proof
  fix c b w b' w'
  assume "(if send_bounded K then posix_write fuel K msg request c b w else None) = Some (None, b', w')"
  then obtain en where wr: "send_bounded K" "write_socket_loop fuel K (posix_native_handle c) 0 request 0 w = Some (True, en, w')" "b' = b"
    by (auto simp: posix_write_def write_all_socket_def split: if_splits option.splits)
  from write_socket_loop_sends[OF wr(1) _ wr(2)] write_socket_loop_calls[OF wr(2)] wr(3)
  show "b' = b \<and> only_calls (send_call (posix_native_handle c)) w w'
      \<and> sent (posix_native_handle c) (trace w') = sent (posix_native_handle c) (trace w) @ request" by auto
next
  fix c b w b' w'
  assume "(if recv_bounded K then posix_read fuel K msg c b w else None) = Some (None, b', w')"
  then obtain got where rd: "recv_bounded K" "read_loop fuel K (posix_native_handle c) (length b) [] w = Some (Inr (), got, w')"
    "b' = got @ drop (length got) b"
    by (auto simp: posix_read_def read_exact_socket_eq split: if_splits option.splits)
  from read_loop_receives[OF rd(1,2)] read_loop_calls[OF rd(2)] rd(3)
  show "only_calls (recv_call (posix_native_handle c)) w w' \<and> length b' = length b
      \<and> received (posix_native_handle c) (trace w') = received (posix_native_handle c) (trace w) @ b'" by auto
qed

text \<open>
  The figures of the echo benchmarks are about what they say. If the flag is clear when the
  clients are done, every client has sent its request in every round and nothing else, and has
  received as many bytes: \<open>iterations * payload_size\<close> each way. The flag is one that stays set; clients
  are distinct connections.
\<close>

theorem benchmark_rounds_complete:
  assumes "send_bounded K" "recv_bounded K" "flag_sticks K" "a_ret (K (trace w') Failed_load) = 0"
  shows "(tcp_client_rounds fuel K msg its n clients w = Some w' \<and> (\<forall>c \<in> set clients. stream_valid c)
      \<and> distinct (map stream_native_handle clients) \<longrightarrow>
      (\<forall>m \<in> stream_native_handle ` set clients.
        sent m (trace w') = sent m (trace w) @ concat (replicate its (replicate n 0x42))
        \<and> length (received m (trace w')) = length (received m (trace w)) + its * n))
    \<and> (async_client_rounds fuel K msg its n sockets w = Some w' \<and> distinct (map posix_native_handle sockets) \<longrightarrow>
      (\<forall>m \<in> posix_native_handle ` set sockets.
        sent m (trace w') = sent m (trace w) @ concat (replicate its (replicate n 0x42))
        \<and> length (received m (trace w')) = length (received m (trace w)) + its * n))"
proof -
  have clear: "\<not> failed_seen (trace w')" using assms(3,4) by (auto simp: flag_sticks_def)
  have load: "failed_load K w = (a_ret (K (trace w) Failed_load) \<noteq> 0, snd (sys K Failed_load w))"
    by (simp add: failed_load_def sys_eq)
  show ?thesis
  proof (cases "a_ret (K (trace w) Failed_load) = 0")
    case False
    then have "tcp_client_rounds fuel K msg its n clients w = Some w' \<or> async_client_rounds fuel K msg its n sockets w = Some w'
        \<Longrightarrow> failed_seen (trace w')"
      by (auto simp: tcp_client_rounds_def async_client_rounds_def load)
    with clear show ?thesis by blast
  next
    case True
    from tcp_client.rounds_complete[where fuel = fuel and msg = msg and K = K and Ka = K and request = "replicate n 0x42"
        and cs = clients and i = its and b = "replicate n 0" and w = "snd (sys K Failed_load w)", OF assms(3) _ _ _ clear]
      posix_client.rounds_complete[where fuel = fuel and msg = msg and K = K and Ka = K and request = "replicate n 0x42"
        and cs = sockets and i = its and b = "replicate n 0" and w = "snd (sys K Failed_load w)", OF assms(3) _ _ _ clear]
    show ?thesis unfolding tcp_client_rounds_def async_client_rounds_def by (simp add: assms(1,2) load True)
  qed
qed

text \<open>The mirror of the echo client's example, with a flag that is never set by another thread.\<close>

definition flag_kernel :: kernel where
  "flag_kernel tr c = (case c of
       Failed_load \<Rightarrow> ok_answer\<lparr>a_ret := of_bool (failed_seen tr)\<rparr>
     | Send_plain n buf \<Rightarrow> ok_answer\<lparr>a_ret := min 2 (int (length buf))\<rparr>
     | _ \<Rightarrow> mirror_kernel tr c)"

lemma flag_kernel_ok: "send_bounded flag_kernel" "recv_bounded flag_kernel" "flag_sticks flag_kernel"
  by (auto simp: send_bounded_def recv_bounded_def flag_sticks_def flag_kernel_def mirror_kernel_def ok_answer_def Let_def)

theorem benchmark_rounds_complete_witness:
  "\<exists>w. tcp_client_rounds 4 flag_kernel (\<lambda>_. []) 2 3 [\<lparr>stream_fd = make_fd 5\<rparr>, \<lparr>stream_fd = make_fd 6\<rparr>] init_world = Some w
     \<and> sent 6 (trace w) = [0x42, 0x42, 0x42, 0x42, 0x42, 0x42]"
proof -
  let ?cs = "[\<lparr>stream_fd = make_fd 5\<rparr>, \<lparr>stream_fd = make_fd 6\<rparr>]"
  have "map_option (\<lambda>w. a_ret (flag_kernel (trace w) Failed_load)) (tcp_client_rounds 4 flag_kernel (\<lambda>_. []) 2 3 ?cs init_world)
    = Some 0" by code_simp
  then obtain w where w: "tcp_client_rounds 4 flag_kernel (\<lambda>_. []) 2 3 ?cs init_world = Some w"
    "a_ret (flag_kernel (trace w) Failed_load) = 0" by auto
  from benchmark_rounds_complete[OF flag_kernel_ok w(2), of 4 "\<lambda>_. []" 2 3 ?cs init_world] w(1) show ?thesis
    by (simp add: stream_valid_def stream_native_handle_def init_world_def numeral_2_eq_2 numeral_3_eq_3)
qed

subsection \<open>Servers echo\<close>

text \<open>
  The contract of whole-buffer transfers on descriptor \<open>n\<close>: a read fills the buffer with what it
  received, a write sends a prefix, and success means all of it.
\<close>

locale whole_transfers =
  fixes rd :: "byte list \<Rightarrow> world \<Rightarrow> (unit result \<times> byte list \<times> world) option"
    and wr :: "byte list \<Rightarrow> world \<Rightarrow> (unit result \<times> world) option"
    and n :: int
  assumes rd_exact: "rd buf w = Some (r, buf', w') \<Longrightarrow> sent n (trace w') = sent n (trace w)
      \<and> (\<exists>d. buf' = d @ drop (length d) buf \<and> length d \<le> length buf \<and> received n (trace w') = received n (trace w) @ d
        \<and> (r = Inr () \<longleftrightarrow> length d = length buf))"
    and wr_exact: "wr buf w = Some (r', w') \<Longrightarrow> received n (trace w') = received n (trace w)
      \<and> (\<exists>k \<le> length buf. sent n (trace w') = sent n (trace w) @ take k buf \<and> (r' = Inr () \<longleftrightarrow> k = length buf))"
begin

lemma rounds_echo:
  assumes "echo_rounds rd t1 wr t2 K msg its payload w = Some (left_over, w')"
  shows "left_over \<le> its \<and> (\<exists>d k. received n (trace w') = received n (trace w) @ d \<and> sent n (trace w') = sent n (trace w) @ take k d
    \<and> k \<le> length d \<and> length d \<le> k + length payload \<and> (its - left_over) * length payload \<le> k
    \<and> (left_over = 0 \<longrightarrow> k = length d \<and> k = its * length payload))"
  using assms
proof (induction its arbitrary: payload w)
  case (Suc its)
  let ?w1 = "snd (sys K Failed_load w)"
  have load: "failed_load K w = (a_ret (K (trace w) Failed_load) \<noteq> 0, ?w1)" by (simp add: failed_load_def sys_eq)
  have quiet: "sent n (trace ?w1) = sent n (trace w)" "received n (trace ?w1) = received n (trace w)" by simp_all
  show ?case
  proof (cases "a_ret (K (trace w) Failed_load) = 0")
    case False
    with Suc.prems load have "left_over = Suc its" "w' = ?w1" by simp_all
    with quiet show ?thesis by auto
  next
    case True
    with Suc.prems load obtain r buf w2 where rd: "rd payload ?w1 = Some (r, buf, w2)" by (auto split: option.splits)
    from rd_exact[OF rd] quiet obtain d where d: "sent n (trace w2) = sent n (trace w)" "buf = d @ drop (length d) payload"
      "length d \<le> length payload" "received n (trace w2) = received n (trace w) @ d" "r = Inr () \<longleftrightarrow> length d = length payload" by auto
    show ?thesis
    proof (cases r)
      case (Inl e)
      with Suc.prems load True rd have "left_over = Suc its" "w' = record_failure K (t1 @ msg e) w2" by simp_all
      with d Inl show ?thesis by (auto intro!: exI[of _ d] exI[of _ 0])
    next
      case (Inr u)
      with d have full: "buf = d" "length d = length payload" by auto
      from Suc.prems load True rd Inr obtain r2 w3 where wr: "wr buf w2 = Some (r2, w3)" by (auto split: option.splits)
      from wr_exact[OF wr] full d obtain k where k: "k \<le> length d" "sent n (trace w3) = sent n (trace w) @ take k d"
        "r2 = Inr () \<longleftrightarrow> k = length d" "received n (trace w3) = received n (trace w) @ d" by auto
      show ?thesis
      proof (cases r2)
        case (Inl e)
        with Suc.prems load True rd Inr wr have "left_over = Suc its" "w' = record_failure K (t2 @ msg e) w3" by simp_all
        with k full show ?thesis by (auto intro!: exI[of _ d] exI[of _ k])
      next
        case (Inr u2)
        with Suc.prems load True rd \<open>r = Inr u\<close> wr have "echo_rounds rd t1 wr t2 K msg its buf w3 = Some (left_over, w')" by simp
        from Suc.IH[OF this] obtain d' k' where "left_over \<le> its" "received n (trace w') = received n (trace w3) @ d'"
          "sent n (trace w') = sent n (trace w3) @ take k' d'" "k' \<le> length d'" "length d' \<le> k' + length payload"
          "(its - left_over) * length payload \<le> k'" "left_over = 0 \<longrightarrow> k' = length d' \<and> k' = its * length payload"
          using full by auto
        with k Inr full show ?thesis
          by (intro conjI exI[of _ "d @ d'"] exI[of _ "length d + k'"]) (auto simp: Suc_diff_le)
      qed
    qed
  qed
qed (auto intro: exI[of _ "[]"])

end

interpretation blocking_whole: whole_transfers "\<lambda>buf w. if recv_bounded K \<and> stream_valid s then read_exact fuel K buf s w else None"
  "\<lambda>buf w. if send_bounded K \<and> stream_valid s then write_all fuel K buf s w else None" "stream_native_handle s" for fuel K s
proof
  fix buf w r buf' w'
  assume "(if recv_bounded K \<and> stream_valid s then read_exact fuel K buf s w else None) = Some (r, buf', w')"
  then have rd: "recv_bounded K" "stream_valid s" "read_exact fuel K buf s w = Some (r, buf', w')" by (auto split: if_splits)
  from read_exact_exact[OF rd] recv_calls(1)[OF read_exact_calls[OF rd(3)]]
  show "sent (stream_native_handle s) (trace w') = sent (stream_native_handle s) (trace w)
      \<and> (\<exists>d. buf' = d @ drop (length d) buf \<and> length d \<le> length buf
        \<and> received (stream_native_handle s) (trace w') = received (stream_native_handle s) (trace w) @ d
        \<and> (r = Inr () \<longleftrightarrow> length d = length buf))" by blast
next
  fix buf w r' w'
  assume "(if send_bounded K \<and> stream_valid s then write_all fuel K buf s w else None) = Some (r', w')"
  then have wr: "send_bounded K" "stream_valid s" "write_all fuel K buf s w = Some (r', w')" by (auto split: if_splits)
  from write_all_exact[OF wr] send_calls(1)[OF write_all_calls[OF wr(3)]]
  show "received (stream_native_handle s) (trace w') = received (stream_native_handle s) (trace w)
      \<and> (\<exists>k \<le> length buf. sent (stream_native_handle s) (trace w') = sent (stream_native_handle s) (trace w) @ take k buf
        \<and> (r' = Inr () \<longleftrightarrow> k = length buf))" by blast
qed

lemma async_read_loop_only_receives:
  "async_read_loop turns fuel K tot buf s w = Some (r, buf', w') \<Longrightarrow> only_receives w w'"
proof (induction turns arbitrary: tot buf w)
  case (Suc turns)
  then show ?case
    by (auto simp: Let_def split: if_splits option.splits prod.splits sum.splits
        dest!: async_read_some_only_receives intro: only_trans(2))
qed simp

interpretation async_whole: whole_transfers "\<lambda>buf w. if recv_bounded K then async_read_exact fuel K buf s w else None"
  "\<lambda>buf w. if send_bounded K then async_write_all fuel K buf s w else None" "nb_native_handle s" for fuel K s
proof
  fix buf w r buf' w'
  assume "(if recv_bounded K then async_read_exact fuel K buf s w else None) = Some (r, buf', w')"
  then have rd: "recv_bounded K" "async_read_loop (length buf + 1) fuel K 0 buf s w = Some (r, buf', w')"
    by (auto simp: async_read_exact_def split: if_splits)
  from async_read_loop_fills[OF rd] async_read_loop_only_receives[OF rd(2)]
  show "sent (nb_native_handle s) (trace w') = sent (nb_native_handle s) (trace w)
      \<and> (\<exists>d. buf' = d @ drop (length d) buf \<and> length d \<le> length buf
        \<and> received (nb_native_handle s) (trace w') = received (nb_native_handle s) (trace w) @ d
        \<and> (r = Inr () \<longleftrightarrow> length d = length buf))" by (auto simp: only_receives_def)
next
  fix buf w r' w'
  assume "(if send_bounded K then async_write_all fuel K buf s w else None) = Some (r', w')"
  then have wr: "send_bounded K" "async_write_loop (length buf + 1) fuel K 0 buf s w = Some (r', w')"
    by (auto simp: async_write_all_def split: if_splits)
  from async_write_loop_sends[OF wr] obtain k where k: "k \<le> length buf"
    "sent (nb_native_handle s) (trace w') @ drop k buf = sent (nb_native_handle s) (trace w) @ buf" "r' = Inr () \<longleftrightarrow> k = length buf" by auto
  then have "sent (nb_native_handle s) (trace w') = sent (nb_native_handle s) (trace w) @ take k buf"
    by (metis append.assoc append_take_drop_id append_same_eq)
  with k async_write_loop_only_sends[OF wr(2)]
  show "received (nb_native_handle s) (trace w') = received (nb_native_handle s) (trace w)
      \<and> (\<exists>k \<le> length buf. sent (nb_native_handle s) (trace w') = sent (nb_native_handle s) (trace w) @ take k buf
        \<and> (r' = Inr () \<longleftrightarrow> k = length buf))" by (auto simp: only_sends_def)
qed

text \<open>
  Both servers echo: each round that is over has returned its payload, and all bytes were returned if
  all rounds are over.
\<close>

lemma benchmark_servers_echo:
  assumes "send_bounded K" "recv_bounded K"
  shows "stream_valid s \<Longrightarrow> run_echo_connection fuel K msg s its size_arg w = Some (0, w') \<Longrightarrow>
      \<exists>d. length d = its * size_arg \<and> received (stream_native_handle s) (trace w') = received (stream_native_handle s) (trace w) @ d
        \<and> sent (stream_native_handle s) (trace w') = sent (stream_native_handle s) (trace w) @ d"
    and "run_echo_session fuel K msg t its size_arg w = Some (0, w') \<Longrightarrow>
      \<exists>d. length d = its * size_arg \<and> received (nb_native_handle t) (trace w') = received (nb_native_handle t) (trace w) @ d
        \<and> sent (nb_native_handle t) (trace w') = sent (nb_native_handle t) (trace w) @ d"
  using blocking_whole.rounds_echo[where K = K and Ka = K and s = s and fuel = fuel and payload = "replicate size_arg 0" and left_over = 0]
    async_whole.rounds_echo[where K = K and Ka = K and s = t and fuel = fuel and payload = "replicate size_arg 0" and left_over = 0]
  by (fastforce simp: assms run_echo_connection_def run_echo_session_def)+

subsection \<open>No descriptor is lost\<close>

text \<open>The descriptors a list of clients owns.\<close>

definition clients_own :: "tcp_stream list \<Rightarrow> int multiset" where
  "clients_own cs = sum_list (map (owns \<circ> stream_fd) cs)"

lemma failed_load_facts [simp]:
  "same_fds v (snd (failed_load K w)) = same_fds v w"
  by (simp add: failed_load_def sys_eq same_fds_def)

lemma failed_load_neutral: "failed_load K w = (b, w') \<Longrightarrow> same_fds w w'"
  using failed_load_facts[of w K w] by simp

lemma ledger_destroy_part: "ledger w w1 (M + owns u) \<Longrightarrow> ledger w (fd_destroy K u w1) M"
proof -
  assume l: "ledger w w1 (M + owns u)"
  have "opened (trace (fd_destroy K u w1)) = opened (trace w1)" by (simp add: fd_destroy_eq)
  with l show ?thesis by (simp add: ledger_def fd_destroy_closed ac_simps)
qed

lemma ledger_clear_clients:
  "ledger w w1 (M + clients_own cs) \<Longrightarrow> ledger w (clear_clients K cs w1) M"
proof (induction cs arbitrary: w1)
  case (Cons c cs)
  then have "ledger w w1 (M + clients_own cs + owns (stream_fd c))" by (simp add: clients_own_def ac_simps)
  from Cons.IH[OF ledger_destroy_part[OF this]] show ?case by (simp add: clear_clients_def)
qed (simp add: clear_clients_def clients_own_def)

lemma connect_clients_ledger:
  assumes "connect_clients I K msg p c cs w1 = (cs', w2)" "ledger w w1 (clients_own cs)"
  shows "ledger w w2 (clients_own cs')"
  using assms
proof (induction c arbitrary: cs w1)
  case (Suc c)
  obtain r v where con: "stream_connect I (loopback p) K w1 = (r, v)" by fastforce
  note made = tcp_connect.make_made[of w1 I "loopback p" K, unfolded con]
  show ?case
  proof (cases r)
    case (Inl e)
    with made have "ledger w1 v {#}" by (simp add: made_def)
    from ledger_trans[OF Suc.prems(2) this] have "ledger w v (clients_own cs)" by simp
    from ledger_neutral[OF this, of w2] Suc.prems(1) con Inl show ?thesis by auto
  next
    case (Inr s)
    with made have "ledger w1 v (owns (stream_fd s))" by (simp add: made_def owns_def)
    from ledger_trans[OF Suc.prems(2) this] have "ledger w v (clients_own (cs @ [s]))" by (simp add: clients_own_def)
    from Suc.IH[OF _ this] Suc.prems(1) con Inr show ?thesis by simp
  qed
qed simp

lemma for_clients_same_fds:
  assumes "\<And>c b w t b' w'. step c b w = Some (t, b', w') \<Longrightarrow> same_fds w w'" "for_clients K step cs b w = Some (b', w')"
  shows "same_fds w w'"
  using assms(2)
proof (induction cs arbitrary: b w)
  case (Cons c cs)
  obtain t b1 w1 where step: "step c b w = Some (t, b1, w1)" using Cons.prems by (auto split: option.splits)
  note fds = assms(1)[OF step]
  show ?case
  proof (cases t)
    case None
    with step Cons.prems have "for_clients K step cs b1 w1 = Some (b', w')" by simp
    from same_fds_trans[OF fds Cons.IH[OF this]] show ?thesis .
  next
    case (Some complaint)
    with step Cons.prems fds show ?thesis by auto
  qed
qed simp

lemma tcp_transfers_same_fds:
  "tcp_write fuel K msg request c b w = Some (t, b', w') \<Longrightarrow> same_fds w w'"
  "tcp_read fuel K msg c b w = Some (t, b', w') \<Longrightarrow> same_fds w w'"
  by (auto simp: tcp_write_def tcp_read_def split: option.splits sum.splits
      dest!: write_all_only_sends read_exact_only_receives simp: only_sends_def only_receives_def)

text \<open>
  The churn benchmark opens and closes its connections in pairs: on whichever path its client loop and
  its server loop end, every descriptor they opened has been closed.
\<close>

lemma churn_rounds_leak_free: "churn_rounds fuel I K msg p conns its tok w = Some w' \<Longrightarrow> ledger w w' {#}"
proof (induction its arbitrary: tok w)
  case (Suc its)
  obtain b1 w1 where l1: "failed_load K w = (b1, w1)" by fastforce
  obtain cs w2 where con: "connect_clients I K msg p conns [] w1 = (cs, w2)" by fastforce
  obtain b3 w3 where l3: "failed_load K w2 = (b3, w3)" by fastforce
  have "ledger w w1 (clients_own [])"
    using ledger_neutral[OF ledger_refl failed_load_neutral[OF l1]] by (simp add: clients_own_def)
  note own2 = connect_clients_ledger[OF con this]
  note own3 = ledger_neutral[OF own2 failed_load_neutral[OF l3]]
  have clear: "ledger w (clear_clients K cs v) {#}" if "same_fds w3 v" for v
    using ledger_clear_clients[of w v "{#}"] ledger_neutral[OF own3 that] by simp
  have pass: "same_fds u v'" if "for_clients K (\<lambda>c b. tcp_write fuel K msg b c b) cs t u = Some (b, v)"
      "failed_load K v = (x, v')" for t u b v x v'
    using for_clients_same_fds[OF tcp_transfers_same_fds(1) that(1)] failed_load_neutral[OF that(2)] by (rule same_fds_trans)
  have pass': "same_fds u v'" if "for_clients K (tcp_read fuel K msg) cs t u = Some (b, v)"
      "failed_load K v = (x, v')" for t u b v x v'
    using for_clients_same_fds[OF tcp_transfers_same_fds(2) that(1)] failed_load_neutral[OF that(2)] by (rule same_fds_trans)
  have "ledger w w1 {#}" using ledger_neutral[OF ledger_refl failed_load_neutral[OF l1]] .
  with Suc.prems l1 con l3 clear[of w3] show ?case
    by (auto split: bool.splits option.splits prod.splits intro: clear pass same_fds_trans[OF pass pass']
        ledger_trans[of w _ "{#}" w' "{#}", simplified] dest!: Suc.IH)
qed simp

lemma churn_server_leak_free: "churn_server fuel K msg l its tok w = Some w' \<Longrightarrow> ledger w w' {#}"
proof (induction its arbitrary: tok w)
  case (Suc its)
  obtain b w1 where l1: "failed_load K w = (b, w1)" by fastforce
  obtain r w2 where acc: "listener_accept l K w1 = (r, w2)" by fastforce
  have w1: "ledger w w1 {#}" using ledger_neutral[OF ledger_refl failed_load_neutral[OF l1]] .
  have made: "made stream_fd w1 (r, w2)" using tcp_accept.make_made[of w1 l K] acc by simp
  show ?case
  proof (cases "b \<or> (\<exists>e. r = Inl e)")
    case True
    with Suc.prems l1 acc made w1 ledger_trans[OF w1, of w2 "{#}"] ledger_neutral[of w w2 "{#}" w'] show ?thesis
      by (auto simp: made_def split: bool.splits)
  next
    case False
    then obtain s where s: "r = Inr s" by (cases r) auto
    with made have "ledger w1 w2 (owns (stream_fd s))" by (simp add: made_def owns_def)
    with ledger_trans[OF w1] have own: "ledger w w2 (owns (stream_fd s))" by fastforce
    have gone: "ledger w (fd_destroy K (stream_fd s) v) {#}" if "same_fds w2 v" for v
      using ledger_destroy[OF ledger_neutral[OF own that]] .
    obtain r3 t3 w3 where rd: "read_exact fuel K tok s w2 = Some (r3, t3, w3)"
      using Suc.prems l1 acc False s by (auto split: option.splits)
    have fds3: "same_fds w2 w3" using read_exact_only_receives[OF rd] by (simp add: only_receives_def)
    show ?thesis
    proof (cases r3)
      case (Inl e)
      with Suc.prems l1 acc False s rd gone[of "record_failure K _ w3"] fds3 show ?thesis by auto
    next
      case (Inr u)
      then obtain r4 w4 where wr: "write_all fuel K t3 s w3 = Some (r4, w4)"
        using Suc.prems l1 acc False s rd by (auto split: option.splits)
      have fds4: "same_fds w2 w4"
        using write_all_only_sends[OF wr] same_fds_trans[OF fds3] by (simp add: only_sends_def)
      show ?thesis
      proof (cases r4)
        case (Inl e)
        with Suc.prems l1 acc False s rd Inr wr gone[of "record_failure K _ w4"] fds4 show ?thesis by auto
      next
        case (Inr u4)
        with Suc.prems l1 acc False s rd \<open>r3 = Inr u\<close> wr
        have "churn_server fuel K msg l its t3 (fd_destroy K (stream_fd s) w4) = Some w'" by simp
        from ledger_trans[OF gone[OF fds4] Suc.IH[OF this]] show ?thesis by simp
      qed
    qed
  qed
qed simp

text \<open>
  \<^verbatim>\<open>connect_loopback_socket\<close>, given an empty socket to fill: on success that socket owns what was opened, on
  failure it is as empty as before and nothing is open.
\<close>

lemma posix_connect_loop_ledger:
  assumes "posix_connect_loop fuel K n addr posix_none en w1 = Some (b, out, en', w2)" "ledger w w1 {#n#}" "0 \<le> n"
  shows "if b then ps_fd out = n \<and> ledger w w2 {#n#} else out = posix_none \<and> ledger w w2 {#}"
  using assms(1,2)
proof (induction fuel arbitrary: w1)
  case (Suc fuel)
  have "ledger w (snd (sys K (Connect n addr) w1)) {#n#}"
    using ledger_neutral[OF Suc.prems(2)] by (simp add: same_fds_def)
  with Suc show ?case
    by (auto simp: Let_def case_prod_beta posix_move_assign_def posix_close_def posix_destroy_def posix_none_def
        ledger_def split: if_splits)
qed simp

lemma connect_loopback_socket_ledger:
  assumes "connect_loopback_socket fuel K p posix_none en w = Some (b, out, en', w')"
  shows "if b then 0 \<le> ps_fd out \<and> ledger w w' {#ps_fd out#} else out = posix_none \<and> ledger w w' {#}"
proof -
  let ?c = "Socket SOCK_STREAM False False"
  let ?n = "a_ret (K (trace w) ?c)"
  note l = ledger_sys(2)[of ?c w K]
  show ?thesis
  proof (cases "?n < 0")
    case True
    with assms l show ?thesis by (auto simp: connect_loopback_socket_def Let_def case_prod_beta)
  next
    case False
    with assms have "posix_connect_loop fuel K ?n (loopback_sockaddr p) posix_none en (snd (sys K ?c w)) = Some (b, out, en', w')"
      by (simp add: connect_loopback_socket_def Let_def case_prod_beta)
    from posix_connect_loop_ledger[OF this, of w] l False show ?thesis by (auto split: if_splits)
  qed
qed

lemma posix_destroy_moved: "posix_destroy K (snd (posix_move_construct s)) w = w"
  by (simp add: posix_destroy_def posix_close_def posix_move_construct_def)

lemma connect_sockets_ledger:
  assumes "connect_sockets fuel K msg p c cs w1 = Some (cs', w2)" "ledger w w1 (mset (map ps_fd cs))" "\<forall>s \<in> set cs. 0 \<le> ps_fd s"
  shows "ledger w w2 (mset (map ps_fd cs')) \<and> (\<forall>s \<in> set cs'. 0 \<le> ps_fd s)"
  using assms
proof (induction c arbitrary: cs w1)
  case (Suc c)
  obtain b s en v where con: "connect_loopback_socket fuel K p posix_none 0 w1 = Some (b, s, en, v)"
    using Suc.prems(1) by (auto split: option.splits)
  note l = connect_loopback_socket_ledger[OF con]
  show ?case
  proof (cases b)
    case True
    with l ledger_trans[OF Suc.prems(2)] have "ledger w v (mset (map ps_fd (cs @ [fst (posix_move_construct s)])))"
      by (fastforce simp: posix_move_construct_def)
    with Suc.IH[of "cs @ [fst (posix_move_construct s)]" v] Suc.prems con True l posix_destroy_moved[of K s v] show ?thesis
      by (auto simp: posix_move_construct_def)
  next
    case False
    with l ledger_trans[OF Suc.prems(2)] have "ledger w v (mset (map ps_fd cs))" by fastforce
    with ledger_neutral[of w v _ w2] Suc.prems con False l show ?thesis
      by (auto simp: posix_destroy_def posix_close_def posix_none_def)
  qed
qed simp

lemma clear_sockets_ledger:
  "ledger w w1 (mset (map ps_fd cs)) \<Longrightarrow> \<forall>s \<in> set cs. 0 \<le> ps_fd s \<Longrightarrow> ledger w (clear_sockets K cs w1) {#}"
proof (induction cs arbitrary: w1)
  case (Cons s cs)
  then have "ledger w (posix_destroy K s w1) (mset (map ps_fd cs))"
    by (simp add: ledger_def posix_destroy_def posix_close_def)
  from Cons.IH[OF this] Cons.prems(2) show ?case by (simp add: clear_sockets_def)
qed (simp add: clear_sockets_def)

subsection \<open>The reactor benchmark compares like with like\<close>

text \<open>
  While no wait fails, \<^verbatim>\<open>reactor::wait\<close> over its kept buffer makes exactly the calls of the baseline that
  allocates a buffer for each.
\<close>

lemma reuse_path_calls:
  assumes "epoll_wait_bounded K" "reactor_valid r" "length evs = kBatchSize" "reuse_path K r i w = (True, w')"
    "trace v = trace w"
  shows "trace w' = trace (snd (alloc_baseline K (fd_get (epoll_fd r)) i evs v))"
  using assms(3-5)
proof (induction i arbitrary: evs w v)
  case (Suc i)
  let ?c = "Epoll_wait (fd_get (epoll_fd r)) kBatchSize 0"
  let ?a = "K (trace w) ?c"
  have b: "nat (a_ret ?a) \<le> kBatchSize \<and> (0 < a_ret ?a \<longrightarrow> length (a_events ?a) = nat (a_ret ?a))"
    using assms(1) by (simp add: epoll_wait_bounded_def nat_le_iff)
  obtain x w1 where wait: "reactor_wait K kBatchSize 0 r w = (x, w1)" by fastforce
  with assms(2) have w1: "trace w1 = (?c, ?a) # trace w"
    by (auto simp: reactor_wait_def kBatchSize_def epoll_timeout_def Let_def sys_eq split: prod.splits if_splits)
  have "reuse_path K r i w1 = (True, w')" using Suc.prems(2) wait by (auto split: sum.splits)
  define out1 where "out1 = (if 0 < a_ret ?a
    then map (\<lambda>(f, e). \<lparr>ev_fd = f, ev_events = e\<rparr>) (take (nat (a_ret ?a)) (a_events ?a)) @ drop (nat (a_ret ?a)) evs else evs)"
  have "alloc_baseline K (fd_get (epoll_fd r)) (Suc i) evs v = alloc_baseline K (fd_get (epoll_fd r)) i out1 (snd (sys K ?c v))"
    using Suc.prems(1,3) by (simp add: Let_def sys_eq out1_def cong: if_cong)
  moreover have "length out1 = kBatchSize" using b Suc.prems(1) by (auto simp: out1_def)
  ultimately show ?case
    using Suc.IH[OF _ \<open>reuse_path K r i w1 = (True, w')\<close>, of out1 "snd (sys K ?c v)"] w1 Suc.prems(3) by simp
qed simp

end
