(* ===== verification/Lifetime.thy ===== *)
theory Lifetime
  imports Engine Socket_Interface
begin

section \<open>The end of a loop, an engine and a context\<close>

text \<open>
  The destructors: \<^verbatim>\<open>~event_loop\<close> and \<^verbatim>\<open>~uring_event_loop\<close> destroy the root coroutines, then the members go in
  the reverse order of their declaration, the wake-up descriptor before the reactor. An engine
  destroys whichever loop it holds. What a coroutine's frame owns belongs to the frames' state and is
  destroyed with it.
\<close>

definition reactor_destroy :: "kernel \<Rightarrow> epoll_reactor \<Rightarrow> world \<Rightarrow> world" where
  "reactor_destroy K r w = fd_destroy K (epoll_fd r) w"

definition event_loop_destroy ::
    "kernel \<Rightarrow> ('c, event_loop) coro_env \<Rightarrow> 'c \<Rightarrow> event_loop \<Rightarrow> world \<Rightarrow> 'c \<times> world" where
  "event_loop_destroy K E c el w =
     (let (c1, el1) = destroy_all_roots E c el
      in (c1, reactor_destroy K (reactor el1) (fd_destroy K (wake_fd el1) w)))"

definition uring_loop_destroy ::
    "kernel \<Rightarrow> ('c, uring_loop) coro_env \<Rightarrow> 'c \<Rightarrow> uring_loop \<Rightarrow> world \<Rightarrow> 'c \<times> world" where
  "uring_loop_destroy K U c el w =
     (let (c1, el1) = u_destroy_all_roots U c el
      in (c1, destroy_ring K (u_reactor el1) (fd_destroy K (u_wake_fd el1) w)))"

definition engine_destroy ::
    "kernel \<Rightarrow> ('c, event_loop) coro_env \<Rightarrow> ('c, uring_loop) coro_env \<Rightarrow> 'c \<Rightarrow> engine \<Rightarrow> world \<Rightarrow> 'c \<times> world" where
  "engine_destroy K E U c g w =
     (let (c1, w1) = (case eng_uring g of None \<Rightarrow> (c, w) | Some el \<Rightarrow> uring_loop_destroy K U c el w)
      in case eng_epoll g of None \<Rightarrow> (c1, w1) | Some el \<Rightarrow> event_loop_destroy K E c1 el w1)"

definition io_context_destroy ::
    "kernel \<Rightarrow> ('c, event_loop) coro_env \<Rightarrow> ('c, uring_loop) coro_env \<Rightarrow> 'c \<Rightarrow> io_context \<Rightarrow> world \<Rightarrow> 'c \<times> world" where
  "io_context_destroy K E U c x w = engine_destroy K E U c (ctx_engine x) w"

subsection \<open>What a loop holds does not change\<close>

lemma arm_waiter_holds:
  assumes "arm_waiter K n h rd timeout terr el w = (r, el', w')"
  shows "reactor el' = reactor el \<and> wake_fd el' = wake_fd el"
proof -
  have "reactor el1 = reactor el0 \<and> wake_fd el1 = wake_fd el0"
    if "arm_register K n h rd timeout terr s el0 w = (s1, el1, w1)" for s el0 s1 el1 w1
    using that by (auto simp: arm_register_def Let_def split: prod.splits option.splits if_splits)
  moreover have "reactor (arm_rollback n rd s el0) = reactor el0 \<and> wake_fd (arm_rollback n rd s el0) = wake_fd el0" for s el0
    by (simp add: arm_rollback_def Let_def)
  ultimately show ?thesis using assms
    by (fastforce simp: arm_waiter_def Let_def schedule_def split: if_splits prod.splits sum.splits)
qed

lemma expired_holds:
  assumes "process_expired_waiters K el w = (el', w')"
  shows "reactor el' = reactor el \<and> wake_fd el' = wake_fd el"
  using assms by (cases rule: process_expired_cases) (auto dest!: expire_scan_frame)

lemma event_holds:
  assumes "process_waiter_event K ev el w = (el', w')"
  shows "reactor el' = reactor el \<and> wake_fd el' = wake_fd el"
proof -
  have "reactor el1 = reactor el0 \<and> wake_fd el1 = wake_fd el0" if "fire_registration rd evs s el0 = (s1, el1)" for rd evs s el0 s1 el1
    using fire_registration_frame(3,10)[OF that] by simp
  with assms show ?thesis
    by (fastforce simp: process_waiter_event_def Let_def split: option.splits prod.splits sum.splits if_splits)
qed

interpretation held: loop_property K "\<lambda>el w. reactor el = r \<and> wake_fd el = f" for K r f
proof (unfold_locales, goal_cases)
  case (1 el w el' w')
  from 1(2,1) show ?case
    by (cases rule: client_step.cases)
      (auto simp: schedule_def on_task_completed_def spawn_def consume_wait_result_def stop_def Let_def
        split: if_splits option.splits dest!: arm_waiter_holds)
qed (auto dest!: expired_holds event_holds)

definition u_holds :: "uring_loop \<Rightarrow> uring_reactor \<times> unique_fd" where
  "u_holds el = (u_reactor el, u_wake_fd el)"

lemma allocate_token_holds: "allocate_token el = (t, el') \<Longrightarrow> u_holds el' = u_holds el"
  by (auto simp: allocate_token_def u_holds_def split: option.splits prod.splits)

lemma pending_holds: "el' = el\<lparr>submission_pending := b\<rparr> \<Longrightarrow> u_holds el' = u_holds el"
  by (simp add: u_holds_def)

lemma queues_hold:
  "queue_poll_add K t n m el w = (r, el', w') \<Longrightarrow> u_holds el' = u_holds el"
  "queue_poll_remove K t el w = (r, el', w') \<Longrightarrow> u_holds el' = u_holds el"
  "flush_submissions K el w = (r, el', w') \<Longrightarrow> u_holds el' = u_holds el"
  by (erule pending_holds[OF queue_poll_add_frame], erule pending_holds[OF queue_poll_remove_frame],
      erule flush_submissions_frame, erule pending_holds)

lemma u_updates_hold [simp]:
  "u_holds (el\<lparr>u_waiters := x\<rparr>) = u_holds el" "u_holds (el\<lparr>u_wait_results := y\<rparr>) = u_holds el"
  "u_holds (el\<lparr>u_pending_waiter_count := k\<rparr>) = u_holds el" "u_holds (el\<lparr>u_timed_waiter_count := k\<rparr>) = u_holds el"
  "u_holds (el\<lparr>inflight_polls := ps\<rparr>) = u_holds el" "u_holds (u_schedule h el) = u_holds el"
  "u_holds (el\<lparr>u_loop_error := e, u_stop_requested := b\<rparr>) = u_holds el" "u_holds (el\<lparr>u_stop_requested := b\<rparr>) = u_holds el"
  "u_holds (el\<lparr>u_deadline_index_dirty := b\<rparr>) = u_holds el" "u_holds (el\<lparr>u_next_deadline := d\<rparr>) = u_holds el"
  "u_holds (el\<lparr>u_active_task_count := k\<rparr>) = u_holds el" "u_holds (el\<lparr>u_root_tasks := hs\<rparr>) = u_holds el"
  "u_holds (el\<lparr>u_ready_queue := hs\<rparr>) = u_holds el" "u_holds (el\<lparr>u_loop_error := e\<rparr>) = u_holds el"
  "u_holds (el\<lparr>submission_pending := b\<rparr>) = u_holds el"
  by (simp_all add: u_holds_def u_schedule_def)

lemma u_arm_parts_hold:
  "u_arm_register K n h rd timeout terr t s el w = (s1, el1, w1) \<Longrightarrow> u_holds el1 = u_holds el"
  "u_holds (u_arm_rollback n rd t s el) = u_holds el"
  by (auto simp: u_arm_register_def u_arm_rollback_def u_holds_def Let_def split: prod.splits option.splits if_splits)

lemma u_arm_waiter_holds: "u_arm_waiter K n h rd timeout terr el w = (r, el', w') \<Longrightarrow> u_holds el' = u_holds el"
  by (auto simp: u_arm_waiter_def Let_def u_arm_parts_hold(2) split: if_splits prod.splits sum.splits
      dest!: queues_hold(1) u_arm_parts_hold(1) allocate_token_holds)

lemma u_expire_registration_holds:
  "u_expire_registration K now n rd nd el w = (nd', el', w') \<Longrightarrow> u_holds el' = u_holds el"
  by (auto simp: u_expire_registration_def Let_def split: option.splits if_splits prod.splits sum.splits
      dest!: queues_hold(2))

lemma u_erase_idle_holds [simp]: "u_holds (u_erase_idle n el) = u_holds el"
  by (simp add: u_erase_idle_def split: option.splits)

lemma u_expire_scan_holds: "u_expire_scan K now ns nd el w = (b, nd', el', w') \<Longrightarrow> u_holds el' = u_holds el"
proof (induction ns arbitrary: nd el w)
  case (Cons n ns)
  obtain nd1 el1 w1 where e1: "u_expire_registration K now n True nd el w = (nd1, el1, w1)" by (metis prod_cases3)
  obtain nd2 el2 w2 where e2: "u_expire_registration K now n False nd1 el1 w1 = (nd2, el2, w2)" by (metis prod_cases3)
  from Cons e1 e2 u_expire_registration_holds[OF e1] u_expire_registration_holds[OF e2] show ?case
    by (auto split: if_splits)
qed simp

lemma u_expired_holds: "u_process_expired_waiters K el w = (el', w') \<Longrightarrow> u_holds el' = u_holds el"
  by (cases rule: u_process_expired_cases) (auto dest!: u_expire_scan_holds simp: u_holds_def split: if_splits)

lemma u_completion_holds: "u_holds (process_poll_completion c el) = u_holds el"
  by (simp add: process_poll_completion_def Let_def u_holds_def u_schedule_def split: option.splits)

interpretation u_held: uring_property K "\<lambda>el. u_holds el = x" for K x
proof (unfold_locales, goal_cases)
  case (1 el w el' w')
  from 1(2,1) show ?case
    by (cases rule: u_client_step.cases)
      (auto simp: u_on_task_completed_def u_spawn_def u_consume_wait_result_def u_stop_def u_holds_def u_schedule_def Let_def
        split: if_splits option.splits dest!: u_arm_waiter_holds[unfolded u_holds_def])
qed (auto simp: u_completion_holds dest!: u_expired_holds)

subsection \<open>From construction to destruction\<close>

text \<open>The descriptors a context holds, and what can happen to it and to the world between its two ends.\<close>

definition held_fds :: "io_context \<Rightarrow> int multiset" where
  "held_fds x =
     (case eng_epoll (ctx_engine x) of None \<Rightarrow> {#} | Some el \<Rightarrow> owns (epoll_fd (reactor el)) + owns (wake_fd el))
     + (case eng_uring (ctx_engine x) of None \<Rightarrow> {#} | Some el \<Rightarrow> owns (u_wake_fd el))"

inductive context_step ::
    "kernel \<Rightarrow> ('v coros, event_loop) coro_env \<Rightarrow> ('v coros, uring_loop) coro_env \<Rightarrow> io_context \<times> world
       \<Rightarrow> io_context \<times> world \<Rightarrow> bool" for K E U where
  cs_spawn: "io_context_spawn self t (c :: 'v coros) x = (t1, c1, x1) \<Longrightarrow> context_step K E U (x, w) (x1, w)"
| cs_run: "io_context_run fuel K E U c x w = Some (r, c1, x1, w1) \<Longrightarrow> context_step K E U (x, w) (x1, w1)"
| cs_stop: "io_context_stop fuel K x w = Some (x1, w1) \<Longrightarrow> context_step K E U (x, w) (x1, w1)"
| cs_outside: "extends w w1 \<Longrightarrow> context_step K E U (x, w) (x, w1)"

lemma spawn_stop_hold:
  "reactor (spawn h el) = reactor el" "wake_fd (spawn h el) = wake_fd el" "u_holds (u_spawn h ul) = u_holds ul"
  "stop fuel K el w = Some (el', w') \<Longrightarrow> reactor el' = reactor el \<and> wake_fd el' = wake_fd el"
  "u_stop fuel K ul w = Some (ul', w') \<Longrightarrow> u_holds ul' = u_holds ul"
  by (auto simp: spawn_def u_spawn_def schedule_def u_schedule_def u_holds_def stop_def u_stop_def Let_def split: if_splits)

lemma context_step_holds:
  assumes "library_client K E" "u_library_client K U" "context_step K E U (x, w) (x', w')"
  shows "held_fds x' = held_fds x"
  using assms(3)
proof cases
  case (cs_spawn self t c t1 c1)
  then show ?thesis
    using spawn_stop_hold(1,2) spawn_stop_hold(3)[unfolded u_holds_def]
    by (auto simp: io_context_spawn_def engine_spawn_def loop_spawn_task_def uring_spawn_task_def task_release_def
        held_fds_def split: option.splits)
next
  case (cs_run fuel c r c1)
  have "reactor el1 = reactor el \<and> wake_fd el1 = wake_fd el" if "run fuel K E c el w = Some (r, c1, el1, w')" for el el1
    using held.ran[OF assms(1) that, of "reactor el" "wake_fd el"] by simp
  moreover have "u_wake_fd el1 = u_wake_fd el" if "u_run fuel K U c el w = Some (r, c1, el1, w')" for el el1
    using u_held.ran[OF assms(2) that, of "u_holds el"] by (simp add: u_holds_def)
  ultimately show ?thesis using cs_run
    by (auto simp: io_context_run_def engine_run_def held_fds_def split: option.splits)
next
  case (cs_stop fuel)
  then show ?thesis
    by (auto simp: io_context_stop_def engine_stop_def held_fds_def u_holds_def split: option.splits
        dest!: spawn_stop_hold(4,5))
qed simp

lemma submission_neutral:
  "queue_poll_add K t n m el w = (r, el', w') \<Longrightarrow> opened (trace w') = opened (trace w) \<and> closed (trace w') = closed (trace w)
     \<and> u_holds el' = u_holds el"
  "flush_submissions K el w = (r, el', w') \<Longrightarrow> opened (trace w') = opened (trace w) \<and> closed (trace w') = closed (trace w)
     \<and> u_holds el' = u_holds el"
  using queues_hold(1)[of K t n m el w r el' w'] queues_hold(3)[of K el w r el' w']
  by (auto simp: queue_poll_add_def flush_submissions_def submit_poll_add_def uring_submit_def sys_eq Let_def
      split: prod.splits sum.splits if_splits)

lemma uring_create_neutral:
  "uring_create K depth w = (r, w') \<Longrightarrow> opened (trace w') = opened (trace w) \<and> closed (trace w') = closed (trace w)"
  by (auto simp: uring_create_def destroy_ring_def sys_eq Let_def split: if_splits)

lemma construct_ledger:
  assumes "io_context_construct K b depth w = (x, w')"
  shows "ledger w w' (held_fds x)"
proof (cases b)
  case Epoll
  with assms show ?thesis
    by (auto simp: io_context_construct_def engine_construct_def event_loop_construct_def reactor_create_def fresh_loop_def
        reactor_add_def reactor_ctl_def held_fds_def ledger_def owns_def fd_valid_def empty_reactor_def sys_eq Let_def
        split: prod.splits sum.splits if_splits)
next
  case Io_uring
  obtain el where el: "uring_loop_construct K depth w = (el, w')" "held_fds x = owns (u_wake_fd el)"
    using assms Io_uring by (auto simp: io_context_construct_def engine_construct_def held_fds_def Let_def split: prod.splits)
  obtain r w1 where cr: "uring_create K depth w = (r, w1)" by fastforce
  from el(1) cr uring_create_neutral[OF cr] have "ledger w w' (owns (u_wake_fd el))"
    by (auto simp: uring_loop_construct_def fresh_uring_loop_def ledger_def owns_def fd_valid_def sys_eq Let_def
        split: prod.splits sum.splits if_splits dest!: submission_neutral allocate_token_holds)
      (simp_all add: u_holds_def)
  with el(2) show ?thesis by simp
qed

lemma engine_destroy_closes:
  assumes "io_context_destroy K E U c x w = (c', w')"
  shows "opened (trace w') = opened (trace w) \<and> mset (closed (trace w')) = mset (closed (trace w)) + held_fds x"
proof -
  have d: "opened (trace (fd_destroy K u v)) = opened (trace v)" "mset (closed (trace (fd_destroy K u v))) = mset (closed (trace v)) + owns u"
    "opened (trace (destroy_ring K r v)) = opened (trace v)" "closed (trace (destroy_ring K r v)) = closed (trace v)" for u v r
    by (auto simp: fd_destroy_eq owns_def destroy_ring_def)
  from assms show ?thesis
    by (auto simp: io_context_destroy_def engine_destroy_def event_loop_destroy_def uring_loop_destroy_def reactor_destroy_def
        destroy_all_roots_def u_destroy_all_roots_def held_fds_def d Let_def split: option.splits prod.splits)
qed



end
