(* ===== verification/Benchmark_Mains.thy ===== *)
theory Benchmark_Mains
  imports Complex_Main Benchmarks Lifetime
begin

section \<open>The benchmark programs as wholes\<close>

text \<open>
  \<^verbatim>\<open>main\<close> of \<^verbatim>\<open>example/perf_tcp_echo_libsimplenet.cpp\<close>, \<^verbatim>\<open>perf_async_echo_libsimplenet.cpp\<close>,
  \<^verbatim>\<open>perf_connection_churn_libsimplenet.cpp\<close> and \<^verbatim>\<open>perf_reactor_wait.cpp\<close>, over the parts that \<open>Benchmarks\<close>
  models.

  A thread that \<^verbatim>\<open>main\<close> starts is executed, as a function, where \<^verbatim>\<open>main\<close> joins it. Threads share nothing but
  the flag, the message, the counter of accepted connections and the stop flag of a loop, and each
  access to these is a call that the environment answers from the history. So for every
  interleaving of the threads there is an environment that gives each of them the same answers when
  one runs after the other, and what holds for all environments holds for all interleavings.

  Figures are rational numbers: rounding to \<^verbatim>\<open>double\<close> is not modelled. The programs decide only by the
  sign of the elapsed time, which rounding keeps. The parameter \<open>fmt\<close> is how a stream writes a \<^verbatim>\<open>double\<close>.
\<close>

subsection \<open>Threads, messages, figures\<close>

text \<open>
  A thread has its own \<^verbatim>\<open>errno\<close>, event buffer and sleep timer; a timer it created is closed when it ends.
\<close>

definition thread_exit :: "kernel \<Rightarrow> world \<Rightarrow> world" where
  "thread_exit K w = (case sleep_timer w of None \<Rightarrow> w | Some n \<Rightarrow> fd_destroy K (make_fd n) w)"

definition joined_thread :: "kernel \<Rightarrow> (world \<Rightarrow> ('a \<times> world) option) \<Rightarrow> world \<Rightarrow> ('a \<times> world) option" where
  "joined_thread K f w =
     (case f (w\<lparr>errno := 0, cached_events := 0, sleep_timer := None\<rparr>) of
        None \<Rightarrow> None
      | Some (x, w1) \<Rightarrow>
          let w2 = snd (sys K Thread_join (thread_exit K w1))
          in Some (x, w2\<lparr>errno := errno w, cached_events := cached_events w, sleep_timer := sleep_timer w\<rparr>))"

definition show_size :: "64 word \<Rightarrow> string" where
  "show_size v = to_string (unat v)"

text \<open>Seconds of a \<^verbatim>\<open>steady_clock\<close> duration.\<close>

definition seconds :: "time \<Rightarrow> rat" where
  "seconds ns = of_int ns / 1000000000"

text \<open>
  The end of the three socket benchmarks: the exit code, and the message recorded with the flag, the
  complaint about the clock or the line of figures.
\<close>

definition finish_benchmark :: "kernel \<Rightarrow> time \<Rightarrow> string \<Rightarrow> world \<Rightarrow> int \<times> world" where
  "finish_benchmark K elapsed report w =
     (case failed_load K w of
        (True, w1) \<Rightarrow>
          let (a, w2) = sys K Load_message w1
          in (1, cerr K (''benchmark failed: '' @ from_bytes (a_data a) @ newline) w2)
      | (False, w1) \<Rightarrow>
          if seconds elapsed \<le> 0 then (1, cerr K (''benchmark failed: non-positive runtime'' @ newline) w1)
          else (0, cout K report w1))"

text \<open>
  What \<^verbatim>\<open>main\<close> of the two blocking benchmarks does once it has its options: the listener, the thread of
  the server, the clients in \<^verbatim>\<open>main\<close> itself, the join. The listener is the last to be destroyed.
\<close>

definition blocking_benchmark ::
    "inet \<Rightarrow> kernel \<Rightarrow> messages \<Rightarrow> int \<Rightarrow> (16 word \<Rightarrow> world \<Rightarrow> (time \<times> world) option)
       \<Rightarrow> (tcp_listener \<Rightarrow> world \<Rightarrow> (unit \<times> world) option) \<Rightarrow> (time \<Rightarrow> string) \<Rightarrow> world \<Rightarrow> (int \<times> world) option" where
  "blocking_benchmark I K msg backlog clients server report w =
     (case listener_bind I (loopback 0) backlog K w of
        (Inl e, w1) \<Rightarrow> Some (1, cerr K (''bind failed: '' @ msg e @ newline) w1)
      | (Inr l, w1) \<Rightarrow>
          (case listener_local_port K l w1 of
             (Inl e, w2) \<Rightarrow>
               Some (1, fd_destroy K (listener_fd l) (cerr K (''local_port failed: '' @ msg e @ newline) w2))
           | (Inr p, w2) \<Rightarrow>
               (case clients p (snd (sys K Thread_start w2)) of
                  None \<Rightarrow> None
                | Some (elapsed, w3) \<Rightarrow>
                    (case joined_thread K (server l) w3 of
                       None \<Rightarrow> None
                     | Some (_, w4) \<Rightarrow>
                         let (code, w5) = finish_benchmark K elapsed (report elapsed) w4
                         in Some (code, fd_destroy K (listener_fd l) w5)))))"

subsection \<open>TCP echo\<close>

definition usage_tcp :: string where
  "usage_tcp = ''usage: simplenet_perf_tcp_echo_libsimplenet [--iterations N] [--payload-size N] [--connections N]'' @ newline"

fun run_handlers :: "nat \<Rightarrow> kernel \<Rightarrow> messages \<Rightarrow> nat \<Rightarrow> nat \<Rightarrow> tcp_stream list \<Rightarrow> world \<Rightarrow> (unit \<times> world) option" where
  "run_handlers fuel K msg its size_arg [] w = Some ((), w)"
| "run_handlers fuel K msg its size_arg (s # ss) w =
     (case joined_thread K (run_echo_connection fuel K msg s its size_arg) w of
        None \<Rightarrow> None
      | Some (left_over, w1) \<Rightarrow> run_handlers fuel K msg its size_arg ss w1)"

definition tcp_server_thread ::
    "nat \<Rightarrow> kernel \<Rightarrow> messages \<Rightarrow> tcp_listener \<Rightarrow> options \<Rightarrow> world \<Rightarrow> (unit \<times> world) option" where
  "tcp_server_thread fuel K msg l opts w =
     (let (handlers, w1) = tcp_accept_loop K msg l (unat (connections opts)) [] w
      in run_handlers fuel K msg (unat (iterations opts)) (unat (payload_size opts)) handlers w1)"

text \<open>The part of \<^verbatim>\<open>main\<close> that plays the clients; the result is the elapsed time.\<close>

definition tcp_clients ::
    "nat \<Rightarrow> inet \<Rightarrow> kernel \<Rightarrow> messages \<Rightarrow> options \<Rightarrow> 16 word \<Rightarrow> world \<Rightarrow> (time \<times> world) option" where
  "tcp_clients fuel I K msg opts p w =
     (let (clients, w1) = connect_clients I K msg p (unat (connections opts)) [] w;
          (start, w2) = clock_now K w1
      in case tcp_client_rounds fuel K msg (unat (iterations opts)) (unat (payload_size opts)) clients w2 of
           None \<Rightarrow> None
         | Some w3 \<Rightarrow> let (fin, w4) = clock_now K w3 in Some (fin - start, clear_clients K clients w4))"

definition tcp_report :: "(rat \<Rightarrow> string) \<Rightarrow> options \<Rightarrow> time \<Rightarrow> string" where
  "tcp_report fmt opts elapsed =
     (let total_s = seconds elapsed
      in ''PERF,impl=libsimplenet,scenario=tcp_echo,iterations='' @ show_size (iterations opts)
         @ '',payload_size='' @ show_size (payload_size opts) @ '',connections='' @ show_size (connections opts)
         @ '',echoes='' @ show_size (echoes opts) @ '',bytes='' @ show_size (total_bytes opts)
         @ '',total_ms='' @ fmt (total_s * 1000)
         @ '',echoes_per_sec='' @ fmt (of_nat (unat (echoes opts)) / total_s)
         @ '',mb_per_sec='' @ fmt (of_nat (unat (total_bytes opts)) / 1000000 / total_s) @ newline)"

definition tcp_echo_main ::
    "nat \<Rightarrow> inet \<Rightarrow> kernel \<Rightarrow> messages \<Rightarrow> (rat \<Rightarrow> string) \<Rightarrow> string list \<Rightarrow> world \<Rightarrow> (int \<times> world) option" where
  "tcp_echo_main fuel I K msg fmt args w =
     (case parse_args_tcp args default_options of
        None \<Rightarrow> Some (2, cerr K usage_tcp w)
      | Some opts \<Rightarrow>
          if \<not> product_fits (iterations opts) (connections opts)
          then Some (2, cerr K (''iterations * connections overflow'' @ newline) w)
          else blocking_benchmark I K msg (listen_backlog (connections opts)) (tcp_clients fuel I K msg opts)
                 (\<lambda>l. tcp_server_thread fuel K msg l opts) (tcp_report fmt opts) w)"

subsection \<open>Connection churn\<close>

definition usage_churn :: string where
  "usage_churn = ''usage: simplenet_perf_connection_churn_libsimplenet [--iterations N] [--connections N]'' @ newline"

definition total_connections :: "churn_options \<Rightarrow> 64 word" where
  "total_connections opts = churn_iterations opts * churn_connections opts"

definition churn_bytes :: "churn_options \<Rightarrow> 64 word" where
  "churn_bytes opts = total_connections opts * 2"

definition churn_report :: "(rat \<Rightarrow> string) \<Rightarrow> churn_options \<Rightarrow> time \<Rightarrow> string" where
  "churn_report fmt opts elapsed =
     (let total_s = seconds elapsed
      in ''PERF,impl=libsimplenet,scenario=connection_churn,iterations='' @ show_size (churn_iterations opts)
         @ '',connections='' @ show_size (churn_connections opts)
         @ '',total_connections='' @ show_size (total_connections opts) @ '',bytes='' @ show_size (churn_bytes opts)
         @ '',total_ms='' @ fmt (total_s * 1000)
         @ '',connections_per_sec='' @ fmt (of_nat (unat (total_connections opts)) / total_s) @ newline)"

definition churn_clients ::
    "nat \<Rightarrow> inet \<Rightarrow> kernel \<Rightarrow> messages \<Rightarrow> churn_options \<Rightarrow> 16 word \<Rightarrow> world \<Rightarrow> (time \<times> world) option" where
  "churn_clients fuel I K msg opts p w =
     (let (start, w1) = clock_now K w
      in case churn_rounds fuel I K msg p (unat (churn_connections opts)) (unat (churn_iterations opts)) [0x7F] w1 of
           None \<Rightarrow> None
         | Some w2 \<Rightarrow> let (fin, w3) = clock_now K w2 in Some (fin - start, w3))"

definition churn_server_thread ::
    "nat \<Rightarrow> kernel \<Rightarrow> messages \<Rightarrow> tcp_listener \<Rightarrow> churn_options \<Rightarrow> world \<Rightarrow> (unit \<times> world) option" where
  "churn_server_thread fuel K msg l opts w =
     map_option (Pair ()) (churn_server fuel K msg l (unat (total_connections opts)) [0] w)"

definition churn_main ::
    "nat \<Rightarrow> inet \<Rightarrow> kernel \<Rightarrow> messages \<Rightarrow> (rat \<Rightarrow> string) \<Rightarrow> string list \<Rightarrow> world \<Rightarrow> (int \<times> world) option" where
  "churn_main fuel I K msg fmt args w =
     (case parse_args_churn args default_churn_options of
        None \<Rightarrow> Some (2, cerr K usage_churn w)
      | Some opts \<Rightarrow>
          if \<not> product_fits (churn_iterations opts) (churn_connections opts)
          then Some (2, cerr K (''iterations * connections overflow'' @ newline) w)
          else blocking_benchmark I K msg (listen_backlog (churn_connections opts)) (churn_clients fuel I K msg opts)
                 (\<lambda>l. churn_server_thread fuel K msg l opts) (churn_report fmt opts) w)"

subsection \<open>Asynchronous echo\<close>

text \<open>
  The accept loop is a coroutine, a frame at the address \<open>h\<close>; what resuming it and the sessions does is
  given by the environments \<open>E\<close> and \<open>U\<close>, as in \<open>Engine\<close>. The runtime thread is \<^verbatim>\<open>context.run()\<close>, which begins
  by clearing the stop flag; whether it sees the stop that \<^verbatim>\<open>main\<close> requests is up to the environment.
\<close>

definition usage_async :: string where
  "usage_async = ''usage: simplenet_perf_async_echo_libsimplenet [--iterations N] [--payload-size N] [--connections N] ''
     @ ''[--backend epoll|io_uring] [--uring-queue-depth N]'' @ newline"

definition async_clients ::
    "nat \<Rightarrow> kernel \<Rightarrow> messages \<Rightarrow> async_options \<Rightarrow> 16 word \<Rightarrow> world \<Rightarrow> (time \<times> world) option" where
  "async_clients fuel K msg opts p w =
     (case connect_sockets fuel K msg p (unat (connections opts)) [] w of
        None \<Rightarrow> None
      | Some (clients, w1) \<Rightarrow>
          let (start, w2) = clock_now K w1
          in case async_client_rounds fuel K msg (unat (iterations opts)) (unat (payload_size opts)) clients w2 of
               None \<Rightarrow> None
             | Some w3 \<Rightarrow> let (fin, w4) = clock_now K w3 in Some (fin - start, clear_sockets K clients w4))"

text \<open>What \<^verbatim>\<open>main\<close> records after the join: a failed run, or connections that were not accepted.\<close>

definition async_verdict :: "kernel \<Rightarrow> messages \<Rightarrow> async_options \<Rightarrow> unit result \<Rightarrow> world \<Rightarrow> world" where
  "async_verdict K msg opts status w =
     (let w1 = (case status of
                  Inr _ \<Rightarrow> w
                | Inl e \<Rightarrow> (case failed_load K w of
                             (True, v) \<Rightarrow> v
                           | (False, v) \<Rightarrow> record_failure K (''runtime run failed: '' @ msg e) v));
          (a, w2) = sys K Load_accepted w1
      in if a_num a \<noteq> uint (connections opts)
         then (case failed_load K w2 of
                 (True, v) \<Rightarrow> v
               | (False, v) \<Rightarrow> record_failure K ''accepted connection count mismatch'' v)
         else w2)"

definition async_report :: "(rat \<Rightarrow> string) \<Rightarrow> async_options \<Rightarrow> time \<Rightarrow> string" where
  "async_report fmt opts elapsed =
     (let total_s = seconds elapsed
      in ''PERF,impl=libsimplenet,scenario=async_tcp_echo,backend='' @ backend_name (opt_backend opts)
         @ '',iterations='' @ show_size (iterations opts)
         @ '',payload_size='' @ show_size (payload_size opts) @ '',connections='' @ show_size (connections opts)
         @ '',echoes='' @ show_size (echoes opts) @ '',bytes='' @ show_size (total_bytes opts)
         @ '',uring_queue_depth='' @ to_string (unat (uring_queue_depth opts))
         @ '',total_ms='' @ fmt (total_s * 1000)
         @ '',echoes_per_sec='' @ fmt (of_nat (unat (echoes opts)) / total_s)
         @ '',mb_per_sec='' @ fmt (of_nat (unat (total_bytes opts)) / 1000000 / total_s) @ newline)"

definition async_benchmark ::
    "nat \<Rightarrow> kernel \<Rightarrow> ('v coros, event_loop) coro_env \<Rightarrow> ('v coros, uring_loop) coro_env \<Rightarrow> messages \<Rightarrow> (rat \<Rightarrow> string)
       \<Rightarrow> nat \<Rightarrow> co_handle \<Rightarrow> async_options \<Rightarrow> 16 word \<Rightarrow> nb_listener \<Rightarrow> 'v coros \<Rightarrow> io_context \<Rightarrow> world
       \<Rightarrow> (int \<times> 'v coros \<times> world) option" where
  "async_benchmark fuel K E U msg fmt self h opts p l c x w =
     (let (t, c1) = get_return_object h c;
          (t1, c2, x1) = io_context_spawn self t c1 x
      in case async_clients fuel K msg opts p (snd (sys K Thread_start w)) of
           None \<Rightarrow> None
         | Some (elapsed, w1) \<Rightarrow>
             (case io_context_stop fuel K x1 w1 of
                None \<Rightarrow> None
              | Some (x2, w2) \<Rightarrow>
                  (case joined_thread K (\<lambda>v. map_option (\<lambda>(r, c', x', v'). ((r, c', x'), v'))
                          (io_context_run fuel K E U (task_destroy t1 c2) x2 v)) w2 of
                     None \<Rightarrow> None
                   | Some ((status, c3, x3), w3) \<Rightarrow>
                       let (code, w4) = finish_benchmark K elapsed (async_report fmt opts elapsed)
                                          (async_verdict K msg opts status w3)
                       in Some (code, io_context_destroy K E U c3 x3 (fd_destroy K (nb_listener_fd l) w4)))))"

definition async_echo_main ::
    "nat \<Rightarrow> inet \<Rightarrow> kernel \<Rightarrow> ('v coros, event_loop) coro_env \<Rightarrow> ('v coros, uring_loop) coro_env \<Rightarrow> messages
       \<Rightarrow> (rat \<Rightarrow> string) \<Rightarrow> nat \<Rightarrow> co_handle \<Rightarrow> string list \<Rightarrow> 'v coros \<Rightarrow> world \<Rightarrow> (int \<times> 'v coros \<times> world) option" where
  "async_echo_main fuel I K E U msg fmt self h args c w =
     (case parse_args_async args default_async_options of
        None \<Rightarrow> Some (2, c, cerr K usage_async w)
      | Some opts \<Rightarrow>
          if \<not> product_fits (iterations opts) (connections opts)
          then Some (2, c, cerr K (''iterations * connections overflow'' @ newline) w)
          else
            let (x, w1) = io_context_construct K (opt_backend opts) (uring_queue_depth opts) w
            in if \<not> io_context_valid x
               then Some (3, io_context_destroy K E U c x
                      (cerr K (''backend unavailable: '' @ backend_name (opt_backend opts) @ newline) w1))
               else case nb_bind I (loopback 0) (listen_backlog (connections opts)) K w1 of
                      (Inl e, w2) \<Rightarrow>
                        Some (1, io_context_destroy K E U c x (cerr K (''bind failed: '' @ msg e @ newline) w2))
                    | (Inr l, w2) \<Rightarrow>
                        (case nb_local_port K l w2 of
                           (Inl e, w3) \<Rightarrow>
                             Some (1, io_context_destroy K E U c x (fd_destroy K (nb_listener_fd l)
                               (cerr K (''local_port failed: '' @ msg e @ newline) w3)))
                         | (Inr p, w3) \<Rightarrow> async_benchmark fuel K E U msg fmt self h opts p l c x w3))"

subsection \<open>Waiting on the reactor\<close>

record bench_result =
  total_ms :: rat
  avg_ns_per_wait :: rat
  waits_per_sec :: rat

definition bench_figures :: "64 word \<Rightarrow> time \<Rightarrow> bench_result" where
  "bench_figures its elapsed =
     (let total_s = seconds elapsed
      in \<lparr>total_ms = total_s * 1000, avg_ns_per_wait = total_s * 1000000000 / of_nat (unat its),
          waits_per_sec = of_nat (unat its) / total_s\<rparr>)"

definition run_alloc_baseline :: "kernel \<Rightarrow> int \<Rightarrow> 64 word \<Rightarrow> world \<Rightarrow> bench_result \<times> world" where
  "run_alloc_baseline K ep its w =
     (let (start, w1) = clock_now K w;
          (_, w2) = alloc_baseline K ep (unat its) (replicate kBatchSize \<lparr>ev_fd = -1, ev_events = 0\<rparr>) w1;
          (fin, w3) = clock_now K w2
      in (bench_figures its (fin - start), w3))"

definition run_reuse_path :: "kernel \<Rightarrow> epoll_reactor \<Rightarrow> 64 word \<Rightarrow> world \<Rightarrow> bench_result \<times> world" where
  "run_reuse_path K r its w =
     (let (start, w1) = clock_now K w
      in case reuse_path K r (unat its) w1 of
           (False, w2) \<Rightarrow> (\<lparr>total_ms = 0, avg_ns_per_wait = 0, waits_per_sec = 0\<rparr>, w2)
         | (True, w2) \<Rightarrow> let (fin, w3) = clock_now K w2 in (bench_figures its (fin - start), w3))"

definition result_line :: "(rat \<Rightarrow> string) \<Rightarrow> string \<Rightarrow> 64 word \<Rightarrow> bench_result \<Rightarrow> string" where
  "result_line fmt name its r = name @ '','' @ show_size its @ '','' @ fmt (total_ms r) @ '',''
     @ fmt (avg_ns_per_wait r) @ '','' @ fmt (waits_per_sec r) @ newline"

text \<open>The part of \<^verbatim>\<open>main\<close> after the header line, by mode; each path that prints figures has found them positive.\<close>

definition reactor_modes ::
    "kernel \<Rightarrow> (rat \<Rightarrow> string) \<Rightarrow> bench_mode \<Rightarrow> epoll_reactor \<Rightarrow> 64 word \<Rightarrow> world \<Rightarrow> int \<times> world" where
  "reactor_modes K fmt mode r its w =
     (if mode = Alloc_only then
        let (alloc, w1) = run_alloc_baseline K (reactor_native_handle r) its w
        in if total_ms alloc \<le> 0 then (1, cerr K (''benchmark failed'' @ newline) w1)
           else (0, cout K (result_line fmt ''alloc_baseline'' its alloc) w1)
      else if mode = Reuse_only then
        let (reuse, w1) = run_reuse_path K r its w
        in if total_ms reuse \<le> 0 then (1, cerr K (''benchmark failed'' @ newline) w1)
           else (0, cout K (result_line fmt ''reuse_path'' its reuse) w1)
      else
        let (alloc, w1) = run_alloc_baseline K (reactor_native_handle r) its w;
            (reuse, w2) = run_reuse_path K r its w1
        in if total_ms reuse \<le> 0 \<or> total_ms alloc \<le> 0 then (1, cerr K (''benchmark failed'' @ newline) w2)
           else (0, cout K (''speedup_x,'' @ fmt (total_ms alloc / total_ms reuse) @ newline)
                      (cout K (result_line fmt ''reuse_path'' its reuse)
                        (cout K (result_line fmt ''alloc_baseline'' its alloc) w2))))"

definition usage_reactor :: string where
  "usage_reactor = ''usage: simplenet_perf_reactor_wait [iterations] [--mode all|alloc|reuse]'' @ newline"

text \<open>
  \<^verbatim>\<open>main\<close>, with the part that has the reactor as a definition of its own: leaving it destroys the reactor,
  then the two ends of the pipe, the writing end first.
\<close>

definition reactor_session ::
    "kernel \<Rightarrow> messages \<Rightarrow> (rat \<Rightarrow> string) \<Rightarrow> bench_mode \<Rightarrow> 64 word \<Rightarrow> int \<Rightarrow> world \<Rightarrow> int \<times> world" where
  "reactor_session K msg fmt mode its read_fd w =
     (case reactor_create K w of
        (Inl e, w1) \<Rightarrow> (1, cerr K (''reactor create failed: '' @ msg e @ newline) w1)
      | (Inr r, w1) \<Rightarrow>
          (case reactor_add K read_fd (EPOLLIN OR EPOLLET) r w1 of
             (Inl e, w2) \<Rightarrow> (1, fd_destroy K (epoll_fd r) (cerr K (''reactor add failed: '' @ msg e @ newline) w2))
           | (Inr _, w2) \<Rightarrow>
               let (code, w3) = reactor_modes K fmt mode r its
                     (cout K (''mode,iterations,total_ms,avg_ns_per_wait,waits_per_sec'' @ newline) w2)
               in (code, fd_destroy K (epoll_fd r) w3)))"

definition reactor_wait_main ::
    "kernel \<Rightarrow> messages \<Rightarrow> (rat \<Rightarrow> string) \<Rightarrow> string list \<Rightarrow> world \<Rightarrow> int \<times> world" where
  "reactor_wait_main K msg fmt args w =
     (case parse_args_reactor args 200000 All of
        None \<Rightarrow> (1, cerr K usage_reactor w)
      | Some (its, mode) \<Rightarrow>
          let (a, w1) = sys K Pipe2 w
          in if a_ret a \<noteq> 0 then (1, cerr K (''pipe2 failed'' @ newline) w1)
             else
               let read_end = make_fd (fst (a_pipe a)); write_end = make_fd (snd (a_pipe a));
                   (code, w2) = reactor_session K msg fmt mode its (fd_get read_end) w1
               in (code, fd_destroy K read_end (fd_destroy K write_end w2)))"

end
