(* ===== verification/Benchmark_Traffic.thy ===== *)
theory Benchmark_Traffic
  imports Benchmarks_Facts Benchmark_Mains
begin

section \<open>What the benchmarks transfer\<close>

text \<open>
  The bytes a program has sent and received over all its connections, and how many each part of a
  benchmark adds to them unless a failure was recorded or seen. The relation is closed under
  composition, so the parts are added up in the order in which \<^verbatim>\<open>main\<close> calls them.
\<close>

subsection \<open>Totals\<close>

fun sent_total :: "history \<Rightarrow> nat" where
  "sent_total [] = 0"
| "sent_total ((c, a) # tr) = sent_total tr +
     (case c of
        Send n buf \<Rightarrow> length (take (nat (a_ret a)) buf)
      | Send_plain n buf \<Rightarrow> length (take (nat (a_ret a)) buf)
      | _ \<Rightarrow> 0)"

fun received_total :: "history \<Rightarrow> nat" where
  "received_total [] = 0"
| "received_total ((c, a) # tr) = received_total tr +
     (case c of Recv n m \<Rightarrow> if 0 \<le> a_ret a then length (a_data a) else 0 | _ \<Rightarrow> 0)"

lemma totals_append [simp]:
  "sent_total (xs @ ys) = sent_total xs + sent_total ys" "received_total (xs @ ys) = received_total xs + received_total ys"
  by (induction xs) auto

text \<open>
  Between \<open>w\<close> and \<open>w'\<close>, \<open>s\<close> bytes were sent and \<open>r\<close> received, unless a failure is seen by then; a failure
  that was seen before is not forgotten.
\<close>

definition traffic :: "nat \<Rightarrow> nat \<Rightarrow> world \<Rightarrow> world \<Rightarrow> bool" where
  "traffic s r w w' = ((failed_seen (trace w) \<longrightarrow> failed_seen (trace w'))
     \<and> (failed_seen (trace w') \<or>
         (sent_total (trace w') = sent_total (trace w) + s \<and> received_total (trace w') = received_total (trace w) + r)))"

lemma traffic_refl [simp]: "traffic 0 0 w w"
  by (auto simp: traffic_def)

lemma traffic_trans [trans]: "traffic s r w w1 \<Longrightarrow> traffic s' r' w1 w2 \<Longrightarrow> traffic (s + s') (r + r') w w2"
  by (auto simp: traffic_def)

lemma traffic_failed: "failed_seen (trace w') \<Longrightarrow> traffic s r w w'"
  by (simp add: traffic_def)

lemma traffic_record_failure [simp]: "traffic s r w (record_failure K t v)"
  by (simp add: traffic_failed)

lemma traffic_same_trace: "trace v = trace w \<Longrightarrow> trace v' = trace w' \<Longrightarrow> traffic s r v v' = traffic s r w w'"
  by (simp add: traffic_def)

text \<open>Calls that transfer nothing, and what is made of them.\<close>

fun silent_call :: "ext_call \<Rightarrow> bool" where
  "silent_call (Send _ _) = False"
| "silent_call (Send_plain _ _) = False"
| "silent_call (Recv _ _) = False"
| "silent_call _ = True"

lemma traffic_silent: "silent_call c \<Longrightarrow> traffic 0 0 w (snd (sys K c w))"
  by (cases c) (auto simp: traffic_def)

lemma send_calls_traffic:
  assumes "only_calls (send_call n) w w'" "sent n (trace w') = sent n (trace w) @ bytes"
  shows "traffic (length bytes) 0 w w'"
proof -
  obtain new where new: "trace w' = new @ trace w" "\<forall>x \<in> set new. send_call n (fst x)"
    using assms(1) by (auto simp: only_calls_def)
  from new(2) have "sent_total new = length (sent n new)" "received_total new = 0"
    by (induction new) (auto elim!: send_call.elims)
  moreover have "sent n new = bytes" using assms(2) new(1) by simp
  ultimately show ?thesis using new(1) by (auto simp: traffic_def)
qed

lemma recv_calls_traffic:
  assumes "only_calls (recv_call n) w w'" "received n (trace w') = received n (trace w) @ bytes"
  shows "traffic 0 (length bytes) w w'"
proof -
  obtain new where new: "trace w' = new @ trace w" "\<forall>x \<in> set new. recv_call n (fst x)"
    using assms(1) by (auto simp: only_calls_def)
  from new(2) have "received_total new = length (received n new)" "sent_total new = 0"
    by (induction new) (auto elim!: recv_call.elims)
  moreover have "received n new = bytes" using assms(2) new(1) by simp
  ultimately show ?thesis using new(1) by (auto simp: traffic_def)
qed

lemmas silent_defs = fd_destroy_eq return_error_def return_owned_eq Let_def sys_eq

lemma silent_steps [simp]:
  "traffic s r w (fd_destroy K u v) = traffic s r w v" "traffic s r w (cerr K t v) = traffic s r w v"
  "traffic s r w (cout K t v) = traffic s r w v"
  by (auto simp: traffic_def fd_destroy_eq cerr_def cout_def)

lemma clock_traffic: "clock_now K w = (t, w') \<Longrightarrow> traffic 0 0 w w'"
  using traffic_silent[of Clock_now w K] by (auto simp: clock_now_eq)

lemma failed_load_traffic: "failed_load K w = (b, w') \<Longrightarrow> traffic 0 0 w w' \<and> (b \<longrightarrow> failed_seen (trace w'))"
  by (auto simp: failed_load_def traffic_def sys_eq)

lemma posix_connect_traffic: "posix_connect_loop fuel K n addr out en w = Some (b, x, en', w') \<Longrightarrow> traffic 0 0 w w'"
proof (induction fuel arbitrary: w)
  case (Suc fuel)
  have "traffic 0 0 w (snd (sys K (Connect n addr) w))" by (rule traffic_silent) simp
  with Suc.prems traffic_trans[OF this] show ?case
    by (fastforce simp: posix_move_assign_def posix_destroy_def posix_close_def Let_def case_prod_beta traffic_def
        split: if_splits dest: Suc.IH)
qed simp

lemma connect_loopback_socket_traffic:
  assumes "connect_loopback_socket fuel K p out en w = Some (b, x, en', w')"
  shows "traffic 0 0 w w'"
  using assms posix_connect_traffic traffic_silent[of "Socket SOCK_STREAM False False" w K] traffic_trans[of 0 0 w _ 0 0 w']
  by (fastforce simp: connect_loopback_socket_def Let_def case_prod_beta split: if_splits)

lemma posix_destroy_traffic [simp]:
  "traffic s r w (posix_destroy K x v) = traffic s r w v" "failed_seen (trace (posix_destroy K x v)) = failed_seen (trace v)"
  by (auto simp: traffic_def posix_destroy_def posix_close_def)

text \<open>A part of a program that is left at once if the flag is found set.\<close>

lemma load_then:
  assumes "failed_load K w = (x, w1)" "x \<Longrightarrow> traffic 0 0 w1 w'" "\<not> x \<Longrightarrow> traffic s r w1 w'"
  shows "traffic s r w w'"
proof (cases x)
  case True
  with assms(2) failed_load_traffic[OF assms(1)] show ?thesis by (auto simp: traffic_def)
next
  case False
  with assms(3) failed_load_traffic[OF assms(1)] traffic_trans[of 0 0 w w1 s r w'] show ?thesis by simp
qed

lemma traffic_unless: "traffic s r w w' \<Longrightarrow> failed_seen (trace w) \<or> s = s' \<and> r = r' \<Longrightarrow> traffic s' r' w w'"
  by (auto simp: traffic_def)

lemma socket_calls_traffic:
  "stream_connect I ep K w = (r1, w') \<Longrightarrow> traffic 0 0 w w'"
  "listener_bind I ep n K w = (r2, w') \<Longrightarrow> traffic 0 0 w w'"
  "listener_local_port K l w = (r3, w') \<Longrightarrow> traffic 0 0 w w'"
  "listener_accept l K w = (r4, w') \<Longrightarrow> traffic 0 0 w w'"
  by (auto simp: stream_connect_def listener_bind_def listener_local_port_def fd_local_port_def listener_accept_def
      set_reuse_addr_def silent_defs traffic_def split: sum.splits if_splits)

subsection \<open>Passes over the clients\<close>

text \<open>
  The contract of one client's step over a buffer of \<open>n\<close> bytes: it keeps the buffer's length, returns,
  and without a complaint it has sent \<open>s\<close> and received \<open>r\<close> bytes.
\<close>

locale counted_step =
  fixes step :: "'s \<Rightarrow> byte list \<Rightarrow> world \<Rightarrow> (string option \<times> byte list \<times> world) option"
    and usable :: "'s \<Rightarrow> bool"
    and bounded enough :: bool
    and n s r :: nat
  assumes step_counted: "bounded \<Longrightarrow> usable c \<Longrightarrow> length b = n \<Longrightarrow> step c b w = Some (t, b', w') \<Longrightarrow>
      length b' = n \<and> (t = None \<longrightarrow> traffic s r w w')"
    and step_ends: "enough \<Longrightarrow> length b = n \<Longrightarrow> step c b w \<noteq> None"
begin

lemma pass_counted:
  assumes bounded "for_clients K step cs b w = Some (b', w')" "\<forall>c \<in> set cs. usable c" "length b = n"
  shows "length b' = n" "traffic (length cs * s) (length cs * r) w w'"
proof -
  have "length b' = n \<and> traffic (length cs * s) (length cs * r) w w'" using assms(2-4)
  proof (induction cs arbitrary: b w)
    case (Cons c cs)
    obtain t b1 w1 where st: "step c b w = Some (t, b1, w1)" using Cons.prems(1) by (auto split: option.splits)
    have c: "length b1 = n" "t = None \<Longrightarrow> traffic s r w w1"
      using step_counted[OF assms(1) _ Cons.prems(3) st] Cons.prems(2) by simp_all
    show ?case
    proof (cases t)
      case None
      with st Cons.prems(1) have "for_clients K step cs b1 w1 = Some (b', w')" by simp
      from Cons.IH[OF this _ c(1)] Cons.prems(2) traffic_trans[OF c(2)[OF None]] show ?thesis by simp
    next
      case (Some complaint)
      with st Cons.prems(1) c(1) show ?thesis by auto
    qed
  qed simp
  then show "length b' = n" "traffic (length cs * s) (length cs * r) w w'" by simp_all
qed

lemma pass_ends:
  assumes bounded enough "\<forall>c \<in> set cs. usable c" "length b = n"
  shows "for_clients K step cs b w \<noteq> None"
  using assms(3,4)
proof (induction cs arbitrary: b w)
  case (Cons c cs)
  obtain t b1 w1 where st: "step c b w = Some (t, b1, w1)" using step_ends[OF assms(2) Cons.prems(2), of c w] by auto
  have "length b1 = n" using step_counted[OF assms(1) _ Cons.prems(2) st] Cons.prems(1) by simp
  with Cons.IH[of b1 w1] Cons.prems(1) show ?case by (cases t) (auto simp: st)
qed simp

end

lemma tcp_transfer_traffic:
  assumes "stream_valid c"
  shows "send_bounded K \<Longrightarrow> write_all fuel K buf c w = Some (Inr (), w') \<Longrightarrow> traffic (length buf) 0 w w'"
    "recv_bounded K \<Longrightarrow> read_exact fuel K buf c w = Some (Inr (), buf', w') \<Longrightarrow> traffic 0 (length buf) w w'"
    "recv_bounded K \<Longrightarrow> read_exact fuel K buf c w = Some (r, buf', w') \<Longrightarrow> length buf' = length buf"
proof -
  assume K: "send_bounded K" and wr: "write_all fuel K buf c w = Some (Inr (), w')"
  from write_all_exact[OF K assms wr] have "sent (stream_native_handle c) (trace w') = sent (stream_native_handle c) (trace w) @ buf"
    by auto
  from send_calls_traffic[OF write_all_calls[OF wr] this] show "traffic (length buf) 0 w w'" .
next
  assume K: "recv_bounded K" and rd: "read_exact fuel K buf c w = Some (Inr (), buf', w')"
  from read_exact_exact[OF K assms rd] obtain d where
    "received (stream_native_handle c) (trace w') = received (stream_native_handle c) (trace w) @ d" "length d = length buf" by auto
  with recv_calls_traffic[OF read_exact_calls[OF rd]] show "traffic 0 (length buf) w w'" by metis
next
  assume K: "recv_bounded K" and rd: "read_exact fuel K buf c w = Some (r, buf', w')"
  from read_exact_exact[OF K assms rd] show "length buf' = length buf" by auto
qed

interpretation tcp_write_step: counted_step "tcp_write fuel K msg request" stream_valid "send_bounded K"
  "interrupts_at_most m K \<and> length request + m < fuel" n "length request" 0 for fuel K msg request m n
proof
  fix c and b :: "byte list" and w t b' w'
  assume "send_bounded K" "stream_valid c" "length b = n" "tcp_write fuel K msg request c b w = Some (t, b', w')"
  with tcp_transfer_traffic(1)[of c K fuel request w w']
  show "length b' = n \<and> (t = None \<longrightarrow> traffic (length request) 0 w w')"
    by (auto simp: tcp_write_def split: option.splits sum.splits)
next
  fix c and b :: "byte list" and w
  assume "interrupts_at_most m K \<and> length request + m < fuel"
  then show "tcp_write fuel K msg request c b w \<noteq> None"
    using write_all_ends[of m K request fuel c w] by (auto simp: tcp_write_def split: sum.splits)
qed

interpretation tcp_read_step: counted_step "tcp_read fuel K msg" stream_valid "recv_bounded K"
  "interrupts_at_most m K \<and> n + m < fuel" n 0 n for fuel K msg m n
proof
  fix c and b :: "byte list" and w t b' w'
  assume "recv_bounded K" "stream_valid c" "length b = n" "tcp_read fuel K msg c b w = Some (t, b', w')"
  with tcp_transfer_traffic(2,3)[of c K fuel b w]
  show "length b' = n \<and> (t = None \<longrightarrow> traffic 0 n w w')"
    by (auto simp: tcp_read_def split: option.splits sum.splits)
next
  fix c and b :: "byte list" and w
  assume "interrupts_at_most m K \<and> n + m < fuel" "length b = n"
  then show "tcp_read fuel K msg c b w \<noteq> None"
    using read_exact_ends[of m K b fuel c w] by (auto simp: tcp_read_def split: sum.splits)
qed

interpretation churn_write_step: counted_step "\<lambda>c b. tcp_write fuel K msg b c b" stream_valid "send_bounded K"
  "interrupts_at_most m K \<and> n + m < fuel" n n 0 for fuel K msg m n
proof
  fix c and b :: "byte list" and w t b' w'
  assume "send_bounded K" "stream_valid c" and b: "length b = n" and st: "tcp_write fuel K msg b c b w = Some (t, b', w')"
  with tcp_write_step.step_counted[of K c b n fuel msg b w t b' w'] show "length b' = n \<and> (t = None \<longrightarrow> traffic n 0 w w')" by simp
next
  fix c and b :: "byte list" and w
  assume "interrupts_at_most m K \<and> n + m < fuel" "length b = n"
  with tcp_write_step.step_ends[of m K b fuel b n msg c w] show "tcp_write fuel K msg b c b w \<noteq> None" by simp
qed

interpretation posix_write_step: counted_step "posix_write fuel K msg request" "\<lambda>_. True" "send_bounded K" False n "length request" 0
  for fuel K msg request n
proof
  fix c and b :: "byte list" and w t b' w'
  assume K: "send_bounded K" and b: "length b = n" and st: "posix_write fuel K msg request c b w = Some (t, b', w')"
  then have "length b' = n" by (auto simp: posix_write_def split: option.splits)
  moreover have "traffic (length request) 0 w w'" if "t = None"
    using posix_client.wr_done[of K fuel msg request c b w b' w'] K st that by (auto intro: send_calls_traffic)
  ultimately show "length b' = n \<and> (t = None \<longrightarrow> traffic (length request) 0 w w')" by simp
qed simp

interpretation posix_read_step: counted_step "posix_read fuel K msg" "\<lambda>_. True" "recv_bounded K" False n 0 n for fuel K msg n
proof
  fix c and b :: "byte list" and w t b' w'
  assume K: "recv_bounded K" and b: "length b = n" and st: "posix_read fuel K msg c b w = Some (t, b', w')"
  then obtain r got where rl: "read_loop fuel K (posix_native_handle c) (length b) [] w = Some (r, got, w')"
    "b' = got @ drop (length got) b"
    by (auto simp: posix_read_def read_exact_socket_eq split: option.splits)
  have "length b' = n" using read_loop_receives[OF K rl(1)] rl(2) b by auto
  moreover have "traffic 0 n w w'" if "t = None"
    using posix_client.rd_done[of K fuel msg c b w b' w'] K st that recv_calls_traffic b by metis
  ultimately show "length b' = n \<and> (t = None \<longrightarrow> traffic 0 n w w')" by simp
qed simp

subsection \<open>Rounds\<close>

locale counted_rounds = wr: counted_step wr usable bounded_wr enough_wr n s 0 + rd: counted_step rd usable bounded_rd enough_rd n 0 r
  for wr rd :: "'s \<Rightarrow> byte list \<Rightarrow> world \<Rightarrow> (string option \<times> byte list \<times> world) option"
    and usable bounded_wr enough_wr bounded_rd enough_rd n s r
begin

lemma rounds_counted:
  assumes bounded_wr bounded_rd "client_rounds K wr rd i cs b w = Some w'" "\<forall>c \<in> set cs. usable c" "length b = n"
  shows "traffic (i * (length cs * s)) (i * (length cs * r)) w w'"
  using assms(3,5)
proof (induction i arbitrary: b w)
  case (Suc i)
  obtain b1 w1 where wp: "for_clients K wr cs b w = Some (b1, w1)" using Suc.prems(1) by (auto split: option.splits)
  obtain x1 w2 where l1: "failed_load K w1 = (x1, w2)" by fastforce
  note p1 = wr.pass_counted[OF assms(1) wp assms(4) Suc.prems(2)]
  have "traffic (i * (length cs * s)) (length cs * r + i * (length cs * r)) w1 w'"
  proof (rule load_then[OF l1])
    assume go: "\<not> x1"
    obtain b2 w3 where rp: "for_clients K rd cs b1 w2 = Some (b2, w3)"
      using Suc.prems(1) wp l1 go by (auto split: option.splits)
    obtain x3 w4 where l3: "failed_load K w3 = (x3, w4)" by fastforce
    note p3 = rd.pass_counted[OF assms(2) rp assms(4) p1(1)]
    have "traffic (i * (length cs * s)) (i * (length cs * r)) w3 w'"
      by (rule load_then[OF l3]; use Suc.prems(1) wp l1 go rp l3 Suc.IH[OF _ p3(1)] in simp)
    from traffic_trans[OF p3(2) this] show "traffic (i * (length cs * s)) (length cs * r + i * (length cs * r)) w2 w'" by simp
  qed (use Suc.prems(1) wp l1 in simp)
  from traffic_trans[OF p1(2) this] show ?case by simp
qed simp

lemma rounds_end:
  assumes bounded_wr enough_wr bounded_rd enough_rd "\<forall>c \<in> set cs. usable c" "length b = n"
  shows "client_rounds K wr rd i cs b w \<noteq> None"
  using assms(6)
proof (induction i arbitrary: b w)
  case (Suc i)
  obtain b1 w1 where wp: "for_clients K wr cs b w = Some (b1, w1)" using wr.pass_ends[OF assms(1,2,5) Suc.prems, of K w] by auto
  obtain x1 w2 where l1: "failed_load K w1 = (x1, w2)" by fastforce
  note b1 = wr.pass_counted(1)[OF assms(1) wp assms(5) Suc.prems]
  obtain b2 w3 where rp: "for_clients K rd cs b1 w2 = Some (b2, w3)" using rd.pass_ends[OF assms(3,4,5) b1, of K w2] by auto
  obtain x3 w4 where l3: "failed_load K w3 = (x3, w4)" by fastforce
  show ?case
    using Suc.IH[OF rd.pass_counted(1)[OF assms(3) rp assms(5) b1]] by (cases x1; cases x3) (simp_all add: wp l1 rp l3)
qed simp

end

interpretation tcp_rounds: counted_rounds "tcp_write fuel K msg request" "tcp_read fuel K msg" stream_valid
  "send_bounded K" "interrupts_at_most m K \<and> length request + m < fuel" "recv_bounded K" "interrupts_at_most m K \<and> n + m < fuel"
  n "length request" n for fuel K msg request m n
  by unfold_locales

interpretation posix_rounds: counted_rounds "posix_write fuel K msg request" "posix_read fuel K msg" "\<lambda>_. True"
  "send_bounded K" False "recv_bounded K" False n "length request" n for fuel K msg request n
  by unfold_locales

lemma tcp_client_rounds_traffic:
  assumes "send_bounded K" "recv_bounded K" "tcp_client_rounds fuel K msg its n cs w = Some w'" "\<forall>c \<in> set cs. stream_valid c"
  shows "traffic (its * (length cs * n)) (its * (length cs * n)) w w'"
proof -
  obtain x w1 where l: "failed_load K w = (x, w1)" by fastforce
  show ?thesis
    using tcp_rounds.rounds_counted[OF assms(1,2) _ assms(4), of K fuel msg "replicate n 0x42" its "replicate n 0" w1 w' n] assms(3) l
    by (intro load_then[OF l]) (auto simp: tcp_client_rounds_def)
qed

lemma tcp_client_rounds_end:
  assumes "send_bounded K" "recv_bounded K" "interrupts_at_most m K" "n + m < fuel" "\<forall>c \<in> set cs. stream_valid c"
  shows "tcp_client_rounds fuel K msg its n cs w \<noteq> None"
  using tcp_rounds.rounds_end[OF assms(1) _ assms(2) _ assms(5), of m "replicate n 0x42" fuel n "replicate n 0" K msg its] assms(3,4)
  by (auto simp: tcp_client_rounds_def split: prod.splits bool.splits)

lemma async_client_rounds_traffic:
  assumes "send_bounded K" "recv_bounded K" "async_client_rounds fuel K msg its n cs w = Some w'"
  shows "traffic (its * (length cs * n)) (its * (length cs * n)) w w'"
proof -
  obtain x w1 where l: "failed_load K w = (x, w1)" by fastforce
  show ?thesis
    using posix_rounds.rounds_counted[OF assms(1,2), of K fuel msg "replicate n 0x42" its cs "replicate n 0" w1 w' n] assms(3) l
    by (intro load_then[OF l]) (auto simp: async_client_rounds_def)
qed

text \<open>Connecting: if no failure is seen, the wanted number of clients is there; all of them are usable.\<close>

lemma connect_clients_traffic:
  assumes "connect_clients I K msg p c cs w = (cs', w')" "\<forall>x \<in> set cs. stream_valid x"
  shows "traffic 0 0 w w' \<and> (\<forall>x \<in> set cs'. stream_valid x) \<and> (failed_seen (trace w') \<or> length cs' = length cs + c)"
  using assms
proof (induction c arbitrary: cs w)
  case (Suc c)
  obtain r w1 where con: "stream_connect I (loopback p) K w = (r, w1)" by fastforce
  note t1 = socket_calls_traffic(1)[OF con]
  show ?case
  proof (cases r)
    case (Inl e)
    with Suc.prems con show ?thesis by auto
  next
    case (Inr x)
    have "stream_valid x" using tcp_connect.make_made[of w I "loopback p" K] con Inr by (simp add: made_def stream_valid_def)
    with Suc.IH[of "cs @ [x]" w1] Suc.prems con Inr traffic_trans[OF t1] show ?thesis by fastforce
  qed
qed simp

lemma connect_sockets_traffic:
  assumes "connect_sockets fuel K msg p c cs w = Some (cs', w')"
  shows "traffic 0 0 w w' \<and> (failed_seen (trace w') \<or> length cs' = length cs + c)"
  using assms
proof (induction c arbitrary: cs w)
  case (Suc c)
  obtain b x en w1 where con: "connect_loopback_socket fuel K p posix_none 0 w = Some (b, x, en, w1)"
    using Suc.prems by (auto split: option.splits)
  have t1: "traffic 0 0 w w1" using con by (rule connect_loopback_socket_traffic)
  show ?case
  proof (cases b)
    case False
    with Suc.prems con show ?thesis by auto
  next
    case True
    with Suc.prems con have "connect_sockets fuel K msg p c (cs @ [fst (posix_move_construct x)]) w1 = Some (cs', w')"
      using posix_destroy_moved[of K x w1] by (simp add: case_prod_beta)
    with Suc.IH traffic_trans[OF t1] show ?thesis by fastforce
  qed
qed simp

lemma clear_traffic [simp]:
  "traffic s r w (clear_clients K cs v) = traffic s r w v" "traffic s r w (clear_sockets K ss v) = traffic s r w v"
proof -
  show "traffic s r w (clear_sockets K ss v) = traffic s r w v"
    by (induction ss arbitrary: v) (simp_all add: clear_sockets_def)
  show "traffic s r w (clear_clients K cs v) = traffic s r w v"
    by (induction cs arbitrary: v) (simp_all add: clear_clients_def)
qed

text \<open>One round of the churn benchmark exchanges one byte with each of its connections.\<close>

lemma churn_rounds_traffic:
  assumes "send_bounded K" "recv_bounded K" "churn_rounds fuel I K msg p conns its tok w = Some w'" "length tok = 1"
  shows "traffic (its * conns) (its * conns) w w'"
  using assms(3,4)
proof (induction its arbitrary: tok w)
  case (Suc its)
  obtain x1 w1 where l1: "failed_load K w = (x1, w1)" by fastforce
  obtain cs w2 where con: "connect_clients I K msg p conns [] w1 = (cs, w2)" by fastforce
  obtain x3 w3 where l3: "failed_load K w2 = (x3, w3)" by fastforce
  note c = connect_clients_traffic[OF con, simplified]
  then have valid: "\<forall>x \<in> set cs. stream_valid x" by simp
  show ?case
  proof (rule load_then[OF l1])
    assume go1: "\<not> x1"
    have "traffic (length cs + its * conns) (length cs + its * conns) w2 w'"
    proof (rule load_then[OF l3])
      assume go3: "\<not> x3"
      obtain b4 w4 where wp: "for_clients K (\<lambda>c b. tcp_write fuel K msg b c b) cs tok w3 = Some (b4, w4)"
        using Suc.prems(1) l1 go1 con l3 go3 by (auto split: option.splits)
      obtain x5 w5 where l5: "failed_load K w4 = (x5, w5)" by fastforce
      have p4: "traffic (length cs) 0 w3 w4"
        using churn_write_step.pass_counted(2)[OF assms(1) wp valid Suc.prems(2)] by simp
      have "traffic (its * conns) (length cs + its * conns) w4 w'"
      proof (rule load_then[OF l5])
        assume go5: "\<not> x5"
        obtain b6 w6 where rp: "for_clients K (tcp_read fuel K msg) cs tok w5 = Some (b6, w6)"
          using Suc.prems(1) l1 go1 con l3 go3 wp l5 go5 by (auto split: option.splits)
        obtain x7 w7 where l7: "failed_load K w6 = (x7, w7)" by fastforce
        have p6: "length b6 = 1" "traffic 0 (length cs) w5 w6"
          using tcp_read_step.pass_counted[OF assms(2) rp valid Suc.prems(2)] by simp_all
        have "traffic (its * conns) (its * conns) w6 w'"
        proof (rule load_then[OF l7])
          assume "\<not> x7"
          then have "churn_rounds fuel I K msg p conns its b6 (clear_clients K cs w7) = Some w'"
            using Suc.prems(1) l1 go1 con l3 go3 wp l5 go5 rp l7 by simp
          from traffic_trans[of 0 0 w7, OF _ Suc.IH[OF this p6(1)]] show "traffic (its * conns) (its * conns) w7 w'" by simp
        qed (use Suc.prems(1) l1 go1 con l3 go3 wp l5 go5 rp l7 in auto)
        from traffic_trans[OF p6(2) this] show "traffic (its * conns) (length cs + its * conns) w5 w'" by simp
      qed (use Suc.prems(1) l1 go1 con l3 go3 wp l5 in auto)
      from traffic_trans[OF p4 this] show "traffic (length cs + its * conns) (length cs + its * conns) w3 w'" by simp
    qed (use Suc.prems(1) l1 go1 con l3 in auto)
    then have "traffic (conns + its * conns) (conns + its * conns) w2 w'"
      by (rule traffic_unless) (use c in auto)
    with c show "traffic (Suc its * conns) (Suc its * conns) w1 w'"
      using traffic_trans[of 0 0 w1 w2 "conns + its * conns" "conns + its * conns" w'] by simp
  qed (use Suc.prems(1) l1 in auto)
qed simp

subsection \<open>Servers\<close>

lemma blocking_echo_rounds_traffic:
  assumes "send_bounded K" "recv_bounded K" "stream_valid s"
    and "echo_rounds (\<lambda>buf. read_exact fuel K buf s) t1 (\<lambda>buf. write_all fuel K buf s) t2 K msg its payload w = Some (i, w')"
  shows "traffic (its * length payload) (its * length payload) w w'"
  using assms(4)
proof (induction its arbitrary: payload w)
  case (Suc its)
  obtain x w1 where l: "failed_load K w = (x, w1)" by fastforce
  show ?case
  proof (rule load_then[OF l])
    assume go: "\<not> x"
    obtain r b w2 where rd: "read_exact fuel K payload s w1 = Some (r, b, w2)"
      using Suc.prems l go by (auto split: option.splits)
    show "traffic (Suc its * length payload) (Suc its * length payload) w1 w'"
    proof (cases r)
      case (Inl e)
      with Suc.prems l go rd show ?thesis by auto
    next
      case (Inr u)
      then obtain r2 w3 where wr: "write_all fuel K b s w2 = Some (r2, w3)"
        using Suc.prems l go rd by (auto split: option.splits)
      note b = tcp_transfer_traffic(3)[OF assms(3,2) rd]
      show ?thesis
      proof (cases r2)
        case (Inl e)
        with Suc.prems l go rd Inr wr show ?thesis by auto
      next
        case (Inr u2)
        from Suc.prems l go rd \<open>r = Inr u\<close> wr Inr
        have "traffic (its * length payload) (its * length payload) w3 w'" using Suc.IH[of b w3] b by simp
        moreover have "traffic 0 (length payload) w1 w2" "traffic (length payload) 0 w2 w3"
          using tcp_transfer_traffic(2)[OF assms(3,2), of fuel payload w1 b w2] rd \<open>r = Inr u\<close>
            tcp_transfer_traffic(1)[OF assms(3,1), of fuel b w2 w3] wr Inr b by simp_all
        ultimately show ?thesis by (auto simp: traffic_def)
      qed
    qed
  qed (use Suc.prems l in auto)
qed simp

lemma tcp_accept_loop_traffic:
  assumes "tcp_accept_loop K msg l c hs w = (hs', w')" "\<forall>x \<in> set hs. stream_valid x"
  shows "traffic 0 0 w w' \<and> (\<forall>x \<in> set hs'. stream_valid x) \<and> (failed_seen (trace w') \<or> length hs' = length hs + c)"
  using assms
proof (induction c arbitrary: hs w)
  case (Suc c)
  obtain x w1 where load: "failed_load K w = (x, w1)" by fastforce
  obtain r w2 where acc: "listener_accept l K w1 = (r, w2)" by fastforce
  note t = failed_load_traffic[OF load] traffic_trans[OF _ socket_calls_traffic(4)[OF acc]]
  show ?case
  proof (cases "x \<or> (\<exists>e. r = Inl e)")
    case True
    with Suc.prems load acc t(1) show ?thesis by (auto split: bool.splits)
  next
    case False
    then obtain s where s: "r = Inr s" by (cases r) auto
    have "stream_valid s" using tcp_accept.make_made[of w1 l K] acc s by (simp add: made_def stream_valid_def)
    with Suc.IH[of "hs @ [s]" w2] Suc.prems load acc False s t traffic_trans[of 0 0 w w2 0 0 w'] show ?thesis by fastforce
  qed
qed simp

lemma churn_server_traffic:
  assumes "send_bounded K" "recv_bounded K" "churn_server fuel K msg l its tok w = Some w'" "length tok = 1"
  shows "traffic its its w w'"
  using assms(3,4)
proof (induction its arbitrary: tok w)
  case (Suc its)
  obtain x w1 where load: "failed_load K w = (x, w1)" by fastforce
  obtain r w2 where acc: "listener_accept l K w1 = (r, w2)" by fastforce
  show ?case
  proof (rule load_then[OF load])
    assume go: "\<not> x"
    show "traffic (Suc its) (Suc its) w1 w'"
    proof (cases r)
      case (Inl e)
      with Suc.prems load acc go show ?thesis by auto
    next
      case (Inr s)
      have s: "stream_valid s" using tcp_accept.make_made[of w1 l K] acc Inr by (simp add: made_def stream_valid_def)
      obtain r3 b w3 where rd: "read_exact fuel K tok s w2 = Some (r3, b, w3)"
        using Suc.prems load acc go Inr by (auto split: option.splits)
      obtain r4 w4 where wr: "\<forall>u. r3 = Inr u \<longrightarrow> write_all fuel K b s w3 = Some (r4, w4)"
        using Suc.prems load acc go Inr rd by (cases "write_all fuel K b s w3"; cases r3) auto
      note b = tcp_transfer_traffic(3)[OF s assms(2) rd]
      show ?thesis
      proof (cases "(\<exists>u. r3 = Inr u) \<and> (\<exists>u. r4 = Inr u)")
        case False
        with Suc.prems load acc go Inr rd wr show ?thesis by (cases r3; cases r4) auto
      next
        case True
        with wr have ok: "r3 = Inr ()" "write_all fuel K b s w3 = Some (Inr (), w4)" by auto
        with Suc.prems load acc go Inr rd have "churn_server fuel K msg l its b (fd_destroy K (stream_fd s) w4) = Some w'" by simp
        from Suc.IH[OF this] b Suc.prems(2) have "traffic its its (fd_destroy K (stream_fd s) w4) w'" by simp
        then have "traffic its its w4 w'" using traffic_trans[of 0 0 w4 "fd_destroy K (stream_fd s) w4"] by simp
        moreover have "traffic 0 1 w2 w3" "traffic 1 0 w3 w4"
          using tcp_transfer_traffic(2)[OF s assms(2), of fuel tok w2 b w3] rd ok
            tcp_transfer_traffic(1)[OF s assms(1) ok(2)] b Suc.prems(2) by simp_all
        ultimately show ?thesis using socket_calls_traffic(4)[OF acc] by (auto simp: traffic_def)
      qed
    qed
  qed (use Suc.prems load in auto)
qed simp

end
