(* ===== verification/Benchmark_Claims.thy ===== *)
theory Benchmark_Claims
  imports Benchmark_Traffic
begin

section \<open>The benchmark programs: what is claimed\<close>

text \<open>
  The blocking benchmarks as wholes: what their clients and their servers keep to, once for each, and
  the theorems about \<^verbatim>\<open>main\<close> that follow for both from the frame they share.
\<close>

subsection \<open>Threads\<close>

text \<open>The blocking calls do not touch the thread's sleep timer.\<close>

lemma write_loop_timer: "write_loop fuel K n buf w = Some (r, w') \<Longrightarrow> sleep_timer w' = sleep_timer w"
proof (induction fuel arbitrary: buf w)
  case (Suc fuel)
  then show ?case by (fastforce simp: Let_def case_prod_beta split: if_splits)
qed simp

lemma read_loop_timer: "read_loop fuel K n m got w = Some (r, got', w') \<Longrightarrow> sleep_timer w' = sleep_timer w"
proof (induction fuel arbitrary: m got w)
  case (Suc fuel)
  then show ?case by (fastforce simp: Let_def case_prod_beta split: if_splits)
qed simp

lemma blocking_timer:
  "write_all fuel K buf s w = Some (r, w') \<Longrightarrow> sleep_timer w' = sleep_timer w"
  "read_exact fuel K buf s w = Some (r, buf', w') \<Longrightarrow> sleep_timer w' = sleep_timer w"
  "listener_accept l K w = (r2, w') \<Longrightarrow> sleep_timer w' = sleep_timer w"
  "failed_load K w = (x, w') \<Longrightarrow> sleep_timer w' = sleep_timer w"
  "sleep_timer (record_failure K t w) = sleep_timer w" "sleep_timer (fd_destroy K u w) = sleep_timer w"
  by (auto simp: write_all_def read_exact_def listener_accept_def failed_load_def record_failure_def silent_defs
      split: if_splits option.splits dest!: write_loop_timer read_loop_timer)

lemma echo_rounds_timer:
  assumes "\<And>b w r b' w'. rd b w = Some (r, b', w') \<Longrightarrow> sleep_timer w' = sleep_timer w"
    and "\<And>b w r w'. wr b w = Some (r, w') \<Longrightarrow> sleep_timer w' = sleep_timer w"
  shows "echo_rounds rd t1 wr t2 K msg its b w = Some (i, w') \<Longrightarrow> sleep_timer w' = sleep_timer w"
proof (induction its arbitrary: b w)
  case (Suc its)
  then show ?case
    by (auto simp: blocking_timer(5) split: prod.splits bool.splits option.splits sum.splits
        dest!: assms blocking_timer(4))
qed simp

lemma echo_rounds_same_fds:
  assumes "\<And>b w r b' w'. rd b w = Some (r, b', w') \<Longrightarrow> same_fds w w'" "\<And>b w r w'. wr b w = Some (r, w') \<Longrightarrow> same_fds w w'"
  shows "echo_rounds rd t1 wr t2 K msg its b w = Some (i, w') \<Longrightarrow> same_fds w w'"
proof (induction its arbitrary: b w)
  case (Suc its)
  then show ?case
    by (auto split: prod.splits bool.splits option.splits sum.splits dest!: failed_load_neutral assms
        intro: same_fds_trans) (meson same_fds_trans)
qed simp

lemma tcp_accept_loop_timer: "tcp_accept_loop K msg l c hs w = (hs', w') \<Longrightarrow> sleep_timer w' = sleep_timer w"
proof (induction c arbitrary: hs w)
  case (Suc c)
  then show ?case
    by (auto simp: blocking_timer(5) split: prod.splits bool.splits sum.splits dest!: blocking_timer(3,4))
qed simp

lemma churn_server_timer: "churn_server fuel K msg l its tok w = Some w' \<Longrightarrow> sleep_timer w' = sleep_timer w"
proof (induction its arbitrary: tok w)
  case (Suc its)
  from Suc.prems show ?case
    by (auto simp: blocking_timer(5,6) split: prod.splits bool.splits option.splits sum.splits
        dest!: blocking_timer(1,2,3,4) Suc.IH)
qed simp

text \<open>Joining a thread that leaves no timer behind adds what the thread did, and the join.\<close>

lemma joined_threadE:
  assumes "joined_thread K f w = Some (x, w')"
    and "\<And>v v'. f v = Some (x, v') \<Longrightarrow> sleep_timer v' = sleep_timer v"
  obtains v v' a where "f v = Some (x, v')" "trace v = trace w" "trace w' = (Thread_join, a) # trace v'"
    "sleep_timer w' = sleep_timer w"
proof -
  let ?v = "w\<lparr>errno := 0, cached_events := 0, sleep_timer := None\<rparr>"
  from assms(1) obtain v' where f: "f ?v = Some (x, v')"
    and w': "w' = (snd (sys K Thread_join (thread_exit K v')))\<lparr>errno := errno w, cached_events := cached_events w, sleep_timer := sleep_timer w\<rparr>"
    by (auto simp: joined_thread_def Let_def split: option.splits prod.splits)
  have "thread_exit K v' = v'" using assms(2)[OF f] by (simp add: thread_exit_def)
  with that[OF f, of "K (trace v') Thread_join"] w' show thesis by simp
qed

lemma joined_thread_ends: "(\<And>v. f v \<noteq> None) \<Longrightarrow> joined_thread K f w \<noteq> None"
  by (simp add: joined_thread_def split: option.splits prod.splits)

lemma joined_traffic:
  "trace v = trace w \<Longrightarrow> trace w' = (Thread_join, a) # trace v' \<Longrightarrow> traffic s r v v' \<Longrightarrow> traffic s r w w'"
  by (simp add: traffic_def)

lemma finish_benchmark_facts:
  assumes "finish_benchmark K elapsed report w = (code, w')"
  shows "same_fds w w'"
    and "code = 0 \<Longrightarrow> a_ret (K (trace w) Failed_load) = 0 \<and> 0 < elapsed \<and> w' = cout K report (snd (sys K Failed_load w))"
  using assms
  by (cases "a_ret (K (trace w) Failed_load) = 0";
      auto simp: finish_benchmark_def failed_load_def cerr_def cout_def same_fds_def seconds_def sys_eq divide_le_0_iff not_le split: if_splits)+

subsection \<open>The frame of the blocking benchmarks\<close>

text \<open>
  What \<^verbatim>\<open>main\<close> relies on: unless a failure is seen, the clients and the server thread each send \<open>n\<close> bytes and
  receive \<open>n\<close>; they close what they open; they return if \<open>enough\<close> holds.
\<close>

locale benchmark_parts =
  fixes clients :: "16 word \<Rightarrow> world \<Rightarrow> (time \<times> world) option"
    and server :: "tcp_listener \<Rightarrow> world \<Rightarrow> (unit \<times> world) option"
    and n :: nat
    and bounded enough :: bool
  assumes clients_traffic: "bounded \<Longrightarrow> clients p w = Some (t, w') \<Longrightarrow> traffic n n w w'"
    and clients_ledger: "clients p w = Some (t, w') \<Longrightarrow> ledger w w' {#}"
    and clients_end: "bounded \<Longrightarrow> enough \<Longrightarrow> clients p w \<noteq> None"
    and server_traffic: "bounded \<Longrightarrow> server l w = Some (u, w') \<Longrightarrow> traffic n n w w'"
    and server_ledger: "server l w = Some (u, w') \<Longrightarrow> ledger w w' {#}"
    and server_timer: "server l w = Some (u, w') \<Longrightarrow> sleep_timer w' = sleep_timer w"
    and server_end: "bounded \<Longrightarrow> enough \<Longrightarrow> server l w \<noteq> None"
begin

lemma main_ends:
  assumes bounded enough
  shows "\<exists>code w'. blocking_benchmark I K msg backlog clients server report w = Some (code, w')"
proof -
  have "\<exists>t v'. clients p v = Some (t, v')" "\<exists>u v'. joined_thread K (server l) v = Some (u, v')" for p l v
    using clients_end[OF assms, of p v] joined_thread_ends[of "server l" K v] server_end[OF assms] by auto
  then have parts: "\<exists>t v1 u v2. clients p v = Some (t, v1) \<and> joined_thread K (server l) v1 = Some (u, v2)" for p l v by metis
  obtain r w1 where bind: "listener_bind I (loopback 0) backlog K w = (r, w1)" by fastforce
  show ?thesis
  proof (cases r)
    case (Inr l)
    obtain r2 w2 where port: "listener_local_port K l w1 = (r2, w2)" by fastforce
    show ?thesis
    proof (cases r2)
      case inr: (Inr p)
      with Inr bind port parts[of p "snd (sys K Thread_start w2)" l] show ?thesis
        by (auto simp: blocking_benchmark_def case_prod_beta Let_def)
    qed (use Inr bind port in \<open>simp add: blocking_benchmark_def\<close>)
  qed (use bind in \<open>simp add: blocking_benchmark_def\<close>)
qed

text \<open>The run of a program that got past its listener, up to the final report.\<close>

lemma main_runs:
  assumes "blocking_benchmark I K msg backlog clients server report w = Some (code, w')"
  obtains (refused) "code = 1" "ledger w w' {#}"
    | (ran) l :: tcp_listener and w1 elapsed w4 w5 where "fd_valid (listener_fd l)" "ledger w w1 (owns (listener_fd l))" "traffic 0 0 w w1"
        "bounded \<longrightarrow> traffic (2 * n) (2 * n) w1 w4" "ledger w1 w4 {#}"
        "finish_benchmark K elapsed (report elapsed) w4 = (code, w5)" "w' = fd_destroy K (listener_fd l) w5"
proof -
  obtain r w1 where bind: "listener_bind I (loopback 0) backlog K w = (r, w1)" by fastforce
  note made = tcp_bind.make_made[of w I "loopback 0" backlog K, unfolded bind]
  have print: "ledger v (cerr K t u) M = ledger v u M" for v t u M by (rule ledger_same_fds) simp
  show thesis
  proof (cases r)
    case (Inl e)
    with assms bind made refused show thesis by (auto simp: blocking_benchmark_def made_def print)
  next
    case (Inr l)
    with made have own: "fd_valid (listener_fd l)" "ledger w w1 (owns (listener_fd l))" by (simp_all add: made_def owns_def)
    obtain r2 w2 where port: "listener_local_port K l w1 = (r2, w2)" by fastforce
    then have l2: "same_fds w1 w2" by (auto simp: listener_local_port_def fd_local_port_def same_fds_def sys_eq Let_def split: if_splits)
    have t2: "traffic 0 0 w w2"
      using traffic_trans[OF socket_calls_traffic(2)[OF bind] socket_calls_traffic(3)[OF port]] by simp
    note own2 = ledger_neutral[OF own(2) l2]
    show thesis
    proof (cases r2)
      case (Inl e)
      with assms bind Inr port own2 ledger_destroy[of w "cerr K _ w2"] refused show thesis
        by (auto simp: blocking_benchmark_def print)
    next
      case (Inr p)
      let ?w = "snd (sys K Thread_start w2)"
      from assms bind \<open>r = Inr l\<close> port Inr obtain elapsed w3 u w4 w5 where
        c: "clients p ?w = Some (elapsed, w3)" and j: "joined_thread K (server l) w3 = Some (u, w4)"
        and f: "finish_benchmark K elapsed (report elapsed) w4 = (code, w5)" "w' = fd_destroy K (listener_fd l) w5"
        by (auto simp: blocking_benchmark_def split: option.splits prod.splits)
      obtain v v' a where s: "server l v = Some (u, v')" "trace v = trace w3" "trace w4 = (Thread_join, a) # trace v'"
        by (rule joined_threadE[OF j]) (use server_timer in auto)
      have "ledger w3 w4 {#}" using server_ledger[OF s(1)] s(2,3) by (simp add: ledger_def)
      then have "ledger ?w w4 {#}" using ledger_trans[OF clients_ledger[OF c]] by fastforce
      moreover have "traffic (2 * n) (2 * n) ?w w4" if bounded
        using traffic_trans[OF clients_traffic[OF that c] joined_traffic[OF s(2,3) server_traffic[OF that s(1)]]] by (simp add: mult_2)
      moreover have "ledger w ?w (owns (listener_fd l))" using own2 by (simp add: ledger_def)
      moreover have "traffic 0 0 w ?w" using traffic_trans[OF t2 traffic_silent[of Thread_start w2 K]] by simp
      ultimately show thesis using ran[OF own(1) _ _ _ _ f] by blast
    qed
  qed
qed

lemma main_ledger:
  assumes "blocking_benchmark I K msg backlog clients server report w = Some (code, w')"
  shows "ledger w w' {#}"
  using main_runs[OF assms]
proof cases
  case ran: (2 l w1 elapsed w4 w5)
  from finish_benchmark_facts(1)[OF ran(6)] ledger_trans[OF ran(2,5)] have "ledger w w5 (owns (listener_fd l))" using ledger_neutral by fastforce
  with ran(7) show ?thesis by (simp add: ledger_destroy)
qed

lemma main_figures:
  assumes bounded "flag_sticks K" "blocking_benchmark I K msg backlog clients server report w = Some (0, w')"
  shows "sent_total (trace w') = sent_total (trace w) + 2 * n \<and> received_total (trace w') = received_total (trace w) + 2 * n
    \<and> (\<exists>elapsed a. 0 < elapsed \<and> (Cout (report elapsed), a) \<in> set (trace w'))"
  using main_runs[OF assms(3)]
proof cases
  case ran: (2 l w1 elapsed w4 w5)
  from finish_benchmark_facts(2)[OF ran(6)] have clear: "a_ret (K (trace w4) Failed_load) = 0" "0 < elapsed"
    and w5: "w5 = cout K (report elapsed) (snd (sys K Failed_load w4))" by simp_all
  have "\<not> failed_seen (trace w4)" using assms(2) clear(1) by (auto simp: flag_sticks_def)
  with traffic_trans[OF ran(3) ran(4)[rule_format, OF assms(1)]]
  have "sent_total (trace w4) = sent_total (trace w) + 2 * n" "received_total (trace w4) = received_total (trace w) + 2 * n"
    by (auto simp: traffic_def)
  moreover have "(Cout (report elapsed), K (trace (snd (sys K Failed_load w4))) (Cout (report elapsed))) \<in> set (trace w')"
    using ran(7) w5 by (auto simp: cout_def fd_destroy_eq)
  ultimately show ?thesis using ran(7) w5 clear(2) by (auto simp: cout_def fd_destroy_eq)
qed simp

end

subsection \<open>The parts of the TCP benchmark\<close>

text \<open>The bytes that go in one direction when every client makes all its requests.\<close>

definition echo_bytes :: "'a options_scheme \<Rightarrow> nat" where
  "echo_bytes opts = unat (iterations opts) * (unat (connections opts) * unat (payload_size opts))"

lemma client_rounds_same_fds:
  assumes "\<And>c b w t b' w'. wr c b w = Some (t, b', w') \<Longrightarrow> same_fds w w'"
    and "\<And>c b w t b' w'. rd c b w = Some (t, b', w') \<Longrightarrow> same_fds w w'"
  shows "client_rounds K wr rd i cs b w = Some w' \<Longrightarrow> same_fds w w'"
proof (induction i arbitrary: b w)
  case (Suc i)
  obtain b1 w1 where wp: "for_clients K wr cs b w = Some (b1, w1)" using Suc.prems by (auto split: option.splits)
  obtain x1 w2 where l1: "failed_load K w1 = (x1, w2)" by fastforce
  have "same_fds w w1" by (rule for_clients_same_fds[OF _ wp]) (rule assms(1))
  then have f2: "same_fds w w2" using failed_load_neutral[OF l1] same_fds_trans by blast
  show ?case
  proof (cases x1)
    case True
    with Suc.prems wp l1 f2 show ?thesis by simp
  next
    case go: False
    obtain b2 w3 where rp: "for_clients K rd cs b1 w2 = Some (b2, w3)" using Suc.prems wp l1 go by (auto split: option.splits)
    obtain x3 w4 where l3: "failed_load K w3 = (x3, w4)" by fastforce
    have "same_fds w2 w3" by (rule for_clients_same_fds[OF _ rp]) (rule assms(2))
    then have "same_fds w w4" using f2 failed_load_neutral[OF l3] same_fds_trans by blast
    with Suc.prems wp l1 go rp l3 Suc.IH[of b2 w4] same_fds_trans show ?thesis by (cases x3) auto
  qed
qed simp

lemma tcp_client_rounds_same_fds: "tcp_client_rounds fuel K msg its n cs w = Some w' \<Longrightarrow> same_fds w w'"
  using client_rounds_same_fds[OF tcp_transfers_same_fds] failed_load_neutral same_fds_trans
  by (fastforce simp: tcp_client_rounds_def split: prod.splits bool.splits)

lemma clock_same_fds: "clock_now K w = (t, w') \<Longrightarrow> same_fds w w'"
  by (auto simp: clock_now_eq same_fds_def)

lemma tcp_clientsE:
  assumes "tcp_clients fuel I K msg opts p w = Some (t, w')"
  obtains cs w1 w2 w3 w4 where "connect_clients I K msg p (unat (connections opts)) [] w = (cs, w1)"
    "traffic 0 0 w1 w2" "same_fds w1 w2" "traffic 0 0 w3 w4" "same_fds w3 w4" "w' = clear_clients K cs w4"
    "tcp_client_rounds fuel K msg (unat (iterations opts)) (unat (payload_size opts)) cs w2 = Some w3"
proof -
  obtain cs w1 where con: "connect_clients I K msg p (unat (connections opts)) [] w = (cs, w1)" by fastforce
  obtain t2 w2 where c2: "clock_now K w1 = (t2, w2)" by fastforce
  obtain w3 where r: "tcp_client_rounds fuel K msg (unat (iterations opts)) (unat (payload_size opts)) cs w2 = Some w3"
    using assms con c2 by (auto simp: tcp_clients_def split: option.splits)
  obtain t4 w4 where c4: "clock_now K w3 = (t4, w4)" by fastforce
  show thesis
    using that[OF con clock_traffic[OF c2] clock_same_fds[OF c2] clock_traffic[OF c4] clock_same_fds[OF c4] _ r] assms con c2 r c4
    by (simp add: tcp_clients_def)
qed

lemma tcp_clients_traffic:
  assumes "send_bounded K" "recv_bounded K" "tcp_clients fuel I K msg opts p w = Some (t, w')"
  shows "traffic (echo_bytes opts) (echo_bytes opts) w w'"
  using assms(3)
proof (cases rule: tcp_clientsE)
  case (1 cs w1 w2 w3 w4)
  note c = connect_clients_traffic[OF 1(1), simplified]
  let ?k = "unat (iterations opts) * (length cs * unat (payload_size opts))"
  have "traffic ?k ?k w2 w3" using tcp_client_rounds_traffic[OF assms(1,2) 1(7)] c by simp
  from traffic_trans[OF traffic_trans[OF 1(2) this] 1(4)] 1(6) have "traffic ?k ?k w1 w'" by simp
  then have "traffic (echo_bytes opts) (echo_bytes opts) w1 w'" by (rule traffic_unless) (use c in \<open>auto simp: echo_bytes_def\<close>)
  with c traffic_trans[of 0 0 w w1] show ?thesis by fastforce
qed

lemma tcp_clients_ledger: "tcp_clients fuel I K msg opts p w = Some (t, w') \<Longrightarrow> ledger w w' {#}"
proof (erule tcp_clientsE)
  fix cs w1 w2 w3 w4
  assume con: "connect_clients I K msg p (unat (connections opts)) [] w = (cs, w1)"
    and fds: "same_fds w1 w2" "same_fds w3 w4" and w': "w' = clear_clients K cs w4"
    and r: "tcp_client_rounds fuel K msg (unat (iterations opts)) (unat (payload_size opts)) cs w2 = Some w3"
  have "ledger w w1 (clients_own cs)" by (rule connect_clients_ledger[OF con]) (simp add: clients_own_def)
  moreover have "same_fds w1 w4" using fds tcp_client_rounds_same_fds[OF r] same_fds_trans by blast
  ultimately have "ledger w w4 (clients_own cs)" by (rule ledger_neutral)
  then show "ledger w w' {#}" using ledger_clear_clients[of w w4 "{#}" cs K] w' by simp
qed

lemma tcp_clients_end:
  assumes "send_bounded K" "recv_bounded K" "interrupts_at_most m K" "unat (payload_size opts) + m < fuel"
  shows "tcp_clients fuel I K msg opts p w \<noteq> None"
proof -
  obtain cs w1 where con: "connect_clients I K msg p (unat (connections opts)) [] w = (cs, w1)" by fastforce
  with tcp_client_rounds_end[OF assms, of cs] connect_clients_traffic[OF con]
  show ?thesis by (simp add: tcp_clients_def case_prod_beta Let_def split: option.splits)
qed

lemma run_echo_connection_facts:
  assumes "run_echo_connection fuel K msg s its n w = Some (i, w')"
  shows "sleep_timer w' = sleep_timer w"
    and "ledger u w (M + owns (stream_fd s)) \<Longrightarrow> ledger u w' M"
    and "send_bounded K \<Longrightarrow> recv_bounded K \<Longrightarrow> stream_valid s \<Longrightarrow> traffic (its * n) (its * n) w w'"
proof -
  let ?rd = "\<lambda>buf. read_exact fuel K buf s" and ?wr = "\<lambda>buf. write_all fuel K buf s"
  obtain v where e: "echo_rounds ?rd ''server read failed: '' ?wr ''server write failed: '' K msg its (replicate n 0) w = Some (i, v)"
    and w': "w' = fd_destroy K (stream_fd s) v" using assms by (auto simp: run_echo_connection_def)
  show "sleep_timer w' = sleep_timer w"
    using echo_rounds_timer[OF _ _ e] blocking_timer w' by metis
  have "same_fds w v" using e
  proof (rule echo_rounds_same_fds[rotated 2])
    show "?rd b u1 = Some (r, b', u2) \<Longrightarrow> same_fds u1 u2" for b u1 r b' u2
      using read_exact_only_receives by (auto simp: only_receives_def)
    show "?wr b u1 = Some (r, u2) \<Longrightarrow> same_fds u1 u2" for b u1 r u2
      using write_all_only_sends by (auto simp: only_sends_def)
  qed
  then show "ledger u w (M + owns (stream_fd s)) \<Longrightarrow> ledger u w' M"
    using w' ledger_destroy_part ledger_neutral by blast
  show "send_bounded K \<Longrightarrow> recv_bounded K \<Longrightarrow> stream_valid s \<Longrightarrow> traffic (its * n) (its * n) w w'"
    using blocking_echo_rounds_traffic[OF _ _ _ e] w' by simp
qed

lemma run_handlers_facts:
  assumes "run_handlers fuel K msg its n ss w = Some (u, w')"
  shows "sleep_timer w' = sleep_timer w"
    and "ledger v w (clients_own ss) \<Longrightarrow> ledger v w' {#}"
    and "send_bounded K \<Longrightarrow> recv_bounded K \<Longrightarrow> \<forall>s \<in> set ss. stream_valid s \<Longrightarrow> traffic (length ss * (its * n)) (length ss * (its * n)) w w'"
proof -
  have "sleep_timer w' = sleep_timer w \<and> (ledger v w (clients_own ss) \<longrightarrow> ledger v w' {#})
    \<and> (send_bounded K \<and> recv_bounded K \<and> (\<forall>s \<in> set ss. stream_valid s) \<longrightarrow> traffic (length ss * (its * n)) (length ss * (its * n)) w w')"
    using assms
  proof (induction ss arbitrary: w)
    case Nil
    then show ?case by (simp add: clients_own_def)
  next
    case (Cons s ss)
    obtain i w1 where j: "joined_thread K (run_echo_connection fuel K msg s its n) w = Some (i, w1)"
      and rest: "run_handlers fuel K msg its n ss w1 = Some (u, w')"
      using Cons.prems by (auto split: option.splits)
    obtain x x' a where r: "run_echo_connection fuel K msg s its n x = Some (i, x')" "trace x = trace w"
      "trace w1 = (Thread_join, a) # trace x'" "sleep_timer w1 = sleep_timer w"
      by (rule joined_threadE[OF j]) (use run_echo_connection_facts(1) in auto)
    have "ledger v w1 (clients_own ss)" if "ledger v w (clients_own (s # ss))"
    proof -
      have "ledger v x (clients_own ss + owns (stream_fd s))"
        using that r(2) by (simp add: ledger_def clients_own_def ac_simps)
      from run_echo_connection_facts(2)[OF r(1) this] r(3) show ?thesis by (simp add: ledger_def)
    qed
    moreover have "traffic (its * n) (its * n) w w1" if "send_bounded K" "recv_bounded K" "stream_valid s"
      using joined_traffic[OF r(2,3) run_echo_connection_facts(3)[OF r(1) that]] .
    ultimately show ?case using Cons.IH[OF rest] r(4) traffic_trans[of "its * n" "its * n" w w1] by auto
  qed
  then show "sleep_timer w' = sleep_timer w" "ledger v w (clients_own ss) \<Longrightarrow> ledger v w' {#}"
    "send_bounded K \<Longrightarrow> recv_bounded K \<Longrightarrow> \<forall>s \<in> set ss. stream_valid s \<Longrightarrow> traffic (length ss * (its * n)) (length ss * (its * n)) w w'"
    by simp_all
qed

lemma tcp_accept_loop_ledger:
  assumes "tcp_accept_loop K msg l c hs w = (hs', w')" "ledger v w (clients_own hs)"
  shows "ledger v w' (clients_own hs')"
  using assms
proof (induction c arbitrary: hs w)
  case (Suc c)
  obtain x w1 where load: "failed_load K w = (x, w1)" by fastforce
  obtain r w2 where acc: "listener_accept l K w1 = (r, w2)" by fastforce
  note own1 = ledger_neutral[OF Suc.prems(2) failed_load_neutral[OF load]]
  have made: "made stream_fd w1 (r, w2)" using tcp_accept.make_made[of w1 l K] acc by simp
  show ?case
  proof (cases x)
    case True
    with Suc.prems(1) load own1 show ?thesis by simp
  next
    case go: False
    show ?thesis
    proof (cases r)
      case (Inl e)
      with made ledger_trans[OF own1, of w2 "{#}"] have "ledger v w2 (clients_own hs)" by (simp add: made_def)
      from ledger_neutral[OF this, of w'] Suc.prems(1) load go acc Inl show ?thesis by auto
    next
      case (Inr s)
      with made have "ledger w1 w2 (owns (stream_fd s))" by (simp add: made_def owns_def)
      from ledger_trans[OF own1 this] have "ledger v w2 (clients_own (hs @ [s]))" by (simp add: clients_own_def)
      from Suc.IH[OF _ this] Suc.prems(1) load go acc Inr show ?thesis by simp
    qed
  qed
qed simp

lemma tcp_server_thread_facts:
  assumes "tcp_server_thread fuel K msg l opts w = Some (u, w')"
  shows "sleep_timer w' = sleep_timer w" "ledger w w' {#}"
    "send_bounded K \<Longrightarrow> recv_bounded K \<Longrightarrow> traffic (echo_bytes opts) (echo_bytes opts) w w'"
proof -
  obtain hs w1 where acc: "tcp_accept_loop K msg l (unat (connections opts)) [] w = (hs, w1)" by fastforce
  with assms(1) have run: "run_handlers fuel K msg (unat (iterations opts)) (unat (payload_size opts)) hs w1 = Some (u, w')"
    by (simp add: tcp_server_thread_def)
  note h = run_handlers_facts[OF run] and a = tcp_accept_loop_traffic[OF acc, simplified]
  show "sleep_timer w' = sleep_timer w" using h(1) tcp_accept_loop_timer[OF acc] by simp
  show "ledger w w' {#}" using h(2) tcp_accept_loop_ledger[OF acc, of w] by (simp add: clients_own_def)
  assume K: "send_bounded K" "recv_bounded K"
  let ?k = "length hs * (unat (iterations opts) * unat (payload_size opts))"
  have "traffic ?k ?k w1 w'" using h(3)[OF K] a by simp
  then have "traffic (echo_bytes opts) (echo_bytes opts) w1 w'" by (rule traffic_unless) (use a in \<open>auto simp: echo_bytes_def\<close>)
  with a traffic_trans[of 0 0 w w1] show "traffic (echo_bytes opts) (echo_bytes opts) w w'" by fastforce
qed

lemma blocking_echo_rounds_end:
  assumes "recv_bounded K" "interrupts_at_most m K" "stream_valid s" "length payload + m < fuel"
  shows "echo_rounds (\<lambda>buf. read_exact fuel K buf s) t1 (\<lambda>buf. write_all fuel K buf s) t2 K msg its payload w \<noteq> None"
  using assms(4)
proof (induction its arbitrary: payload w)
  case (Suc its)
  obtain x w1 where l: "failed_load K w = (x, w1)" by fastforce
  obtain r b w2 where rd: "read_exact fuel K payload s w1 = Some (r, b, w2)" using read_exact_ends[OF assms(2) Suc.prems] by blast
  have b: "length b = length payload" using tcp_transfer_traffic(3)[OF assms(3,1) rd] .
  then obtain r2 w3 where wr: "write_all fuel K b s w2 = Some (r2, w3)" using write_all_ends[OF assms(2), of b fuel s w2] Suc.prems by auto
  show ?case using Suc.IH[of b w3] Suc.prems b by (cases x; cases r; cases r2) (simp_all add: l rd wr)
qed simp

lemma tcp_server_thread_end:
  assumes "recv_bounded K" "interrupts_at_most m K" "unat (payload_size opts) + m < fuel"
  shows "tcp_server_thread fuel K msg l opts w \<noteq> None"
proof -
  obtain hs w1 where acc: "tcp_accept_loop K msg l (unat (connections opts)) [] w = (hs, w1)" by fastforce
  then have "\<forall>s \<in> set hs. stream_valid s" using tcp_accept_loop_traffic by fastforce
  then have "run_handlers fuel K msg its (unat (payload_size opts)) hs v \<noteq> None" for its v
  proof (induction hs arbitrary: v)
    case (Cons s hs)
    have "run_echo_connection fuel K msg s its (unat (payload_size opts)) x \<noteq> None" for x
      using blocking_echo_rounds_end[OF assms(1,2), of s "replicate (unat (payload_size opts)) 0" fuel] Cons.prems assms(3)
      by (simp add: run_echo_connection_def)
    then have "joined_thread K (run_echo_connection fuel K msg s its (unat (payload_size opts))) v \<noteq> None"
      by (rule joined_thread_ends)
    with Cons.IH Cons.prems show ?case by (auto split: option.splits)
  qed simp
  then show ?thesis using acc by (simp add: tcp_server_thread_def)
qed

interpretation tcp_parts: benchmark_parts "tcp_clients fuel I K msg opts" "\<lambda>l. tcp_server_thread fuel K msg l opts"
  "echo_bytes opts" "send_bounded K \<and> recv_bounded K" "interrupts_at_most m K \<and> unat (payload_size opts) + m < fuel"
  for fuel I K msg opts m
proof
  fix p w t w' l u
  assume K: "send_bounded K \<and> recv_bounded K"
  show "traffic (echo_bytes opts) (echo_bytes opts) w w'" if "tcp_clients fuel I K msg opts p w = Some (t, w')"
    using tcp_clients_traffic[OF _ _ that] K by simp
  show "traffic (echo_bytes opts) (echo_bytes opts) w w'" if "tcp_server_thread fuel K msg l opts w = Some (u, w')"
    using tcp_server_thread_facts(3)[OF that] K by simp
  assume "interrupts_at_most m K \<and> unat (payload_size opts) + m < fuel"
  with K show "tcp_clients fuel I K msg opts p w \<noteq> None" "tcp_server_thread fuel K msg l opts w \<noteq> None"
    using tcp_clients_end[of K m opts fuel I msg p w] tcp_server_thread_end[of K m opts fuel msg l w] by simp_all
qed (rule tcp_clients_ledger tcp_server_thread_facts(1,2); assumption)+

subsection \<open>The parts of the churn benchmark\<close>

lemma churn_rounds_end:
  assumes "send_bounded K" "recv_bounded K" "interrupts_at_most m K" "length tok = 1" "1 + m < fuel"
  shows "churn_rounds fuel I K msg p conns its tok w \<noteq> None"
  using assms(4)
proof (induction its arbitrary: tok w)
  case (Suc its)
  obtain x1 w1 where l1: "failed_load K w = (x1, w1)" by fastforce
  obtain cs w2 where con: "connect_clients I K msg p conns [] w1 = (cs, w2)" by fastforce
  obtain x3 w3 where l3: "failed_load K w2 = (x3, w3)" by fastforce
  have valid: "\<forall>x \<in> set cs. stream_valid x" using connect_clients_traffic[OF con] by simp
  obtain b4 w4 where wp: "for_clients K (\<lambda>c b. tcp_write fuel K msg b c b) cs tok w3 = Some (b4, w4)"
    using churn_write_step.pass_ends[OF assms(1) _ valid Suc.prems, of m fuel K msg w3] assms(3,5) by auto
  obtain x5 w5 where l5: "failed_load K w4 = (x5, w5)" by fastforce
  obtain b6 w6 where rp: "for_clients K (tcp_read fuel K msg) cs tok w5 = Some (b6, w6)"
    using tcp_read_step.pass_ends[OF assms(2) _ valid Suc.prems, of m fuel K msg w5] assms(3,5) by auto
  obtain x7 w7 where l7: "failed_load K w6 = (x7, w7)" by fastforce
  have "length b6 = 1" using tcp_read_step.pass_counted(1)[OF assms(2) rp valid Suc.prems] .
  from Suc.IH[OF this] show ?case by (cases x1; cases x3; cases x5; cases x7) (simp_all add: l1 con l3 wp l5 rp l7)
qed simp

lemma churn_server_end:
  assumes "recv_bounded K" "interrupts_at_most m K" "length tok = 1" "1 + m < fuel"
  shows "churn_server fuel K msg l its tok w \<noteq> None"
  using assms(3)
proof (induction its arbitrary: tok w)
  case (Suc its)
  obtain x w1 where load: "failed_load K w = (x, w1)" by fastforce
  obtain r w2 where acc: "listener_accept l K w1 = (r, w2)" by fastforce
  show ?case
  proof (cases r)
    case (Inr s)
    have s: "stream_valid s" using tcp_accept.make_made[of w1 l K] acc Inr by (simp add: made_def stream_valid_def)
    obtain r3 b w3 where rd: "read_exact fuel K tok s w2 = Some (r3, b, w3)"
      using read_exact_ends[OF assms(2), of tok fuel s w2] Suc.prems assms(4) by auto
    have b: "length b = 1" using tcp_transfer_traffic(3)[OF s assms(1) rd] Suc.prems by simp
    obtain r4 w4 where wr: "write_all fuel K b s w3 = Some (r4, w4)"
      using write_all_ends[OF assms(2), of b fuel s w3] b assms(4) by auto
    show ?thesis using Suc.IH[OF b] Inr by (cases x; cases r3; cases r4) (simp_all add: load acc rd wr)
  qed (cases x; simp add: load acc)
qed simp

lemma churn_clientsE:
  assumes "churn_clients fuel I K msg opts p w = Some (t, w')"
  obtains w1 w2 where "traffic 0 0 w w1" "same_fds w w1" "traffic 0 0 w2 w'" "same_fds w2 w'"
    "churn_rounds fuel I K msg p (unat (churn_connections opts)) (unat (churn_iterations opts)) [0x7F] w1 = Some w2"
proof -
  obtain t1 w1 where c1: "clock_now K w = (t1, w1)" by fastforce
  obtain w2 where r: "churn_rounds fuel I K msg p (unat (churn_connections opts)) (unat (churn_iterations opts)) [0x7F] w1 = Some w2"
    using assms c1 by (auto simp: churn_clients_def split: option.splits)
  obtain t3 w3 where c3: "clock_now K w2 = (t3, w3)" by fastforce
  have "w' = w3" using assms c1 r c3 by (simp add: churn_clients_def)
  with that clock_traffic[OF c1] clock_same_fds[OF c1] clock_traffic[OF c3] clock_same_fds[OF c3] r show thesis by blast
qed

definition churn_count :: "churn_options \<Rightarrow> nat" where
  "churn_count opts = unat (churn_iterations opts) * unat (churn_connections opts)"

lemma churn_clients_facts:
  assumes "churn_clients fuel I K msg opts p w = Some (t, w')"
  shows "ledger w w' {#}" "send_bounded K \<Longrightarrow> recv_bounded K \<Longrightarrow> traffic (churn_count opts) (churn_count opts) w w'"
proof -
  from assms obtain w1 w2 where p: "traffic 0 0 w w1" "same_fds w w1" "traffic 0 0 w2 w'" "same_fds w2 w'"
    "churn_rounds fuel I K msg p (unat (churn_connections opts)) (unat (churn_iterations opts)) [0x7F] w1 = Some w2"
    by (rule churn_clientsE)
  show "ledger w w' {#}"
    using ledger_trans[OF ledger_neutral[OF ledger_refl p(2)] ledger_neutral[OF churn_rounds_leak_free[OF p(5)] p(4)]] by simp
  assume "send_bounded K" "recv_bounded K"
  from traffic_trans[OF traffic_trans[OF p(1) churn_rounds_traffic[OF this p(5)]] p(3)]
  show "traffic (churn_count opts) (churn_count opts) w w'" by (simp add: churn_count_def)
qed

text \<open>The check before the program starts makes the number of connections exact.\<close>

lemma total_connections_exact:
  assumes "churn_connections opts \<noteq> 0" "product_fits (churn_iterations opts) (churn_connections opts)"
  shows "unat (total_connections opts) = churn_count opts"
  using product_fits_iff[OF assms(1)] assms(2) by (simp add: total_connections_def churn_count_def unat_word_ariths)

interpretation churn_parts: benchmark_parts "churn_clients fuel I K msg opts" "\<lambda>l. churn_server_thread fuel K msg l opts"
  "churn_count opts" "send_bounded K \<and> recv_bounded K \<and> unat (total_connections opts) = churn_count opts"
  "interrupts_at_most m K \<and> 1 + m < fuel" for fuel I K msg opts m
proof
  fix p w t w' l u
  show "ledger w w' {#}" if "churn_clients fuel I K msg opts p w = Some (t, w')" using churn_clients_facts(1)[OF that] .
  show "ledger w w' {#}" "sleep_timer w' = sleep_timer w" if "churn_server_thread fuel K msg l opts w = Some (u, w')"
    using that churn_server_leak_free churn_server_timer by (auto simp: churn_server_thread_def)
  assume K: "send_bounded K \<and> recv_bounded K \<and> unat (total_connections opts) = churn_count opts"
  show "traffic (churn_count opts) (churn_count opts) w w'" if "churn_clients fuel I K msg opts p w = Some (t, w')"
    using churn_clients_facts(2)[OF that] K by simp
  show "traffic (churn_count opts) (churn_count opts) w w'" if "churn_server_thread fuel K msg l opts w = Some (u, w')"
    using that K churn_server_traffic[of K fuel msg l "churn_count opts" "[0]" w w'] by (auto simp: churn_server_thread_def)
  assume e: "interrupts_at_most m K \<and> 1 + m < fuel"
  then have "churn_rounds fuel I K msg p conns its [0x7F] v \<noteq> None" for conns its v
    using K by (intro churn_rounds_end[of K m]) auto
  then show "churn_clients fuel I K msg opts p w \<noteq> None"
    by (simp add: churn_clients_def case_prod_beta Let_def split: option.splits)
  show "churn_server_thread fuel K msg l opts w \<noteq> None"
    using K e churn_server_end[of K m "[0]" fuel] by (simp add: churn_server_thread_def)
qed

subsection \<open>Whole programs\<close>

lemma print_ledger [simp]: "ledger w (cerr K t v) M = ledger w v M"
  by (rule ledger_same_fds) simp

lemma parse_args_churn_ok:
  "parse_args_churn args out = Some opts \<Longrightarrow> churn_connections out \<noteq> 0 \<Longrightarrow> churn_connections opts \<noteq> 0"
  by (induction args out rule: parse_args_churn.induct) (auto split: if_splits option.splits dest: parse_positive_size_pos)

lemma churn_total:
  "parse_args_churn args default_churn_options = Some opts \<Longrightarrow> product_fits (churn_iterations opts) (churn_connections opts)
    \<Longrightarrow> unat (total_connections opts) = churn_count opts"
  using total_connections_exact[OF parse_args_churn_ok] by (auto simp: default_churn_options_def)

text \<open>
  A network for the examples: a new descriptor each time, two bytes a transfer, a clock that ticks at
  every call, a flag that only the program's own failures set.
\<close>

definition bench_kernel :: kernel where
  "bench_kernel tr c = (case c of
       Socket _ _ _ \<Rightarrow> ok_answer\<lparr>a_ret := 3 + int (length tr)\<rparr>
     | Accept4 _ _ _ \<Rightarrow> ok_answer\<lparr>a_ret := 3 + int (length tr)\<rparr>
     | Recv _ n \<Rightarrow> ok_answer\<lparr>a_ret := int (min 2 n), a_data := replicate (min 2 n) 0x42\<rparr>
     | Send_plain _ buf \<Rightarrow> ok_answer\<lparr>a_ret := min 2 (int (length buf))\<rparr>
     | Send _ buf \<Rightarrow> ok_answer\<lparr>a_ret := min 2 (int (length buf))\<rparr>
     | Clock_now \<Rightarrow> ok_answer\<lparr>a_num := int (length tr)\<rparr>
     | Failed_load \<Rightarrow> ok_answer\<lparr>a_ret := of_bool (failed_seen tr)\<rparr>
     | _ \<Rightarrow> ok_answer)"

lemma bench_kernel_ok: "send_bounded bench_kernel" "recv_bounded bench_kernel" "flag_sticks bench_kernel"
  by (auto simp: send_bounded_def recv_bounded_def flag_sticks_def bench_kernel_def ok_answer_def)

lemma to_string_small: "to_string 2 = ''2''" "to_string 3 = ''3''"
  by code_simp+



text \<open>
  So does the churn benchmark: when it exits with 0, \<open>iterations * connections\<close> connections have each
  carried one byte to the server and one back, the check for overflow at the start has made the number of
  connections in its line exact, and its \<^verbatim>\<open>bytes\<close> are the bytes sent, modulo \<open>2^64\<close>. However it ends, every
  descriptor it opened is closed; and it ends if its calls are interrupted a bounded number of times.
\<close>

theorem churn_benchmark_truthful:
  assumes "send_bounded K" "recv_bounded K" "flag_sticks K"
  shows "(\<forall>code w'. churn_main fuel I K msg fmt args w = Some (code, w') \<longrightarrow> ledger w w' {#} \<and>
      (code = 0 \<longrightarrow> (\<exists>opts elapsed a. parse_args_churn args default_churn_options = Some opts \<and> 0 < elapsed
        \<and> (Cout (churn_report fmt opts elapsed), a) \<in> set (trace w')
        \<and> unat (total_connections opts) = churn_count opts \<and> churn_bytes opts = of_nat (2 * churn_count opts)
        \<and> sent_total (trace w') = sent_total (trace w) + 2 * churn_count opts
        \<and> received_total (trace w') = received_total (trace w) + 2 * churn_count opts)))
    \<and> (\<forall>m. interrupts_at_most m K \<and> 1 + m < fuel \<longrightarrow> (\<exists>code w'. churn_main fuel I K msg fmt args w = Some (code, w')))"
proof (rule conjI; intro allI impI)
  fix code w' assume "churn_main fuel I K msg fmt args w = Some (code, w')"
  then consider (refused) "code = 2" "ledger w w' {#}"
    | (ran) opts where "parse_args_churn args default_churn_options = Some opts"
        "blocking_benchmark I K msg (listen_backlog (churn_connections opts)) (churn_clients fuel I K msg opts)
          (\<lambda>l. churn_server_thread fuel K msg l opts) (churn_report fmt opts) w = Some (code, w')"
        "unat (total_connections opts) = churn_count opts"
    by (auto simp: churn_main_def dest: churn_total split: option.splits if_splits)
  then show "ledger w w' {#} \<and>
      (code = 0 \<longrightarrow> (\<exists>opts elapsed a. parse_args_churn args default_churn_options = Some opts \<and> 0 < elapsed
        \<and> (Cout (churn_report fmt opts elapsed), a) \<in> set (trace w')
        \<and> unat (total_connections opts) = churn_count opts \<and> churn_bytes opts = of_nat (2 * churn_count opts)
        \<and> sent_total (trace w') = sent_total (trace w) + 2 * churn_count opts
        \<and> received_total (trace w') = received_total (trace w) + 2 * churn_count opts))"
  proof cases
    case ran
    have "churn_bytes opts = of_nat (2 * churn_count opts)" by (simp add: churn_bytes_def total_connections_def churn_count_def)
    with churn_parts.main_ledger[OF ran(2)] churn_parts.main_figures[OF _ assms(3)] assms(1,2) ran show ?thesis by blast
  qed simp
next
  fix m assume m: "interrupts_at_most m K \<and> 1 + m < fuel"
  have "\<exists>code w'. blocking_benchmark I K msg (listen_backlog (churn_connections opts)) (churn_clients fuel I K msg opts)
          (\<lambda>l. churn_server_thread fuel K msg l opts) (churn_report fmt opts) w = Some (code, w')"
    if "unat (total_connections opts) = churn_count opts" for opts
    using assms(1,2) m that by (blast intro: churn_parts.main_ends)
  then show "\<exists>code w'. churn_main fuel I K msg fmt args w = Some (code, w')"
    by (auto simp: churn_main_def dest: churn_total split: option.splits)
qed

theorem churn_benchmark_truthful_witness:
  "\<exists>w. churn_main 3 quad_inet bench_kernel (\<lambda>_. []) (\<lambda>_. [])
       [''--iterations'', ''2'', ''--connections'', ''3''] init_world = Some (0, w)
     \<and> sent_total (trace w) = 12 \<and> received_total (trace w) = 12 \<and> ledger init_world w {#}"
proof -
  let ?args = "[''--iterations'', ''2'', ''--connections'', ''3'']"
  let ?opts = "\<lparr>churn_iterations = 2, churn_connections = 3\<rparr>"
  let ?run = "churn_main 3 quad_inet bench_kernel (\<lambda>_. []) (\<lambda>_. []) ?args init_world"
  have opts: "parse_args_churn ?args default_churn_options = Some ?opts"
    using parse_positive_size_decimal[of 2] parse_positive_size_decimal[of 3] by (simp add: default_churn_options_def to_string_small)
  have fits: "product_fits 2 3" by (simp add: product_fits_def)
  have "map_option fst ?run = map_option fst (blocking_benchmark quad_inet bench_kernel (\<lambda>_. []) (listen_backlog 3)
      (churn_clients 3 quad_inet bench_kernel (\<lambda>_. []) ?opts) (\<lambda>l. churn_server_thread 3 bench_kernel (\<lambda>_. []) l ?opts)
      (churn_report (\<lambda>_. []) ?opts) init_world)" unfolding churn_main_def opts using fits by simp
  also have "\<dots> = Some 0" by code_simp
  finally obtain w where "?run = Some (0, w)" by auto
  with churn_benchmark_truthful[OF bench_kernel_ok, of 3 quad_inet "\<lambda>_. []" "\<lambda>_. []" ?args init_world] show ?thesis
    unfolding opts by (auto simp: churn_count_def init_world_def)
qed

subsection \<open>The reactor benchmark\<close>

text \<open>The calls of \<^verbatim>\<open>epoll_wait\<close> in a history, and the documented answers of \<^verbatim>\<open>pipe2\<close>.\<close>

fun waits :: "history \<Rightarrow> nat" where
  "waits [] = 0"
| "waits ((c, a) # tr) = (case c of Epoll_wait _ _ _ \<Rightarrow> 1 | _ \<Rightarrow> 0) + waits tr"

definition pipe_answers :: "kernel \<Rightarrow> bool" where
  "pipe_answers K = (\<forall>tr. a_ret (K tr Pipe2) \<le> 0
     \<and> (a_ret (K tr Pipe2) = 0 \<longrightarrow> 0 \<le> fst (a_pipe (K tr Pipe2)) \<and> 0 \<le> snd (a_pipe (K tr Pipe2))))"

text \<open>A run that opens and closes nothing and waits \<open>n\<close> times.\<close>

definition waited :: "nat \<Rightarrow> world \<Rightarrow> world \<Rightarrow> bool" where
  "waited n w w' = (same_fds w w' \<and> waits (trace w') = waits (trace w) + n)"

lemma waited_trans: "waited m w w1 \<Longrightarrow> waited n w1 w2 \<Longrightarrow> waited (m + n) w w2"
  by (auto simp: waited_def same_fds_def)

lemma clock_waited: "clock_now K w = (t, w') \<Longrightarrow> waited 0 w w'"
  by (auto simp: clock_now_eq waited_def same_fds_def)

lemma print_waited [simp]: "waited n w (cout K t v) = waited n w v" "waited n w (cerr K t v) = waited n w v"
  by (simp_all add: waited_def same_fds_def cout_def cerr_def)

lemma alloc_baseline_waited: "alloc_baseline K ep i out w = (out', w') \<Longrightarrow> waited i w w'"
proof (induction i arbitrary: out w)
  case (Suc i)
  have "waited 1 w (snd (sys K (Epoll_wait ep (length out) 0) w))" by (simp add: waited_def same_fds_def)
  with Suc waited_trans[of 1 w _ i w'] show ?case by (auto simp: Let_def case_prod_beta)
qed (simp add: waited_def)

lemma reactor_wait_waited: "reactor_wait K n t r w = (Inr evs, w') \<Longrightarrow> waited 1 w w'"
  by (auto simp: reactor_wait_def waited_def same_fds_def sys_eq Let_def split: if_splits prod.splits)

lemma reactor_wait_same_fds: "reactor_wait K n t r w = (x, w') \<Longrightarrow> same_fds w w'"
  by (auto simp: reactor_wait_def same_fds_def sys_eq Let_def split: if_splits prod.splits)

lemma reuse_path_waited: "reuse_path K r i w = (b, w') \<Longrightarrow> same_fds w w' \<and> (b \<longrightarrow> waited i w w')"
proof (induction i arbitrary: w)
  case (Suc i)
  obtain x w1 where wt: "reactor_wait K kBatchSize 0 r w = (x, w1)" by fastforce
  show ?case
  proof (cases x)
    case (Inr evs)
    with Suc wt have "same_fds w1 w' \<and> (b \<longrightarrow> waited i w1 w')" by simp
    with waited_trans[OF reactor_wait_waited[OF wt[unfolded Inr]], of i w'] reactor_wait_same_fds[OF wt] show ?thesis
      using same_fds_trans by auto
  qed (use Suc.prems wt reactor_wait_same_fds[OF wt] in simp)
qed (simp add: waited_def)

lemma run_alloc_baseline_waited: "run_alloc_baseline K ep its w = (f, w') \<Longrightarrow> waited (unat its) w w'"
  using waited_trans[OF waited_trans[OF clock_waited alloc_baseline_waited] clock_waited]
  by (fastforce simp: run_alloc_baseline_def split: prod.splits)

lemma run_reuse_path_waited:
  assumes "run_reuse_path K r its w = (f, w')"
  shows "same_fds w w' \<and> (0 < total_ms f \<longrightarrow> waited (unat its) w w')"
proof -
  obtain t1 w1 where c1: "clock_now K w = (t1, w1)" by fastforce
  obtain b w2 where p: "reuse_path K r (unat its) w1 = (b, w2)" by fastforce
  obtain t3 w3 where c3: "clock_now K w2 = (t3, w3)" by fastforce
  note path = reuse_path_waited[OF p]
  show ?thesis
  proof (cases b)
    case True
    with assms c1 p c3 have "w' = w3" by (simp add: run_reuse_path_def)
    with True path waited_trans[OF waited_trans[OF clock_waited[OF c1]] clock_waited[OF c3]] show ?thesis by (auto simp: waited_def)
  next
    case False
    with assms c1 p path clock_same_fds[OF c1] same_fds_trans show ?thesis by (auto simp: run_reuse_path_def)
  qed
qed

lemma reactor_modes_waited:
  assumes "reactor_modes K fmt mode r its w = (code, w')"
  shows "same_fds w w' \<and> (code = 0 \<longrightarrow> waited ((if mode = All then 2 else 1) * unat its) w w')"
proof -
  obtain f1 w1 where alloc: "run_alloc_baseline K (reactor_native_handle r) its w = (f1, w1)" by fastforce
  obtain f2 w2 where reuse: "run_reuse_path K r its w = (f2, w2)" by fastforce
  obtain f3 w3 where both: "run_reuse_path K r its w1 = (f3, w3)" by fastforce
  have prints: "same_fds v (cout K t u) = same_fds v u" "same_fds v (cerr K t u) = same_fds v u" for v t u
    by (simp_all add: same_fds_def cout_def cerr_def)
  note parts = run_alloc_baseline_waited[OF alloc] run_reuse_path_waited[OF reuse] run_reuse_path_waited[OF both]
  have two: "waited (2 * unat its) w w3" if "0 < total_ms f3" using waited_trans[OF parts(1)] parts(3) that by (simp add: mult_2)
  have "same_fds w w1" using parts(1) by (simp add: waited_def)
  with parts(3) have "same_fds w w3" using same_fds_trans by blast
  then show ?thesis using assms parts two
    by (cases mode) (auto simp: reactor_modes_def alloc reuse both prints not_le waited_def[of _ w w1] split: if_splits)
qed

lemma reactor_session_waited:
  assumes "reactor_session K msg fmt mode its n w = (code, w')"
  shows "ledger w w' {#} \<and> (code = 0 \<longrightarrow> waits (trace w') = waits (trace w) + (if mode = All then 2 else 1) * unat its)"
proof -
  obtain x w1 where cr: "reactor_create K w = (x, w1)" by fastforce
  show ?thesis
  proof (cases x)
    case (Inl e)
    with cr have "ledger w w1 {#}" by (auto simp: reactor_create_def sys_eq ledger_def split: if_splits)
    with assms cr Inl show ?thesis by (auto simp: reactor_session_def)
  next
    case (Inr r)
    with cr have made: "ledger w w1 (owns (epoll_fd r))" "waits (trace w1) = waits (trace w)"
      by (auto simp: reactor_create_def sys_eq ledger_def owns_def split: if_splits)
    obtain y w2 where add: "reactor_add K n (EPOLLIN OR EPOLLET) r w1 = (y, w2)" by fastforce
    then have w2: "waited 0 w1 w2"
      by (auto simp: reactor_add_def reactor_ctl_def sys_eq waited_def same_fds_def Let_def split: if_splits)
    obtain cd w3 where md: "reactor_modes K fmt mode r its
        (cout K (''mode,iterations,total_ms,avg_ns_per_wait,waits_per_sec'' @ newline) w2) = (cd, w3)" by fastforce
    have gone: "ledger w (fd_destroy K (epoll_fd r) v) {#}" if "same_fds w1 v" for v
      by (rule ledger_destroy[OF ledger_neutral[OF made(1) that]])
    show ?thesis
    proof (cases y)
      case l: (Inl e)
      have "same_fds w1 (cerr K t w2)" for t using w2 by (simp add: waited_def same_fds_def cerr_def)
      from gone[OF this] assms cr Inr add l show ?thesis by (auto simp: reactor_session_def)
    next
      case r: (Inr u)
      have w3: "same_fds w1 w3" "cd = 0 \<longrightarrow> waits (trace w3) = waits (trace w) + (if mode = All then 2 else 1) * unat its"
        using reactor_modes_waited[OF md] w2 made(2) by (auto simp: waited_def same_fds_def cout_def)
      have "code = cd" "w' = fd_destroy K (epoll_fd r) w3" using assms cr Inr add r md by (auto simp: reactor_session_def)
      with gone[OF w3(1)] w3(2) show ?thesis by (simp add: fd_destroy_eq)
    qed
  qed
qed

text \<open>
  The reactor benchmark closes the pipe and the reactor on every path, and when it exits with 0 each
  path it measured has waited exactly as often as asked.
\<close>

theorem reactor_benchmark_truthful:
  assumes "pipe_answers K" "reactor_wait_main K msg fmt args w = (code, w')"
  shows "ledger w w' {#} \<and> (code = 0 \<longrightarrow> (\<exists>its mode. parse_args_reactor args 200000 All = Some (its, mode)
    \<and> waits (trace w') = waits (trace w) + (if mode = All then 2 else 1) * unat its))"
proof (cases "parse_args_reactor args 200000 All")
  case (Some opts)
  obtain its mode where opts: "opts = (its, mode)" by fastforce
  let ?a = "K (trace w) Pipe2" and ?w1 = "snd (sys K Pipe2 w)"
  show ?thesis
  proof (cases "a_ret ?a = 0")
    case True
    let ?rd = "make_fd (fst (a_pipe ?a))" and ?wr = "make_fd (snd (a_pipe ?a))"
    have fds: "0 \<le> fst (a_pipe ?a)" "0 \<le> snd (a_pipe ?a)" using assms(1) True by (simp_all add: pipe_answers_def)
    have pipe: "ledger w ?w1 {#fst (a_pipe ?a), snd (a_pipe ?a)#}" using True by (simp add: ledger_def)
    obtain cd w2 where s: "reactor_session K msg fmt mode its (fd_get ?rd) ?w1 = (cd, w2)" by fastforce
    have w': "code = cd" "w' = fd_destroy K ?rd (fd_destroy K ?wr w2)"
      using assms(2) Some opts True s by (auto simp: reactor_wait_main_def sys_eq)
    have "ledger w w2 {#fst (a_pipe ?a), snd (a_pipe ?a)#}"
      using ledger_trans[OF pipe conjunct1[OF reactor_session_waited[OF s]]] by simp
    then have "ledger w w' {#}" using fds w'(2) by (auto simp: ledger_def fd_destroy_eq ac_simps)
    with reactor_session_waited[OF s] w' Some opts show ?thesis by (simp add: fd_destroy_eq)
  next
    case False
    then have "a_ret ?a < 0" using assms(1) by (simp add: pipe_answers_def order_less_le)
    with assms(2) Some opts False show ?thesis by (auto simp: reactor_wait_main_def sys_eq ledger_def cerr_def)
  qed
qed (use assms in \<open>auto simp: reactor_wait_main_def\<close>)

end
