(* ===== verification/Run_History.thy ===== *)
theory Run_History
  imports Lifetime
begin

section \<open>Runs only add to the history\<close>

text \<open>
  The operations of both event loops extend the history of calls and never rewrite it, however many
  turns a run makes and whatever the coroutines do: what was observed before a run is still there after it.
\<close>

lemma quietly_extends: "quietly w w' \<Longrightarrow> extends w w'"
  by (auto simp: quietly_def extends_def)

lemma clock_extends: "clock_now K w = (t, w') \<Longrightarrow> extends w w'"
  by (auto simp: clock_now_eq extends_def)

subsection \<open>The epoll loop\<close>

lemma arm_waiter_extends: "arm_waiter K n h rd timeout terr el w = (r, el', w') \<Longrightarrow> extends w w'"
  by (auto simp: arm_waiter_def arm_register_def Let_def
      split: if_splits option.splits prod.splits sum.splits dest!: refresh_interest_extends clock_extends intro: extends_trans)

lemma expire_scan_extends: "expire_scan K now xs kept nd el w = (b, nd', el', w') \<Longrightarrow> extends w w'"
proof (induction xs arbitrary: kept nd el w)
  case (Cons x xs)
  obtain n slot where x: "x = (n, slot)" by fastforce
  obtain ch1 slot1 el1 where e1: "expire_registration now True slot el = (ch1, slot1, el1)" by (metis prod_cases3)
  obtain ch2 slot2 el2 where e2: "expire_registration now False slot1 el1 = (ch2, slot2, el2)" by (metis prod_cases3)
  obtain res slot3 w1 where r: "(if ch1 \<or> ch2 then refresh_interest K (reactor el2) n slot2 w else (Inr (), slot2, w)) = (res, slot3, w1)"
    by (metis prod_cases3)
  then have "extends w w1" by (auto split: if_splits dest: refresh_interest_extends)
  moreover have "extends w1 w'" using Cons.prems Cons.IH unfolding x
    by (auto simp: e1 e2 r simp del: if_split split: sum.splits if_splits)
  ultimately show ?case by (rule extends_trans)
qed simp

lemma process_expired_extends: "process_expired_waiters K el w = (el', w') \<Longrightarrow> extends w w'"
  by (auto simp: process_expired_waiters_def split: if_splits prod.splits bool.splits
      dest!: clock_extends expire_scan_extends intro: extends_trans)

lemma waiter_event_extends: "process_waiter_event K ev el w = (el', w') \<Longrightarrow> extends w w'"
  by (auto simp: process_waiter_event_def Let_def split: option.splits prod.splits sum.splits if_splits dest!: refresh_interest_extends)

interpretation grows: loop_property K "\<lambda>el w. extends w0 w" for K w0
proof (unfold_locales, goal_cases)
  case (1 el w el' w')
  from 1(2) have "extends w w'"
    by (cases rule: client_step.cases) (auto dest: arm_waiter_extends quietly_extends stop_quietly)
  with 1(1) show ?case by (rule extends_trans)
qed (auto dest: process_expired_extends waiter_event_extends intro: extends_trans)

subsection \<open>The io\_uring loop\<close>

lemma uring_call_extends:
  "submit_poll_add K ud n m r w = (x, w') \<Longrightarrow> extends w w'" "submit_poll_remove K ud r w = (x, w') \<Longrightarrow> extends w w'"
  "flush_submissions K el w = (x, el', w') \<Longrightarrow> extends w w'"
  using uring_ops_extends(1)[of w K ud n m r] uring_ops_extends(2)[of w K ud r] uring_ops_extends(3)[of w K "u_reactor el"]
  by (auto simp: flush_submissions_def split: if_splits prod.splits sum.splits)

lemma queue_poll_add_extends: "queue_poll_add K t n m el w = (r, el', w') \<Longrightarrow> extends w w'"
  by (auto simp: queue_poll_add_def split: prod.splits sum.splits if_splits dest!: uring_call_extends(1,3); meson extends_trans)

lemma removed_status_world: "removed_status r el w = (x, el', w') \<Longrightarrow> w' = w"
  by (auto simp: removed_status_def split: sum.splits if_splits)

lemma queue_poll_remove_extends: "queue_poll_remove K t el w = (r, el', w') \<Longrightarrow> extends w w'"
  by (auto simp: queue_poll_remove_def split: prod.splits sum.splits if_splits
      dest!: removed_status_world uring_call_extends(2,3); meson extends_trans)

lemma u_arm_waiter_extends: "u_arm_waiter K n h rd timeout terr el w = (r, el', w') \<Longrightarrow> extends w w'"
  by (auto simp: u_arm_waiter_def u_arm_register_def Let_def
      split: if_splits option.splits prod.splits sum.splits dest!: queue_poll_add_extends clock_extends; meson extends_trans)

lemma u_expire_registration_extends: "u_expire_registration K now n rd nd el w = (nd', el', w') \<Longrightarrow> extends w w'"
  by (auto simp: u_expire_registration_def Let_def split: option.splits prod.splits sum.splits if_splits dest!: queue_poll_remove_extends)

lemma u_expire_scan_extends: "u_expire_scan K now ns nd el w = (b, nd', el', w') \<Longrightarrow> extends w w'"
proof (induction ns arbitrary: nd el w)
  case (Cons n ns)
  from Cons.prems show ?case
    by (auto split: prod.splits if_splits dest!: u_expire_registration_extends Cons.IH; meson extends_trans)
qed simp

lemma u_expired_extends: "u_process_expired_waiters K el w = (el', w') \<Longrightarrow> extends w w'"
  by (auto simp: u_process_expired_waiters_def split: if_splits prod.splits bool.splits
      dest!: clock_extends u_expire_scan_extends; meson extends_trans)

lemma u_load_stop_extends: "u_load_stop K el w = (b, el', w') \<Longrightarrow> extends w w'"
  by (auto simp: u_load_stop_def sys_eq extends_def Let_def)

lemma process_completion_extends: "process_completion fuel K c el w = Some (el', w') \<Longrightarrow> extends w w'"
  by (auto simp: process_completion_def process_wake_completion_def u_consume_wakeup_def split: if_splits option.splits prod.splits sum.splits
      dest!: read_wakeup_quietly[THEN quietly_extends] u_load_stop_extends queue_poll_add_extends uring_call_extends(3); meson extends_trans)

lemma process_completions_extends: "process_completions fuel K cs el w = Some (el', w') \<Longrightarrow> extends w w'"
proof (induction cs arbitrary: el w)
  case (Cons c cs)
  from Cons.prems show ?case
    by (auto split: option.splits prod.splits if_splits dest!: process_completion_extends Cons.IH; meson extends_trans)
qed simp

lemma u_client_step_extends: "u_client_step K (el, w) (el', w') \<Longrightarrow> extends w w'"
  by (cases rule: u_client_step.cases)
    (auto simp: u_stop_def Let_def split: if_splits dest: u_arm_waiter_extends dest!: write_wakeup_quietly[THEN quietly_extends])

lemma u_resumed_extends:
  assumes "u_library_client K E" "co_resume E h c el w = (c', el', w')"
  shows "extends w w'"
proof -
  have "(u_client_step K)\<^sup>*\<^sup>* (el, w) (el', w')" using assms by (simp add: u_library_client_def)
  then show ?thesis by (induction rule: rtranclp_induct2) (auto dest: u_client_step_extends intro: extends_trans)
qed

lemma u_drain_extends:
  assumes "u_library_client K E"
  shows "u_drain_ready k K E c el w = Some (c', el', w') \<Longrightarrow> extends w w'"
proof (induction k arbitrary: c el w)
  case (Suc k)
  from Suc.prems show ?case
    by (auto simp: Let_def split: list.splits if_splits prod.splits
        dest!: u_resumed_extends[OF assms] u_expired_extends u_load_stop_extends Suc.IH; meson extends_trans)
qed simp

lemma peek_loop_extends: "peek_loop k K cs w = (r, w') \<Longrightarrow> extends w w'"
proof (induction k arbitrary: cs w)
  case (Suc k)
  obtain a w1 where c: "sys K Uring_peek_cqe w = (a, w1)" by fastforce
  let ?w2 = "snd (sys K Uring_cqe_seen w1)"
  have w1: "extends w w1" using extends_sys[of w K Uring_peek_cqe] by (simp add: c)
  then have "extends w ?w2" using extends_sys extends_trans by blast
  with w1 Suc.prems Suc.IH[of _ ?w2] show ?case
    by (auto simp: c consume_cqe_def split: if_splits intro: extends_trans)
qed simp

lemma u_wait_timeout_extends: "u_wait_timeout K el w = (t, w') \<Longrightarrow> extends w w'"
  by (auto simp: u_wait_timeout_def Let_def split: option.splits prod.splits if_splits dest: clock_extends)

lemma uring_wait_extends:
  assumes "uring_wait K n t r w = (res, w')"
  shows "extends w w'"
proof -
  obtain a w1 where c: "(case t of Some t \<Rightarrow> let (s, ns) = to_kernel_timespec t in sys K (Uring_wait_cqe_timeout s ns) w
      | None \<Rightarrow> sys K Uring_wait_cqe w) = (a, w1)" by fastforce
  then have w1: "extends w w1" by (auto simp: sys_eq extends_def Let_def split: option.splits prod.splits)
  let ?w2 = "snd (sys K Uring_cqe_seen w1)"
  from w1 have "extends w ?w2" using extends_sys extends_trans by blast
  with assms w1 peek_loop_extends[of "n - 1" K _ ?w2] show ?thesis unfolding uring_wait_def c
    by (auto simp: consume_cqe_def split: if_splits intro: extends_trans)
qed

lemma u_run_loop_extends:
  assumes "u_library_client K E"
  shows "u_run_loop k K E c el w = Some (ex, c', el', w') \<Longrightarrow> extends w w'"
proof (induction k arbitrary: c el w)
  case (Suc k)
  from Suc.prems show ?case
    by (auto split: option.splits if_splits prod.splits sum.splits
        dest!: u_drain_extends[OF assms] u_expired_extends u_load_stop_extends u_wait_timeout_extends uring_wait_extends uring_call_extends(3)
          process_completions_extends Suc.IH; meson extends_trans)
qed simp

lemma u_run_extends:
  assumes "u_library_client K E" "u_run fuel K E c el w = Some (r, c', el', w')"
  shows "extends w w'"
  using assms(2)
  by (auto simp: u_run_def Let_def split: if_splits option.splits loop_exit.splits prod.splits sum.splits
      dest!: u_run_loop_extends[OF assms(1)] uring_call_extends(3); meson extends_trans)

subsection \<open>The context\<close>

lemma context_run_extends:
  assumes "library_client K E" "u_library_client K U" "io_context_run fuel K E U c x w = Some (r, c', x', w')"
  shows "extends w w'"
  using assms(3) grows.ran[OF assms(1), where ?w0.0 = w] u_run_extends[OF assms(2)]
  by (fastforce simp: io_context_run_def engine_run_def split: option.splits)

lemma context_stop_extends: "io_context_stop fuel K x w = Some (x', w') \<Longrightarrow> extends w w'"
  by (auto simp: io_context_stop_def engine_stop_def u_stop_def Let_def split: option.splits if_splits
      dest!: stop_quietly write_wakeup_quietly intro: quietly_extends)

lemma context_destroy_extends: "extends w (snd (io_context_destroy K E U c x w))"
proof -
  have d: "extends v (fd_destroy K u v)" "extends v (destroy_ring K r v)" for u v r
    by (simp_all add: fd_destroy_eq destroy_ring_def extends_def)
  show ?thesis
    by (auto simp: io_context_destroy_def engine_destroy_def event_loop_destroy_def uring_loop_destroy_def reactor_destroy_def
        Let_def split: option.splits prod.splits intro: d; meson d extends_trans)
qed

end
