(* ===== verification/Benchmark_Async.thy ===== *)
theory Benchmark_Async
  imports Benchmark_Claims Run_History
begin

section \<open>The asynchronous benchmark: what is claimed\<close>

text \<open>
  \<^verbatim>\<open>main\<close> of the asynchronous echo benchmark on either backend, for sessions that reach the event loop only
  through its public interface: what an exit code of 0 says about the clients, the runtime thread and
  the counter of accepted connections.
\<close>

subsection \<open>Before and after the runtime thread\<close>

lemma totals_grow:
  assumes "extends w w'"
  shows "sent_total (trace w) \<le> sent_total (trace w')" "received_total (trace w) \<le> received_total (trace w')"
    "failed_seen (trace w) \<Longrightarrow> failed_seen (trace w')"
  using assms by (auto simp: extends_def)

lemma record_failure_extends: "extends w (record_failure K t w)"
  by (simp add: record_failure_def sys_eq extends_def)

lemma load_extends: "failed_load K w = (b, w') \<Longrightarrow> extends w w'"
  by (auto simp: failed_load_def sys_eq extends_def)

lemma fd_destroy_extends: "extends w (fd_destroy K u w)"
  by (simp add: fd_destroy_eq extends_def)

lemma loop_construct_extends: "event_loop_construct K w = (el, w') \<Longrightarrow> extends w w'"
  by (auto simp: event_loop_construct_def reactor_create_def reactor_add_def reactor_ctl_def sys_eq extends_def Let_def
      split: prod.splits sum.splits if_splits)

lemma uring_construct_extends: "uring_loop_construct K depth w = (el, w') \<Longrightarrow> extends w w'"
proof -
  have "extends w w1" if "uring_create K depth w = (r, w1)" for r w1
    using that by (auto simp: uring_create_def destroy_ring_def sys_eq extends_def Let_def split: if_splits)
  moreover have "extends w1 w2" if "sys K Eventfd w1 = (a, w2)" for w1 a w2
    using extends_sys[of w1 K Eventfd] that by simp
  ultimately show "uring_loop_construct K depth w = (el, w') \<Longrightarrow> extends w w'"
    by (auto simp: uring_loop_construct_def Let_def split: prod.splits sum.splits if_splits
        dest!: queue_poll_add_extends uring_call_extends(3); meson extends_trans)
qed

lemma setup_extends:
  "io_context_construct K b depth w = (x, w') \<Longrightarrow> extends w w'"
  "nb_bind I ep backlog K w = (l, w') \<Longrightarrow> extends w w'"
  "nb_local_port K l1 w = (p, w') \<Longrightarrow> extends w w'"
proof -
  show "extends w w'" if "nb_bind I ep backlog K w = (l, w')"
    using that by (auto simp: nb_bind_def nb_simps made_simps extends_def split: sum.splits if_splits)
  show "extends w w'" if "nb_local_port K l1 w = (p, w')"
    using that by (auto simp: nb_local_port_def sys_eq extends_def Let_def split: if_splits)
  show "extends w w'" if "io_context_construct K b depth w = (x, w')"
    using that by (auto simp: io_context_construct_def engine_construct_def Let_def split: prod.splits if_splits
        dest: loop_construct_extends uring_construct_extends)
qed

lemma joined_thread_extends:
  assumes "joined_thread K f w = Some (x, w')"
    and "\<And>v v'. f v = Some (x, v') \<Longrightarrow> extends v v'"
  obtains v v' where "f v = Some (x, v')" "extends w v" "extends v' w'" "extends w w'"
proof -
  let ?v = "w\<lparr>errno := 0, cached_events := 0, sleep_timer := None\<rparr>"
  from assms(1) obtain v' where f: "f ?v = Some (x, v')"
    and w': "w' = (snd (sys K Thread_join (thread_exit K v')))\<lparr>errno := errno w, cached_events := cached_events w, sleep_timer := sleep_timer w\<rparr>"
    by (auto simp: joined_thread_def Let_def split: option.splits prod.splits)
  have "extends v' (thread_exit K v')" by (simp add: thread_exit_def fd_destroy_extends split: option.splits)
  then have "extends v' w'" using w' by (auto simp: extends_def)
  moreover have "extends w ?v" by (simp add: extends_def)
  ultimately show thesis using that[OF f] assms(2)[OF f] extends_trans by blast
qed

subsection \<open>The clients only add to the history\<close>

lemma posix_destroy_extends: "extends w (posix_destroy K s w)"
  by (simp add: posix_destroy_def posix_close_def Let_def sys_eq extends_def)

lemma posix_connect_extends: "connect_loopback_socket fuel K p out en w = Some (b, x, en', w') \<Longrightarrow> extends w w'"
proof -
  have loop: "extends v w'" if "posix_connect_loop f K n addr out en v = Some (b, x, en', w')" for f n addr v
    using that
  proof (induction f arbitrary: v)
    case (Suc f)
    have d: "extends v (posix_destroy K s (snd (posix_close K o' (snd (sys K (Connect n addr) v)))))" for s o'
      by (simp add: posix_destroy_def posix_close_def extends_def)
    have "extends (snd (sys K (Connect n addr) v)) w' \<Longrightarrow> extends v w'" using extends_sys extends_trans by blast
    with Suc.prems Suc.IH[of "snd (sys K (Connect n addr) v)"] show ?case
      by (auto simp: Let_def case_prod_beta posix_move_assign_def d split: if_splits)
  qed simp
  have "extends (snd (sys K (Socket SOCK_STREAM False False) w)) w' \<Longrightarrow> extends w w'" using extends_sys extends_trans by blast
  then show "connect_loopback_socket fuel K p out en w = Some (b, x, en', w') \<Longrightarrow> extends w w'"
    using loop by (auto simp: connect_loopback_socket_def Let_def case_prod_beta split: if_splits)
qed

lemma connect_sockets_extends: "connect_sockets fuel K msg p k cs w = Some (cs', w') \<Longrightarrow> extends w w'"
proof (induction k arbitrary: cs w)
  case (Suc k)
  obtain b x en w1 where con: "connect_loopback_socket fuel K p posix_none 0 w = Some (b, x, en, w1)"
    using Suc.prems by (auto split: option.splits)
  note w1 = posix_connect_extends[OF con]
  note failed = extends_trans[OF extends_trans[OF w1 record_failure_extends] posix_destroy_extends]
  note kept = extends_trans[OF w1 posix_destroy_extends[of w1 K "snd (posix_move_construct x)"]]
  show ?case
  proof (cases b)
    case True
    with Suc.prems con have "connect_sockets fuel K msg p k (cs @ [fst (posix_move_construct x)])
        (posix_destroy K (snd (posix_move_construct x)) w1) = Some (cs', w')" by (simp add: case_prod_beta)
    from kept Suc.IH[OF this] show ?thesis by (rule extends_trans)
  qed (use Suc.prems con failed in auto)
qed simp

lemma posix_transfer_extends:
  "posix_write fuel K msg request c b w = Some (t, b', w') \<Longrightarrow> extends w w'"
  "posix_read fuel K msg c b w = Some (t, b', w') \<Longrightarrow> extends w w'"
proof -
  have rd: "extends v w'" if "read_socket_loop f K n off buf en v = Some (r, buf', en', w')" for f n off buf en r buf' en' v
    using that
  proof (induction f arbitrary: off buf v)
    case (Suc f)
    have "extends (snd (sys K (Recv n (length buf - off)) v)) w' \<Longrightarrow> extends v w'" using extends_sys extends_trans by blast
    with Suc.prems Suc.IH[of _ _ "snd (sys K (Recv n (length buf - off)) v)"] show ?case
      by (auto simp: Let_def case_prod_beta split: if_splits)
  qed simp
  show "posix_read fuel K msg c b w = Some (t, b', w') \<Longrightarrow> extends w w'"
    using rd by (fastforce simp: posix_read_def read_exact_socket_def split: option.splits)
  show "posix_write fuel K msg request c b w = Some (t, b', w') \<Longrightarrow> extends w w'"
    using write_socket_loop_calls by (fastforce simp: posix_write_def write_all_socket_def only_calls_def extends_def split: option.splits)
qed

lemma for_clients_extends:
  assumes "\<And>c b w t b' w'. step c b w = Some (t, b', w') \<Longrightarrow> extends w w'"
  shows "for_clients K step cs b w = Some (b', w') \<Longrightarrow> extends w w'"
proof (induction cs arbitrary: b w)
  case (Cons c cs)
  then show ?case using record_failure_extends
    by (auto split: option.splits prod.splits dest!: assms intro: extends_trans)
qed simp

lemma client_rounds_extends:
  assumes "\<And>c b w t b' w'. wr c b w = Some (t, b', w') \<Longrightarrow> extends w w'"
    and "\<And>c b w t b' w'. rd c b w = Some (t, b', w') \<Longrightarrow> extends w w'"
  shows "client_rounds K wr rd i cs b w = Some w' \<Longrightarrow> extends w w'"
proof (induction i arbitrary: b w)
  case (Suc i)
  obtain b1 w1 where wp: "for_clients K wr cs b w = Some (b1, w1)" using Suc.prems by (auto split: option.splits)
  obtain x1 w2 where l1: "failed_load K w1 = (x1, w2)" by fastforce
  have "extends w w1" by (rule for_clients_extends[OF _ wp]) (rule assms(1))
  then have f2: "extends w w2" using load_extends[OF l1] extends_trans by blast
  show ?case
  proof (cases x1)
    case go: False
    obtain b2 w3 where rp: "for_clients K rd cs b1 w2 = Some (b2, w3)" using Suc.prems wp l1 go by (auto split: option.splits)
    obtain x3 w4 where l3: "failed_load K w3 = (x3, w4)" by fastforce
    have "extends w2 w3" by (rule for_clients_extends[OF _ rp]) (rule assms(2))
    then have "extends w w4" using f2 load_extends[OF l3] extends_trans by blast
    with Suc.prems wp l1 go rp l3 Suc.IH[of b2 w4] extends_trans show ?thesis by (cases x3) auto
  qed (use Suc.prems wp l1 f2 in simp)
qed simp

lemma async_clients_extends:
  assumes "async_clients fuel K msg opts p w = Some (t, w')"
  shows "extends w w'"
proof -
  have clear: "extends v (clear_sockets K cs v)" for cs v
    by (induction cs arbitrary: v) (auto simp: clear_sockets_def intro: extends_trans posix_destroy_extends)
  have rounds: "extends v v'" if "async_client_rounds fuel K msg its n cs v = Some v'" for its n cs v v'
    using that client_rounds_extends[where wr = "posix_write fuel K msg (replicate n 0x42)" and rd = "posix_read fuel K msg",
        OF posix_transfer_extends]
    by (auto simp: async_client_rounds_def split: prod.splits bool.splits dest!: load_extends intro: extends_trans)
  from assms show ?thesis
    by (auto simp: async_clients_def split: option.splits prod.splits
        dest!: connect_sockets_extends rounds clock_extends) (meson clear extends_trans)
qed

lemma async_clients_traffic:
  assumes "send_bounded K" "recv_bounded K" "async_clients fuel K msg opts p w = Some (t, w')"
  shows "traffic (echo_bytes opts) (echo_bytes opts) w w'"
proof -
  from assms(3) obtain cs w1 where con: "connect_sockets fuel K msg p (unat (connections opts)) [] w = Some (cs, w1)"
    by (auto simp: async_clients_def split: option.splits)
  obtain t2 w2 where c2: "clock_now K w1 = (t2, w2)" by fastforce
  obtain w3 where r: "async_client_rounds fuel K msg (unat (iterations opts)) (unat (payload_size opts)) cs w2 = Some w3"
    using assms(3) con c2 by (auto simp: async_clients_def split: option.splits)
  obtain t4 w4 where c4: "clock_now K w3 = (t4, w4)" by fastforce
  note c = connect_sockets_traffic[OF con, simplified]
  let ?k = "unat (iterations opts) * (length cs * unat (payload_size opts))"
  have "traffic ?k ?k w1 w4"
    using traffic_trans[OF traffic_trans[OF clock_traffic[OF c2] async_client_rounds_traffic[OF assms(1,2) r]] clock_traffic[OF c4]] by simp
  then have "traffic (echo_bytes opts) (echo_bytes opts) w1 w4" by (rule traffic_unless) (use c in \<open>auto simp: echo_bytes_def\<close>)
  with c traffic_trans[of 0 0 w w1] assms(3) con c2 r c4 show ?thesis by (auto simp: async_clients_def)
qed

text \<open>
  If the flag is clear in the end, the verdict after the join recorded nothing: the run succeeded and
  the counter had reached the number of connections.
\<close>

lemma flag_raised:
  "failed_seen (trace (case failed_load K w of (True, v) \<Rightarrow> v | (False, v) \<Rightarrow> record_failure K t v))"
  "extends w (case failed_load K w of (True, v) \<Rightarrow> v | (False, v) \<Rightarrow> record_failure K t v)"
proof -
  obtain b v where l: "failed_load K w = (b, v)" by fastforce
  show "failed_seen (trace (case failed_load K w of (True, v) \<Rightarrow> v | (False, v) \<Rightarrow> record_failure K t v))"
    using failed_load_traffic[OF l] by (cases b) (simp_all add: l)
  show "extends w (case failed_load K w of (True, v) \<Rightarrow> v | (False, v) \<Rightarrow> record_failure K t v)"
    using load_extends[OF l] extends_trans[OF load_extends[OF l] record_failure_extends] by (cases b) (simp_all add: l)
qed

lemma async_verdict_extends: "extends w (async_verdict K msg opts status w)"
proof -
  let ?w1 = "case status of Inr _ \<Rightarrow> w
      | Inl e \<Rightarrow> (case failed_load K w of (True, v) \<Rightarrow> v | (False, v) \<Rightarrow> record_failure K (''runtime run failed: '' @ msg e) v)"
  have "extends w (snd (sys K Load_accepted ?w1))"
    using extends_trans[OF flag_raised(2) extends_sys] extends_sys by (cases status) simp_all
  with flag_raised(2) extends_trans show ?thesis unfolding async_verdict_def Let_def sys_eq by auto
qed

lemma async_verdict_clear:
  assumes "\<not> failed_seen (trace (async_verdict K msg opts status w))"
  shows "status = Inr () \<and> a_num (K (trace w) Load_accepted) = uint (connections opts)
    \<and> async_verdict K msg opts status w = snd (sys K Load_accepted w)"
proof -
  let ?w1 = "case status of Inr _ \<Rightarrow> w
      | Inl e \<Rightarrow> (case failed_load K w of (True, v) \<Rightarrow> v | (False, v) \<Rightarrow> record_failure K (''runtime run failed: '' @ msg e) v)"
  have clear: "a_num (K (trace ?w1) Load_accepted) = uint (connections opts)"
    using assms flag_raised(1) unfolding async_verdict_def Let_def sys_eq by (auto split: if_splits)
  then have verdict: "async_verdict K msg opts status w = snd (sys K Load_accepted ?w1)"
    unfolding async_verdict_def Let_def sys_eq by simp
  have "status = Inr ()"
  proof (cases status)
    case (Inl e)
    with assms verdict flag_raised(1)[where w = w and t = "''runtime run failed: '' @ msg e"] show ?thesis by simp
  qed simp
  with clear verdict show ?thesis by simp
qed

subsection \<open>The whole program\<close>

text \<open>The run of a benchmark that exits with 0.\<close>

lemma async_benchmark_run:
  assumes "flag_sticks K" "library_client K E" "u_library_client K U"
    and "async_benchmark fuel K E U msg fmt self h opts p l c x w = Some (0, c', w')"
  obtains elapsed w1 c1 x1 v c2 x2 v' w3 where "async_clients fuel K msg opts p (snd (sys K Thread_start w)) = Some (elapsed, w1)"
    "io_context_run fuel K E U c1 x1 v = Some (Inr (), c2, x2, v')" "extends w1 v" "extends v' w3"
    "a_num (K (trace w3) Load_accepted) = uint (connections opts)" "\<not> failed_seen (trace w3)" "0 < elapsed"
    "extends (cout K (async_report fmt opts elapsed) (snd (sys K Failed_load (snd (sys K Load_accepted w3))))) w'"
proof -
  obtain t c1 where gr: "get_return_object h c = (t, c1)" by fastforce
  obtain t1 c2 x1 where sp: "io_context_spawn self t c1 x = (t1, c2, x1)" by (metis prod_cases3)
  from assms(4) gr sp obtain elapsed w1 where cl: "async_clients fuel K msg opts p (snd (sys K Thread_start w)) = Some (elapsed, w1)"
    by (auto simp: async_benchmark_def split: option.splits)
  from assms(4) gr sp cl obtain x2 w2 where st: "io_context_stop fuel K x1 w1 = Some (x2, w2)"
    by (auto simp: async_benchmark_def split: option.splits)
  let ?f = "\<lambda>v. map_option (\<lambda>(r, c', x', v'). ((r, c', x'), v')) (io_context_run fuel K E U (task_destroy t1 c2) x2 v)"
  from assms(4) gr sp cl st obtain status c3 x3 w3 where j: "joined_thread K ?f w2 = Some ((status, c3, x3), w3)"
    by (auto simp: async_benchmark_def split: option.splits)
  obtain code w4 where f: "finish_benchmark K elapsed (async_report fmt opts elapsed) (async_verdict K msg opts status w3) = (code, w4)"
    by fastforce
  from assms(4) gr sp cl st j f have code: "code = 0" and w': "w' = snd (io_context_destroy K E U c3 x3 (fd_destroy K (nb_listener_fd l) w4))"
    by (auto simp: async_benchmark_def)
  note ok = finish_benchmark_facts(2)[OF f code]
  have clear: "\<not> failed_seen (trace (async_verdict K msg opts status w3))" using ok assms(1) by (auto simp: flag_sticks_def)
  note verdict = async_verdict_clear[OF clear]
  have "extends v v'" if "?f v = Some (y, v')" for v v' y
    using that context_run_extends[OF assms(2,3)] by (auto split: prod.splits)
  with j obtain v v' where run: "?f v = Some ((status, c3, x3), v')" "extends w2 v" "extends v' w3"
    by (rule joined_thread_extends)
  have "io_context_run fuel K E U (task_destroy t1 c2) x2 v = Some (Inr (), c3, x3, v')"
    using run(1) verdict by (auto split: prod.splits)
  moreover have "extends w1 v" using context_stop_extends[OF st] run(2) by (rule extends_trans)
  moreover have "\<not> failed_seen (trace w3)" using clear verdict by auto
  moreover have "extends w4 w'" using w' extends_trans[OF fd_destroy_extends context_destroy_extends] by simp
  ultimately show thesis using that[OF cl] run(3) verdict ok by auto
qed


text \<open>The network of the other benchmarks, with an epoll instance, a counter of accepted connections and a stop that is seen at once.\<close>

definition async_kernel :: kernel where
  "async_kernel tr c = (case c of
       Load_accepted \<Rightarrow> ok_answer\<lparr>a_num := 2\<rparr>
     | Atomic_load_stop \<Rightarrow> ok_answer\<lparr>a_ret := 1\<rparr>
     | Epoll_create1 \<Rightarrow> ok_answer\<lparr>a_ret := 3 + int (length tr)\<rparr>
     | Eventfd \<Rightarrow> ok_answer\<lparr>a_ret := 3 + int (length tr)\<rparr>
     | _ \<Rightarrow> bench_kernel tr c)"

lemma async_kernel_ok: "send_bounded async_kernel" "recv_bounded async_kernel" "flag_sticks async_kernel"
  using bench_kernel_ok by (auto simp: send_bounded_def recv_bounded_def flag_sticks_def async_kernel_def)


end
