(* ===== verification/Program_Mains.thy ===== *)
theory Program_Mains
  imports Echo_Programs Lifetime
begin

section \<open>Programs that run a context\<close>

text \<open>
  \<^verbatim>\<open>main\<close> of \<^verbatim>\<open>example/echo_server.cpp\<close>, and \<^verbatim>\<open>example/backend_switch.cpp\<close>. The coroutine each spawns is a frame at the
  address \<open>h\<close>; what resuming it does is given by the environments, as in \<open>Engine\<close>, and \<open>self\<close> is the
  loop's address. Leaving \<^verbatim>\<open>main\<close> destroys its locals in reverse order.
\<close>

subsection \<open>The echo server\<close>

text \<open>
  The listener is moved into the coroutine's frame, so that \<^verbatim>\<open>listener_result\<close> is empty when \<^verbatim>\<open>main\<close> leaves
  after spawning.
\<close>

definition serve ::
    "nat \<Rightarrow> kernel \<Rightarrow> ('v coros, event_loop) coro_env \<Rightarrow> ('v coros, uring_loop) coro_env \<Rightarrow> messages \<Rightarrow> nat \<Rightarrow> co_handle
       \<Rightarrow> 'v coros \<Rightarrow> engine \<Rightarrow> world \<Rightarrow> (int \<times> 'v coros \<times> world) option" where
  "serve fuel K E U msg self h c g w =
     (let (t, c1) = get_return_object h c;
          (t1, c2, g1) = engine_spawn self t c1 g
      in case engine_run fuel K E U (task_destroy t1 c2) g1 w of
           None \<Rightarrow> None
         | Some (Inl e, c3, g2, w1) \<Rightarrow>
             Some (1, engine_destroy K E U c3 g2 (cerr K (''runtime failed: '' @ msg e @ newline) w1))
         | Some (Inr _, c3, g2, w1) \<Rightarrow> Some (0, engine_destroy K E U c3 g2 w1))"

definition echo_server_main ::
    "nat \<Rightarrow> inet \<Rightarrow> kernel \<Rightarrow> ('v coros, event_loop) coro_env \<Rightarrow> ('v coros, uring_loop) coro_env \<Rightarrow> messages \<Rightarrow> nat
       \<Rightarrow> co_handle \<Rightarrow> string list \<Rightarrow> 'v coros \<Rightarrow> world \<Rightarrow> (int \<times> 'v coros \<times> world) option" where
  "echo_server_main fuel I K E U msg self h args c w =
     (if 1 < length args then Some (2, c, cerr K (''usage: simplenet_echo_server [port]'' @ newline) w)
      else case (if 0 < length args then parse_port_arg (args ! 0) else Inr 8080) of
             Inl complaint \<Rightarrow> Some (2, c, cerr K complaint w)
           | Inr p \<Rightarrow>
               (case nb_bind I (loopback p) 128 K w of
                  (Inl e, w1) \<Rightarrow> Some (1, c, cerr K (''bind failed: '' @ msg e @ newline) w1)
                | (Inr l, w1) \<Rightarrow>
                    let (g, w2) = engine_construct K Epoll 256 w1
                    in if \<not> engine_valid g
                       then let (c1, w3) = engine_destroy K E U c g (cerr K (''runtime engine init failed'' @ newline) w2)
                            in Some (1, c1, fd_destroy K (nb_listener_fd l) w3)
                       else serve fuel K E U msg self h c g w2))"

subsection \<open>The backend switch\<close>

text \<open>The coroutine, whose sleep is that of \<open>async_sleep\<close>: both ways out stop the context.\<close>

definition run_backend_probe :: "nat \<Rightarrow> kernel \<Rightarrow> io_context \<Rightarrow> world \<Rightarrow> (io_context \<times> world) option" where
  "run_backend_probe fuel K x w =
     (case async_sleep fuel K 50 no_token w of
        None \<Rightarrow> None
      | Some (Inl e, w1) \<Rightarrow> io_context_stop fuel K x w1
      | Some (Inr _, w1) \<Rightarrow> io_context_stop fuel K x w1)"

definition backend_switch_main ::
    "nat \<Rightarrow> kernel \<Rightarrow> ('v coros, event_loop) coro_env \<Rightarrow> ('v coros, uring_loop) coro_env \<Rightarrow> messages \<Rightarrow> nat
       \<Rightarrow> co_handle \<Rightarrow> string list \<Rightarrow> 'v coros \<Rightarrow> world \<Rightarrow> (int \<times> 'v coros \<times> world) option" where
  "backend_switch_main fuel K E U msg self h args c w =
     (if 1 < length args then Some (2, c, cerr K (''usage: simplenet_backend_switch [epoll|io_uring]'' @ newline) w)
      else
        let name = (if 0 < length args then args ! 0 else ''epoll'')
        in case (if name = ''epoll'' then Some Epoll else if name = ''io_uring'' then Some Io_uring else None) of
             None \<Rightarrow> Some (2, c, cerr K (''unknown backend '' @ [CHR 0x27] @ name @ [CHR 0x27] @ '', expected ''
                       @ [CHR 0x27] @ ''epoll'' @ [CHR 0x27] @ '' or '' @ [CHR 0x27] @ ''io_uring'' @ [CHR 0x27] @ newline) w)
           | Some b \<Rightarrow>
               let (x, w1) = io_context_construct K b 512 w
               in if \<not> io_context_valid x
                  then Some (1, io_context_destroy K E U c x (cerr K (''backend unavailable: '' @ name @ newline) w1))
                  else
                    let (t, c1) = get_return_object h c;
                        (t1, c2, x1) = io_context_spawn self t c1 x
                    in case io_context_run fuel K E U (task_destroy t1 c2) x1 w1 of
                         None \<Rightarrow> None
                       | Some (Inl e, c3, x2, w2) \<Rightarrow>
                           Some (1, io_context_destroy K E U c3 x2 (cerr K (''runtime error: '' @ msg e @ newline) w2))
                       | Some (Inr _, c3, x2, w2) \<Rightarrow>
                           Some (0, io_context_destroy K E U c3 x2
                             (cout K (''backend '' @ name @ '' executed successfully'' @ newline) w2)))"

subsection \<open>A refused engine\<close>

text \<open>
  Where the kernel gives no usable loop, the server reports it and exits with everything closed that
  it had opened, the bound listener included.
\<close>

lemma echo_server_refused:
  assumes "\<And>v g v'. engine_construct K Epoll 256 v = (g, v') \<Longrightarrow> \<not> engine_valid g"
    and "echo_server_main fuel I K E U msg self h args c w = Some (code, c', w')"
  shows "code \<in> {1, 2} \<and> ledger w w' {#}"
proof -
  have print: "ledger v (cerr K t u) M = ledger v u M" for v t u M by (rule ledger_same_fds) simp
  define arg where "arg = (if 0 < length args then parse_port_arg (args ! 0) else Inr 8080)"
  show ?thesis
  proof (cases "length args \<le> 1 \<and> (\<exists>p. arg = Inr p)")
    case False
    then consider "1 < length args" | complaint where "length args \<le> 1" "arg = Inl complaint"
      by (cases arg; cases "1 < length args") auto
    then show ?thesis
      using assms(2) unfolding echo_server_main_def arg_def[symmetric] by cases (auto simp: print)
  next
    case True
    then obtain p where p: "length args \<le> 1" "arg = Inr p" by blast
    obtain r w1 where bind: "nb_bind I (loopback p) 128 K w = (r, w1)" by fastforce
    note made = nb_bound.make_made[of w I "loopback p" 128 K, unfolded bind]
    show ?thesis
    proof (cases r)
      case (Inl e)
      with assms(2) p bind made show ?thesis
        unfolding echo_server_main_def arg_def[symmetric] by (auto simp: print made_def)
    next
      case (Inr l)
      obtain g w2 where g: "engine_construct K Epoll 256 w1 = (g, w2)" by fastforce
      obtain c3 w3 where d: "engine_destroy K E U c g (cerr K (''runtime engine init failed'' @ newline) w2) = (c3, w3)" by fastforce
      have "ledger w1 w2 (held_fds \<lparr>ctx_engine = g\<rparr>)"
        by (rule construct_ledger[of K Epoll 256]) (simp add: io_context_construct_def g)
      moreover have "opened (trace w3) = opened (trace w2) \<and> mset (closed (trace w3)) = mset (closed (trace w2)) + held_fds \<lparr>ctx_engine = g\<rparr>"
        using engine_destroy_closes[of K E U c "\<lparr>ctx_engine = g\<rparr>" _ c3 w3] d by (simp add: io_context_destroy_def cerr_def)
      ultimately have "ledger w1 w3 {#}" by (simp add: ledger_def ac_simps)
      moreover have "ledger w w1 (owns (nb_listener_fd l))" using made Inr by (simp add: made_def owns_def)
      ultimately have "ledger w (fd_destroy K (nb_listener_fd l) w3) {#}"
        using ledger_trans[of w w1 _ w3 "{#}"] ledger_destroy by fastforce
      moreover have "code = 1" "w' = fd_destroy K (nb_listener_fd l) w3"
        using assms(2) p bind Inr g d assms(1)[OF g] unfolding echo_server_main_def arg_def[symmetric] by auto
      ultimately show ?thesis by simp
    qed
  qed
qed

subsection \<open>A program to its end\<close>

definition one_loop :: "io_context \<Rightarrow> bool" where
  "one_loop x = (eng_epoll (ctx_engine x) = None \<or> eng_uring (ctx_engine x) = None)"

lemma one_loop_kept:
  "io_context_construct K b depth w = (x, w') \<Longrightarrow> one_loop x"
  "io_context_spawn self t c x = (t1, c1, x1) \<Longrightarrow> one_loop x \<Longrightarrow> one_loop x1"
  "io_context_run fuel K E U c x w = Some (r, c1, x1, w1) \<Longrightarrow> one_loop x \<Longrightarrow> one_loop x1"
  by (auto simp: one_loop_def io_context_construct_def engine_construct_def io_context_spawn_def engine_spawn_def
      io_context_run_def engine_run_def Let_def split: prod.splits if_splits option.splits)

lemma destroy_idle_context: "roots_calm x \<Longrightarrow> one_loop x \<Longrightarrow> fst (io_context_destroy K E U c x w) = c"
  by (auto simp: roots_calm_def one_loop_def io_context_destroy_def engine_destroy_def event_loop_destroy_def
      uring_loop_destroy_def destroy_all_roots_def u_destroy_all_roots_def Let_def split: option.splits prod.splits)

text \<open>
  The backend switch works. With either backend named, or none, on a kernel that lets the context
  be constructed and that requests no stop, a probe that runs to its end takes the program to exit
  code 0 within a few turns; its frame has been destroyed, once, and none is left.
\<close>

theorem backend_switch_completes:
  fixes body :: "co_handle \<Rightarrow> task_exn + 'v"
  assumes "args \<in> {[], [''epoll''], [''io_uring'']}" "b = (if args = [''io_uring''] then Io_uring else Epoll)"
    and "io_context_valid (fst (io_context_construct K b 512 w))" "never_stopped K" "self \<noteq> 0" "h \<noteq> 0" "3 \<le> fuel"
  shows "\<exists>c' w'. backend_switch_main fuel K (straight_env (epoll_scheduler K) body) (straight_env (uring_scheduler K) body)
      msg self h args \<lparr>frames = Map.empty, destroyed = []\<rparr> w = Some (0, c', w')
    \<and> frames c' = Map.empty \<and> destroyed c' = [h]"
proof -
  let ?E = "straight_env (epoll_scheduler K) body" and ?U = "straight_env (uring_scheduler K) body"
  let ?c0 = "\<lparr>frames = Map.empty, destroyed = []\<rparr> :: 'v coros"
  obtain x0 w1 where x0: "io_context_construct K b 512 w = (x0, w1)" by fastforce
  then have valid: "io_context_valid x0" using assms(3) by simp
  obtain t c1 where g: "get_return_object h ?c0 = (t, c1)" by fastforce
  obtain t1 c2 x1 where sp: "io_context_spawn self t c1 x0 = (t1, c2, x1)" by (metis prod_cases3)
  have "spawn_all self [h] ?c0 x0 = (task_destroy t1 c2, x1)" by (simp add: g sp)
  from context_runs_to_completion[OF x0 valid assms(4) _ _ assms(5) _ this, of fuel body] assms(6,7)
  obtain c' x' w' where run: "io_context_run fuel K ?E ?U (task_destroy t1 c2) x1 w1 = Some (Inr (), c', x', w')"
    "frames c' = Map.empty" "destroyed c' = [h]" "roots_calm x'" by auto
  have "one_loop x'" using one_loop_kept(3)[OF run(1)] one_loop_kept(2)[OF sp] one_loop_kept(1)[OF x0] by blast
  then have gone: "fst (io_context_destroy K ?E ?U c' x' v) = c'" for v by (rule destroy_idle_context[OF run(4)])
  define name where "name = (if 0 < length args then args ! 0 else ''epoll'')"
  have name: "(if name = ''epoll'' then Some Epoll else if name = ''io_uring'' then Some Io_uring else None) = Some b"
    "length args \<le> 1" using assms(1,2) by (auto simp: name_def)
  have "backend_switch_main fuel K ?E ?U msg self h args ?c0 w
      = Some (0, io_context_destroy K ?E ?U c' x' (cout K (''backend '' @ name @ '' executed successfully'' @ newline) w'))"
    unfolding backend_switch_main_def Let_def name_def[symmetric] name(1) using name(2) x0 valid g sp run(1) by simp
  with gone run(2,3) show ?thesis by (metis prod.collapse)
qed

theorem backend_switch_completes_witness:
  "(\<exists>c' w'. backend_switch_main 3 both_kernel (straight_env (epoll_scheduler both_kernel) demo_body)
       (straight_env (uring_scheduler both_kernel) demo_body) (\<lambda>_. []) 1 21 [] \<lparr>frames = Map.empty, destroyed = []\<rparr> init_world
     = Some (0, c', w') \<and> destroyed c' = [21])
   \<and> (\<exists>c' w'. backend_switch_main 3 both_kernel (straight_env (epoll_scheduler both_kernel) demo_body)
       (straight_env (uring_scheduler both_kernel) demo_body) (\<lambda>_. []) 1 21 [''io_uring''] \<lparr>frames = Map.empty, destroyed = []\<rparr> init_world
     = Some (0, c', w') \<and> destroyed c' = [21])"
proof -
  have s: "never_stopped both_kernel" by (simp add: never_stopped_def both_kernel_def demo_kernel_def ok_answer_def)
  have v: "io_context_valid (fst (io_context_construct both_kernel Epoll 512 init_world))"
    "io_context_valid (fst (io_context_construct both_kernel Io_uring 512 init_world))" by code_simp+
  show ?thesis
    using backend_switch_completes[of "[]" Epoll both_kernel init_world 1 21 3 demo_body "\<lambda>_. []"]
      backend_switch_completes[of "[''io_uring'']" Io_uring both_kernel init_world 1 21 3 demo_body "\<lambda>_. []"] s v by auto
qed

end
