(* ===== verification/Spec2Isabelle.thy ===== *)
theory Spec2Isabelle
  imports
    Event_Loop_Claims
    Uring_Event_Loop_Claims
    Blocking_Sockets
    Nonblocking_Sockets
    Io_Ops_Claims
    Io_Ops_Time
    Write_Queue_Claims
    Resolver_Claims
    Task_Claims
    Task_Void
    Engine
    Benchmark_Async
    Program_Mains
begin

text \<open>
  \<^bold>\<open>libsimplenet, verified.\<close>

  libsimplenet is a C++23 networking library for Linux: blocking and non-blocking sockets over owned
  descriptors, two reactors (epoll and io_uring), two event loops over them that run C++ coroutines,
  asynchronous operations with timeouts and cancellation, a queued writer with back-pressure, a
  resolver thread, and an owner of a loop for applications. This development translates the code
  under \<^verbatim>\<open>src/include\<close> and \<^verbatim>\<open>src/src\<close>, and the programs under \<^verbatim>\<open>src/example\<close> that use it, into definitions,
  part by part, and proves what each part promises.

  \<^bold>\<open>The machine.\<close> (\<open>Net_Prelude\<close>, \<open>Posix\<close>) A kernel is a function from the history of calls to the answer
  of the next one: it may answer anything, and depend on everything that happened. \<open>sys\<close> performs a
  call, sets \<^verbatim>\<open>errno\<close> and extends the history in the \<open>world\<close>. System calls, liburing, the clocks, loads
  and stores of atomics shared with other threads, and the suspension of an asynchronous operation
  are such calls (\<open>ext_call\<close>). What the code relies on of the kernel is a named hypothesis where it is
  needed (\<open>send_bounded\<close>, \<open>recv_bounded\<close>: a count is at most the size of the buffer;
  \<open>interrupts_at_most\<close>, \<open>stalls_at_most\<close>, \<open>clock_ticks\<close>: something happens only finitely often, or time
  moves); everything else holds for every kernel.

  \<^bold>\<open>Parts, theories and source.\<close>
  \<^item> \<open>Core\<close>: \<^verbatim>\<open>core/error\<close>, \<^verbatim>\<open>core/result\<close>, \<^verbatim>\<open>core/unique_fd\<close>. \<^verbatim>\<open>result<T>\<close> is a sum, \<^verbatim>\<open>unique_fd\<close> a record of one
    number. Any program over owners closes each descriptor once.
  \<^item> \<open>Epoll_Reactor\<close>, \<open>Uring_Reactor\<close>: \<^verbatim>\<open>epoll/reactor\<close>, \<^verbatim>\<open>uring/reactor\<close>.
  \<^item> \<open>Scheduler\<close>: the virtual class \<^verbatim>\<open>scheduler\<close> of \<^verbatim>\<open>task.hpp\<close> as a record of functions, the abstract scheduler
    \<open>sched_spec\<close> (registrations, ready coroutines, posted results, active count) with its deliveries, and
    the locale \<open>scheduler_impl\<close>: the contract of a scheduler, with the lemmas its clients need. Both
    event loops interpret it, as \<open>epoll\<close> and \<open>uring\<close>.
  \<^item> \<open>Event_Loop\<close>: \<^verbatim>\<open>runtime/event_loop\<close>, the whole class, each handler with all its error paths. Facts about its
    steps and the interpretation are in \<open>Event_Loop_Facts\<close>; reachable states, the client's steps, the
    locale \<open>loop_property\<close> (what every step keeps, \<open>run\<close> keeps) and the kernel's interest masks in
    \<open>Event_Loop_Run\<close>; exits of \<^verbatim>\<open>run\<close> and completion of root tasks in \<open>Event_Loop_Props\<close>; the properties in
    \<open>Event_Loop_Claims\<close>.
  \<^item> \<open>Uring_Event_Loop\<close>: \<^verbatim>\<open>runtime/uring_event_loop\<close>, in the same way, with tokens as 64-bit words
    and the locale \<open>uring_property\<close> (\<open>Uring_Event_Loop_Facts\<close>, \<open>Uring_Event_Loop_Run\<close>, \<open>Uring_Event_Loop_Props\<close>, \<open>Uring_Event_Loop_Claims\<close>).
  \<^item> \<open>Task_Runtime\<close>: the rest of \<^verbatim>\<open>task.hpp\<close>: promises, final awaiter, \<^verbatim>\<open>task<T>\<close> and awaiters over a store of
    coroutine frames; properties in \<open>Task_Claims\<close>. \<open>Task_Void\<close>: the specialisation \<^verbatim>\<open>task<void>\<close>, from its own lines,
    and its equivalence with \<^verbatim>\<open>task<T>\<close> at the type with one value.
  \<^item> \<open>Endpoint\<close>: \<^verbatim>\<open>blocking/endpoint\<close>, \<^verbatim>\<open>blocking/socket_helpers\<close>; \<^verbatim>\<open>inet_pton\<close> and \<^verbatim>\<open>inet_ntop\<close> are a parameter, with an
    implementation for the examples.
  \<^item> \<open>Socket_Interface\<close>: what the socket layers share: the ledger of descriptors, and the locales
    \<open>fd_factory\<close> (makes one object or nothing), \<open>byte_sink\<close> and \<open>byte_source\<close> (a count is the number of bytes
    that moved). \<open>Blocking_Sockets\<close> (\<^verbatim>\<open>blocking/tcp\<close>, \<^verbatim>\<open>blocking/udp\<close>), \<open>Nonblocking_Sockets\<close> (\<^verbatim>\<open>nonblocking/tcp\<close>) and the
    asynchronous operations interpret them.
  \<^item> \<open>Io_Ops\<close>: \<^verbatim>\<open>runtime/io_ops\<close>, \<^verbatim>\<open>runtime/cancel\<close>. The readiness awaitable is modelled over a scheduler; the
    operations above it as the sequence of their calls, \<^verbatim>\<open>co_await wait_readable(fd)\<close> being a call whose
    answer is the outcome of the wait. Facts in \<open>Io_Ops_Facts\<close>, properties in \<open>Io_Ops_Claims\<close> and, for time
    and cancellation, \<open>Io_Ops_Time\<close>.
  \<^item> \<open>Write_Queue\<close>, \<open>Write_Queue_Claims\<close>: \<^verbatim>\<open>runtime/write_queue\<close>.
  \<^item> \<open>Resolver\<close>, \<open>Resolver_Claims\<close>: \<^verbatim>\<open>runtime/resolver\<close>; the worker thread is a step relation interleaved with
    the polling of \<^verbatim>\<open>async_resolve\<close>.
  \<^item> \<open>Engine\<close>: \<^verbatim>\<open>runtime/engine\<close>, \<^verbatim>\<open>io_context.hpp\<close>, and the composition of tasks, scheduler, loop and context,
    for either backend. \<open>Lifetime\<close> adds the destructors of the loops and the engine. \<open>Run_History\<close>: a run of
    either loop only adds to the history.
  \<^item> \<open>Command_Line\<close>: what the programs under \<^verbatim>\<open>src/example\<close> do with their arguments: numbers as \<^verbatim>\<open>strtoull\<close> and
    \<^verbatim>\<open>stoul\<close> read them, ports, backends, options, and the checks on their products.
  \<^item> \<open>Echo_Programs\<close>: \<^verbatim>\<open>example/echo_server.cpp\<close> (the coroutine \<^verbatim>\<open>run_echo_server\<close>) and \<^verbatim>\<open>example/echo_client.cpp\<close> (all of
    it), over the asynchronous and the blocking layer. \<open>Program_Mains\<close>: the server's \<^verbatim>\<open>main\<close> and \<^verbatim>\<open>example/backend_switch.cpp\<close>,
    over the engine and the context.
  \<^item> \<open>Benchmarks\<close>, \<open>Benchmarks_Facts\<close>: servers, clients and rounds of \<^verbatim>\<open>example/perf_*_libsimplenet.cpp\<close> and the loops
    of \<^verbatim>\<open>perf_reactor_wait.cpp\<close>. The locales \<open>benchmark_client\<close> (a client's writes and reads) and
    \<open>whole_transfers\<close> (a server's) are each interpreted for the two layers the programs use. \<open>Benchmark_Mains\<close>: the
    four \<^verbatim>\<open>main\<close> functions, with their threads. \<open>Benchmark_Traffic\<close> counts the bytes that the parts move
    (locales \<open>counted_step\<close> and \<open>counted_rounds\<close>); \<open>Benchmark_Claims\<close> puts the blocking programs together once, in the locale
    \<open>benchmark_parts\<close>, for echo and churn, and has the program for the reactor; \<open>Benchmark_Async\<close> has the asynchronous one.
    A thread is executed, as a function, where it is joined. Threads share only flags, counters and a message, and
    every access to these is a call that the environment answers; so for every interleaving there is
    an environment that gives each thread the same answers when they run one after the other, and what is shown for
    all environments holds for all interleavings. Figures are rational numbers, and \<open>fmt\<close>, how a stream writes a
    \<^verbatim>\<open>double\<close>, is a parameter.

  \<^bold>\<open>What is shown.\<close>
  \<^item> Event loops: the tables are consistent in every reachable state; the kernel's interest is exactly
    the waits that are pending, so no wake-up is lost; expiry, readiness and completions end exactly
    the waits they concern, wake each coroutine once and hand it its own result, and both loops do so
    as refinements of one abstract scheduler; no sleep reaches past a deadline; \<^verbatim>\<open>run\<close> ends only for the
    reasons it may and runs tasks to completion.
  \<^item> Coroutines: frames are destroyed once, a child wakes its parent once and hands over its result, an
    await returns the outcome of its own wait, and a context completes the tasks spawned on it.
  \<^item> Bytes: whole-buffer reads and writes, blocking, asynchronous, timed and queued, lose, repeat and
    reorder nothing, and report success exactly when everything was moved.
  \<^item> Time: timed operations and sleeps end, not early, and cancellation is answered at the next turn.
  \<^item> Resources: no path of a constructor-like operation leaks or double-closes a descriptor; a context
    closes what it opened, whatever it is used for in between.
  \<^item> Programs: the echo server echoes and closes what it accepts, the echo client's exit code is about
    what happened, and the benchmarks report figures only for rounds that were complete and for the
    bytes that were moved, and close what they opened.
  \<^item> Text: parsing of endpoints accepts exactly its grammar and inverts formatting; numbers on
    the command line are read by their grammar, which includes negative ones.

  \<^bold>\<open>Fuel.\<close> A loop of the source that need not end takes fuel and returns \<open>None\<close> when it runs out.
  Where the code ends, it is shown how much is enough: \<open>allocate_token\<close> needs one turn more than there
  are polls in flight (\<open>allocate_token_terminates\<close>, and its model is given that much); \<^verbatim>\<open>write_all\<close> and
  \<^verbatim>\<open>read_exact\<close> one turn per byte and interruption and one more; an echo session one turn per byte its
  peer sends and one more; the TCP benchmark one turn per byte of a payload and interruption and one more
  for each transfer, the churn benchmark the same for its payload of one byte; the whole-buffer asynchronous loops take one turn per
  byte and one more by definition, and each transfer as many as the descriptor stalls; a timed read,
  a timed write and a sleep one per clock step of their timeout; a flush one per queued byte and one
  more; the resolver's worker one per job and one more; \<^verbatim>\<open>run\<close> with tasks
  that complete one per task and two more. \<^verbatim>\<open>run\<close> in general waits for the world and need not end.

  \<^bold>\<open>Not modelled.\<close> Tests, scripts and build files are tooling. Of the programs: the \<^verbatim>\<open>*_boost_asio.cpp\<close> ones, which
  measure a third-party library, and the rounding and printing of floating-point figures. That the asynchronous benchmark
  ends is not shown: its runtime thread waits for connections, for ever if none comes. Of the library: the text of
  \<^verbatim>\<open>error::message\<close>, which is the standard library's;
  memory orders (an atomic load may return any value the kernel parameter gives, a mutex is the
  atomicity of a step); failing allocation, which ends the program in a \<^verbatim>\<open>noexcept\<close> function; two
  concurrent flushes of one writer; overflow of \<^verbatim>\<open>size_t\<close> and of the clock's 64-bit nanoseconds (counters
  of waiters are proved to stay below \<open>2^32\<close>).
\<close>

end
